(* ===== verification/Blktap_Prelude.thy ===== *)
theory Blktap_Prelude
  imports "HOL-Library.Word" "HOL-Library.State_Monad"
begin

text \<open>
  Shared vocabulary of the development: error numbers, truncation to C's unsigned widths, the
  bytes of a machine word, buffer updates, and a weakest-precondition calculus for the state
  monad in which the stateful C code is written.  A C function that returns an error code is
  modelled as a state computation that returns the same code as an \<open>int\<close> (0 for success,
  \<open>-EINVAL\<close> and so on for the errors), so that each early return of the source is a branch
  of the model.
\<close>

named_theorems wp_simps \<open>weakest preconditions of the monad's combinators\<close>
named_theorems wp_ok \<open>preconditions of transfers that meet no fault\<close>
named_theorems geom_simps \<open>unfolding of the size and offset arithmetic\<close>

subsection \<open>Error numbers\<close>

abbreviation (input) ENOENT :: int where "ENOENT \<equiv> 2"
abbreviation (input) EINTR :: int where "EINTR \<equiv> 4"
abbreviation (input) EIO :: int where "EIO \<equiv> 5"
abbreviation (input) EBADF :: int where "EBADF \<equiv> 9"
abbreviation (input) EAGAIN :: int where "EAGAIN \<equiv> 11"
abbreviation (input) ENOMEM :: int where "ENOMEM \<equiv> 12"
abbreviation (input) EINVAL :: int where "EINVAL \<equiv> 22"
abbreviation (input) ENOSPC :: int where "ENOSPC \<equiv> 28"
abbreviation (input) EPIPE :: int where "EPIPE \<equiv> 32"
abbreviation (input) ERANGE :: int where "ERANGE \<equiv> 34"
abbreviation (input) ENAMETOOLONG :: int where "ENAMETOOLONG \<equiv> 36"
abbreviation (input) EILSEQ :: int where "EILSEQ \<equiv> 84"

subsection \<open>Unsigned truncation\<close>

text \<open>Values of C's unsigned types are natural numbers; where the code stores one in a narrower
  variable, or where an operation can wrap, the truncation is written out.\<close>

text \<open>The value a function returns when a call has failed and set \<^verbatim>\<open>errno\<close>, which is then positive.\<close>

definition neg_errno :: "int \<Rightarrow> int" where
  "neg_errno e = - (if e \<le> 0 then EIO else e)"

lemma neg_errno_less [simp]: "neg_errno e < 0"
  by (simp add: neg_errno_def)

lemma neg_errno_neq [simp]: "neg_errno e \<noteq> 0"
  by (simp add: neg_errno_def)

definition u32 :: "nat \<Rightarrow> nat" where "u32 n = n mod 4294967296"

definition u64 :: "nat \<Rightarrow> nat" where "u64 n = n mod 18446744073709551616"

lemma u32_id [simp]: "n < 4294967296 \<Longrightarrow> u32 n = n"
  by (simp add: u32_def)

lemma u64_id [simp]: "n < 18446744073709551616 \<Longrightarrow> u64 n = n"
  by (simp add: u64_def)

lemma u32_less [simp]: "u32 n < 4294967296"
  by (simp add: u32_def)

lemma u64_less [simp]: "u64 n < 18446744073709551616"
  by (simp add: u64_def)

lemma u32_le: "u32 n \<le> n"
  by (simp add: u32_def)

lemma unat_u32_lt [simp]: "unat (w :: 32 word) < 4294967296"
  using unsigned_less [of w, where ?'a = nat] by simp

lemma unat_u64_lt [simp]: "unat (w :: 64 word) < 18446744073709551616"
  using unsigned_less [of w, where ?'a = nat] by simp

lemma unat_of_nat_u32 [simp]: "n < 4294967296 \<Longrightarrow> unat (of_nat n :: 32 word) = n"
  by (simp add: unsigned_of_nat take_bit_nat_eq_self)

lemma unat_of_nat_u64 [simp]: "n < 18446744073709551616 \<Longrightarrow> unat (of_nat n :: 64 word) = n"
  by (simp add: unsigned_of_nat take_bit_nat_eq_self)

text \<open>A 64-bit unsigned value read as the signed type \<open>off64_t\<close>.\<close>

definition to_off64 :: "64 word \<Rightarrow> int" where "to_off64 w = sint w"

lemma to_off64_small:
  assumes "unat w < 9223372036854775808"
  shows "to_off64 w = int (unat w)"
proof -
  have eq: "int (unat w) = uint w" by simp
  have "int (unat w) < 9223372036854775808" using assms by linarith
  then have "uint w < 2 ^ 63" by (simp only: eq) simp
  moreover have "- (2 ^ 63) \<le> uint w"
    by (rule order_trans [of _ 0]) simp_all
  ultimately have "signed_take_bit 63 (uint w) = uint w"
    by (intro signed_take_bit_int_eq_self)
  then show ?thesis
    by (simp add: to_off64_def sint_uint)
qed

subsection \<open>Bytes of a word\<close>

type_synonym byte = "8 word"

text \<open>The memory image of an integer on the little-endian hosts the code runs on, and the
  value such an image denotes.\<close>

fun le_bytes :: "nat \<Rightarrow> 'a::len word \<Rightarrow> byte list" where
  "le_bytes 0 w = []"
| "le_bytes (Suc n) w = ucast w # le_bytes n (drop_bit 8 w)"

fun le_word :: "byte list \<Rightarrow> 'a::len word" where
  "le_word [] = 0"
| "le_word (b # bs) = or (ucast b) (push_bit 8 (le_word bs))"

lemma length_le_bytes [simp]: "length (le_bytes n w) = n"
  by (induction n w rule: le_bytes.induct) simp_all

lemma bit_le_bytes_nth:
  fixes w :: "'a::len word"
  shows "k < n \<Longrightarrow> bit (le_bytes n w ! k) i \<longleftrightarrow> i < 8 \<and> bit w (8 * k + i)"
proof (induction n w arbitrary: k rule: le_bytes.induct)
  case (2 n w)
  then show ?case
    by (cases k) (auto simp: bit_simps algebra_simps)
qed simp

lemma bit_le_word:
  "bit (le_word bs :: 'a::len word) i \<longleftrightarrow>
     i < LENGTH('a) \<and> i div 8 < length bs \<and> bit (bs ! (i div 8)) (i mod 8)"
proof (induction bs arbitrary: i)
  case (Cons b bs)
  show ?case
  proof (cases "i < 8")
    case True
    then show ?thesis
      by (auto simp: bit_simps)
  next
    case False
    then obtain k where k: "i = 8 + k" using le_Suc_ex not_less by blast
    have "\<not> bit b (8 + k)" using bit_imp_le_length [of b "8 + k"] by auto
    moreover have "(8 + k) div 8 = Suc (k div 8)" by simp
    ultimately show ?thesis
      using Cons [of k] by (auto simp: k bit_simps)
  qed
qed simp

lemma le_word_le_bytes:
  fixes w :: "'a::len word"
  assumes "LENGTH('a) \<le> 8 * n"
  shows "le_word (le_bytes n w) = w"
proof (rule bit_word_eqI)
  fix i assume i: "i < LENGTH('a)"
  with assms have "i div 8 < n" by simp
  with i show "bit (le_word (le_bytes n w) :: 'a word) i = bit w i"
    by (simp add: bit_le_word bit_le_bytes_nth)
qed

lemma le_bytes_le_word:
  assumes "8 * length bs \<le> LENGTH('a::len)"
  shows "le_bytes (length bs) (le_word bs :: 'a word) = bs"
proof (rule nth_equalityI)
  fix k assume "k < length (le_bytes (length bs) (le_word bs :: 'a word))"
  then have k: "k < length bs" by simp
  show "le_bytes (length bs) (le_word bs :: 'a word) ! k = bs ! k"
  proof (rule bit_word_eqI)
    fix i assume i: "i < LENGTH(8)"
    have "8 * k + i < LENGTH('a)" "(8 * k + i) div 8 = k" "(8 * k + i) mod 8 = i"
      using assms k i by simp_all
    with k i show "bit (le_bytes (length bs) (le_word bs :: 'a word) ! k) i = bit (bs ! k) i"
      by (simp add: bit_le_bytes_nth bit_le_word)
  qed
qed simp

text \<open>The byte swaps of \<^verbatim>\<open>byteswap.h\<close>.\<close>

definition bswap_32 :: "32 word \<Rightarrow> 32 word" where
  "bswap_32 w = le_word (rev (le_bytes 4 w))"

definition bswap_64 :: "64 word \<Rightarrow> 64 word" where
  "bswap_64 w = le_word (rev (le_bytes 8 w))"

lemma le_bytes_bswap_32: "le_bytes 4 (bswap_32 w) = rev (le_bytes 4 w)"
  using le_bytes_le_word [of "rev (le_bytes 4 w)", where ?'a = 32] by (simp add: bswap_32_def)

lemma le_bytes_bswap_64: "le_bytes 8 (bswap_64 w) = rev (le_bytes 8 w)"
  using le_bytes_le_word [of "rev (le_bytes 8 w)", where ?'a = 64] by (simp add: bswap_64_def)

lemma bswap_32_bswap_32 [simp]: "bswap_32 (bswap_32 w) = w"
  using le_word_le_bytes [of 4 w] by (simp add: bswap_32_def le_bytes_bswap_32 [unfolded bswap_32_def])

lemma bswap_64_bswap_64 [simp]: "bswap_64 (bswap_64 w) = w"
  using le_word_le_bytes [of 8 w] by (simp add: bswap_64_def le_bytes_bswap_64 [unfolded bswap_64_def])

subsection \<open>Buffers\<close>

text \<open>\<open>memcpy\<close> of \<open>src\<close> to offset \<open>i\<close> of a buffer that has room for it.\<close>

definition buf_put :: "'a list \<Rightarrow> nat \<Rightarrow> 'a list \<Rightarrow> 'a list" where
  "buf_put buf i src = take i buf @ src @ drop (i + length src) buf"

text \<open>\<open>n\<close> elements from offset \<open>i\<close> of a buffer.\<close>

definition buf_get :: "'a list \<Rightarrow> nat \<Rightarrow> nat \<Rightarrow> 'a list" where
  "buf_get buf i n = take n (drop i buf)"

lemma length_buf_put [simp]:
  "i + length src \<le> length buf \<Longrightarrow> length (buf_put buf i src) = length buf"
  by (simp add: buf_put_def)

lemma nth_buf_put:
  assumes "i + length src \<le> length buf" "k < length buf"
  shows "buf_put buf i src ! k =
    (if i \<le> k \<and> k < i + length src then src ! (k - i) else buf ! k)"
  using assms by (auto simp: buf_put_def nth_append min_def)

lemma length_buf_get [simp]: "i + n \<le> length buf \<Longrightarrow> length (buf_get buf i n) = n"
  by (simp add: buf_get_def)

lemma nth_buf_get [simp]: "i + n \<le> length buf \<Longrightarrow> k < n \<Longrightarrow> buf_get buf i n ! k = buf ! (i + k)"
  by (simp add: buf_get_def)

lemma buf_get_append1: "i + n \<le> length xs \<Longrightarrow> buf_get (xs @ ys) i n = buf_get xs i n"
  by (simp add: buf_get_def)

lemma buf_get_append2: "length xs \<le> i \<Longrightarrow> buf_get (xs @ ys) i n = buf_get ys (i - length xs) n"
  by (simp add: buf_get_def)

lemma buf_get_self: "n = length xs \<Longrightarrow> buf_get xs 0 n = xs"
  by (simp add: buf_get_def)

subsection \<open>The state monad and its weakest preconditions\<close>

abbreviation ret :: "'a \<Rightarrow> ('s, 'a) state" where "ret \<equiv> State_Monad.return"

definition gets :: "('s \<Rightarrow> 'a) \<Rightarrow> ('s, 'a) state" where
  "gets f = State (\<lambda>s. (f s, s))"

definition modify :: "('s \<Rightarrow> 's) \<Rightarrow> ('s, unit) state" where
  "modify f = State (\<lambda>s. ((), f s))"

lemma run_state_gets [simp]: "run_state (gets f) s = (f s, s)"
  by (simp add: gets_def)

lemma run_state_modify [simp]: "run_state (modify f) s = ((), f s)"
  by (simp add: modify_def)

definition wp :: "('s, 'a) state \<Rightarrow> ('a \<Rightarrow> 's \<Rightarrow> bool) \<Rightarrow> 's \<Rightarrow> bool" where
  "wp m Q s \<longleftrightarrow> (case run_state m s of (r, t) \<Rightarrow> Q r t)"

lemma wp_ret [wp_simps]: "wp (State_Monad.return x) Q s = Q x s"
  by (simp add: wp_def)

lemma wp_bind [wp_simps]: "wp (State_Monad.bind m f) Q s = wp m (\<lambda>x. wp (f x) Q) s"
  by (simp add: wp_def split_beta)

lemma wp_get [wp_simps]: "wp State_Monad.get Q s = Q s s"
  by (simp add: wp_def State_Monad.get_def)

lemma wp_gets [wp_simps]: "wp (gets f) Q s = Q (f s) s"
  by (simp add: wp_def)

lemma wp_modify [wp_simps]: "wp (modify f) Q s = Q () (f s)"
  by (simp add: wp_def)

lemma wp_if [wp_simps]: "wp (if b then m else n) Q s = (if b then wp m Q s else wp n Q s)"
  by simp

lemma wp_let [wp_simps]: "wp (let x = a in f x) Q s = (let x = a in wp (f x) Q s)"
  by simp

lemma wp_case_prod [wp_simps]: "wp (case p of (a, b) \<Rightarrow> f a b) Q s = (case p of (a, b) \<Rightarrow> wp (f a b) Q s)"
  by (simp add: split_beta)

lemma wp_case_option [wp_simps]:
  "wp (case x of None \<Rightarrow> m | Some y \<Rightarrow> f y) Q s = (case x of None \<Rightarrow> wp m Q s | Some y \<Rightarrow> wp (f y) Q s)"
  by (simp split: option.split)

lemma wp_mono: "wp m Q s \<Longrightarrow> (\<And>r t. Q r t \<Longrightarrow> R r t) \<Longrightarrow> wp m R s"
  by (auto simp: wp_def)

lemma wp_runI: "run_state m s = (r, t) \<Longrightarrow> Q r t \<Longrightarrow> wp m Q s"
  by (simp add: wp_def)

lemma wp_runD: "wp m Q s \<Longrightarrow> run_state m s = (r, t) \<Longrightarrow> Q r t"
  by (simp add: wp_def)

lemma wp_conjI: "wp m Q s \<Longrightarrow> wp m R s \<Longrightarrow> wp m (\<lambda>r t. Q r t \<and> R r t) s"
  by (auto simp: wp_def)

end
