(* ===== verification/Vhd_Bits.thy ===== *)
theory Vhd_Bits
  imports Blktap_Prelude
begin

text \<open>
  The inline helpers of \<^verbatim>\<open>include/libvhd.h\<close>: bitmaps that keep the first bit of a byte in its
  most significant position, and the conversions between bytes and 512-byte sectors.  The
  interface \<open>bit_array\<close> states what the rest of the code relies on of a bitmap: what a
  test returns after a set or a clear, and that neither changes its size.
\<close>

subsection \<open>The interface of a bitmap\<close>

locale bit_array =
  fixes test :: "'m \<Rightarrow> nat \<Rightarrow> bool"
    and setb :: "'m \<Rightarrow> nat \<Rightarrow> 'm"
    and clearb :: "'m \<Rightarrow> nat \<Rightarrow> 'm"
    and bits :: "'m \<Rightarrow> nat"
  assumes bits_set: "bits (setb m i) = bits m"
    and bits_clear: "bits (clearb m i) = bits m"
    and test_set: "i < bits m \<Longrightarrow> test (setb m i) j \<longleftrightarrow> j = i \<or> test m j"
    and test_clear: "i < bits m \<Longrightarrow> test (clearb m i) j \<longleftrightarrow> j \<noteq> i \<and> test m j"
begin

lemma bits_fold_set: "bits (fold (\<lambda>i m. setb m i) is m) = bits m"
  by (induction "is" arbitrary: m) (simp_all add: bits_set)

lemma test_fold_set:
  "(\<And>i. i \<in> set is \<Longrightarrow> i < bits m) \<Longrightarrow>
     test (fold (\<lambda>i m. setb m i) is m) j \<longleftrightarrow> j \<in> set is \<or> test m j"
proof (induction "is" arbitrary: m)
  case (Cons a xs)
  then show ?case by (auto simp: bits_set test_set)
qed simp

lemma bits_fold_clear: "bits (fold (\<lambda>i m. clearb m i) is m) = bits m"
  by (induction "is" arbitrary: m) (simp_all add: bits_clear)

lemma test_fold_clear:
  "(\<And>i. i \<in> set is \<Longrightarrow> i < bits m) \<Longrightarrow>
     test (fold (\<lambda>i m. clearb m i) is m) j \<longleftrightarrow> j \<notin> set is \<and> test m j"
proof (induction "is" arbitrary: m)
  case (Cons a xs)
  then show ?case by (auto simp: bits_clear test_clear)
qed simp

lemma count_full: "length (filter (test m) [0..<n]) = n \<longleftrightarrow> (\<forall>i<n. test m i)"
proof -
  have "length (filter (test m) [0..<n]) = n \<longleftrightarrow> filter (test m) [0..<n] = [0..<n]"
    by (metis filter_True filter_id_conv length_filter_less length_upt less_irrefl minus_nat.diff_0)
  then show ?thesis by (auto simp: filter_id_conv)
qed

end

subsection \<open>Bitmaps of libvhd\<close>

text \<open>An access beyond the buffer is undefined behaviour in C; here it reads as clear and writes
  nothing, and the lemmas that matter carry the bound.\<close>

definition test_bit :: "byte list \<Rightarrow> nat \<Rightarrow> bool" where
  "test_bit addr nr \<longleftrightarrow> nr div 8 < length addr \<and>
     and (push_bit (nr mod 8) (ucast (addr ! (nr div 8)) :: 32 word)) 0x80 \<noteq> 0"

definition set_bit :: "byte list \<Rightarrow> nat \<Rightarrow> byte list" where
  "set_bit addr nr = addr[nr div 8 := or (addr ! (nr div 8)) (drop_bit (nr mod 8) 0x80)]"

definition clear_bit :: "byte list \<Rightarrow> nat \<Rightarrow> byte list" where
  "clear_bit addr nr = addr[nr div 8 := and (addr ! (nr div 8)) (not (drop_bit (nr mod 8) 0x80))]"

lemma and_0x80: "and (w :: 'a::len word) 0x80 \<noteq> 0 \<longleftrightarrow> bit w 7"
proof -
  have "(0x80 :: 'a word) = push_bit 7 1" by (simp add: push_bit_eq_mult)
  then show ?thesis
    by (metis and_exp_eq_0_iff_not_bit push_bit_of_1)
qed

lemma test_bit_bit: "test_bit addr nr \<longleftrightarrow> nr div 8 < length addr \<and> bit (addr ! (nr div 8)) (7 - nr mod 8)"
proof -
  have "nr mod 8 \<le> 7" by (simp add: less_Suc_eq_le [symmetric])
  then show ?thesis
    by (auto simp: test_bit_def and_0x80 bit_simps)
qed

lemma bit_0x80: "bit (0x80 :: byte) n \<longleftrightarrow> n = 7"
proof -
  have eq: "(0x80 :: byte) = 2 ^ 7" by simp
  show ?thesis
    unfolding eq bit_exp_iff possible_bit_word by (simp del: One_nat_def) (auto)
qed

lemma bit_mask_byte: "bit (drop_bit k (0x80 :: byte)) i \<longleftrightarrow> k \<le> 7 \<and> i = 7 - k"
  unfolding bit_drop_bit_eq o_def bit_0x80 by arith

lemma length_set_bit [simp]: "length (set_bit m i) = length m"
  by (simp add: set_bit_def)

lemma length_clear_bit [simp]: "length (clear_bit m i) = length m"
  by (simp add: clear_bit_def)

lemma mod8_le_7: "(i::nat) mod 8 \<le> 7"
  by (simp add: less_Suc_eq_le [symmetric])

lemma bit_mask_nr: "bit (drop_bit (i mod 8) (0x80 :: byte)) (7 - j mod 8) \<longleftrightarrow> i mod 8 = j mod 8"
proof -
  have "i mod 8 \<le> 7" "j mod 8 \<le> 7" by (rule mod8_le_7)+
  then show ?thesis unfolding bit_mask_byte by arith
qed

lemma nr_eq_div_mod: "(i::nat) = j \<longleftrightarrow> i div 8 = j div 8 \<and> i mod 8 = j mod 8"
  by (metis div_mult_mod_eq)

lemma test_set_bit:
  assumes "i < 8 * length m"
  shows "test_bit (set_bit m i) j \<longleftrightarrow> j = i \<or> test_bit m j"
proof (cases "i div 8 = j div 8")
  case True
  have "i div 8 < length m" using assms by simp
  then show ?thesis
    using True by (simp add: test_bit_bit set_bit_def bit_or_iff bit_mask_nr nr_eq_div_mod [of j i])
       (metis)
next
  case False
  then show ?thesis by (auto simp: test_bit_bit set_bit_def)
qed

lemma test_clear_bit:
  assumes "i < 8 * length m"
  shows "test_bit (clear_bit m i) j \<longleftrightarrow> j \<noteq> i \<and> test_bit m j"
proof (cases "i div 8 = j div 8")
  case True
  have "i div 8 < length m" "7 - j mod 8 < 8" using assms by simp_all
  then show ?thesis
    using True by (simp add: test_bit_bit clear_bit_def bit_and_iff bit_not_iff bit_mask_nr
        nr_eq_div_mod [of j i]) (metis)
next
  case False
  then show ?thesis by (auto simp: test_bit_bit clear_bit_def)
qed

interpretation vbm: bit_array test_bit set_bit clear_bit "\<lambda>m. 8 * length m"
  by unfold_locales (simp_all add: test_set_bit test_clear_bit)

lemma length_fold_set_bit [simp]: "length (fold (\<lambda>i m. set_bit m i) is m) = length m"
  using vbm.bits_fold_set [of "is" m] by simp

lemma test_bit_replicate_0 [simp]: "\<not> test_bit (replicate n 0) i"
  by (simp add: test_bit_bit)

lemma byte_eq_if_test_bit:
  assumes "length m = length m'" "\<And>i. i < 8 * length m \<Longrightarrow> test_bit m i = test_bit m' i"
  shows "m = m'"
proof (rule nth_equalityI)
  fix k assume k: "k < length m"
  show "m ! k = m' ! k"
  proof (rule bit_word_eqI)
    fix n assume "n < LENGTH(8)"
    then have n: "n < 8" by simp
    define d where "d = 7 - n"
    define i where "i = 8 * k + d"
    have "d < 8" by (simp add: d_def)
    then have "i div 8 = k" "i mod 8 = d" "i < 8 * length m"
      using k by (simp_all add: i_def)
    then have "i div 8 = k" "7 - i mod 8 = n" "i < 8 * length m" using n by (simp_all add: d_def)
    with assms(2) [of i] assms(1) k show "bit (m ! k) n = bit (m' ! k) n"
      by (simp add: test_bit_bit)
  qed
qed (use assms in simp)

subsection \<open>Bytes and sectors\<close>

abbreviation (input) VHD_SECTOR_SIZE :: nat where "VHD_SECTOR_SIZE \<equiv> 512"
abbreviation (input) VHD_BLOCK_SIZE :: nat where "VHD_BLOCK_SIZE \<equiv> 2097152"
abbreviation (input) VHD_BLOCK_SHIFT :: nat where "VHD_BLOCK_SHIFT \<equiv> 21"

definition secs_round_up :: "nat \<Rightarrow> nat" where
  "secs_round_up bytes = u32 (u64 (bytes + 511) div 512)"

definition secs_round_up_no_zero :: "nat \<Rightarrow> nat" where
  "secs_round_up_no_zero bytes = (if secs_round_up bytes \<noteq> 0 then secs_round_up bytes else 1)"

definition vhd_sectors_to_bytes :: "nat \<Rightarrow> nat" where
  "vhd_sectors_to_bytes sectors = u64 (sectors * 512)"

definition vhd_bytes_padded :: "nat \<Rightarrow> nat" where
  "vhd_bytes_padded bytes = vhd_sectors_to_bytes (secs_round_up_no_zero bytes)"

lemma secs_round_up_eq: "bytes \<le> 2199023255040 \<Longrightarrow> secs_round_up bytes = (bytes + 511) div 512"
  by (simp add: secs_round_up_def)

lemma vhd_sectors_to_bytes_eq [simp]: "s < 36028797018963968 \<Longrightarrow> vhd_sectors_to_bytes s = s * 512"
  by (simp add: vhd_sectors_to_bytes_def)

lemma secs_round_up_no_zero_pos [simp]: "0 < secs_round_up_no_zero b"
  by (simp add: secs_round_up_no_zero_def)

lemma secs_round_up_no_zero_lt [simp]: "secs_round_up_no_zero b < 4294967296"
  by (simp add: secs_round_up_no_zero_def secs_round_up_def)

lemma vhd_bytes_padded_eq: "vhd_bytes_padded b = secs_round_up_no_zero b * 512"
proof -
  have "secs_round_up_no_zero b < 36028797018963968"
    using secs_round_up_no_zero_lt [of b] by (rule order.strict_trans) simp
  then show ?thesis by (simp add: vhd_bytes_padded_def)
qed

lemma secs_round_up_no_zero_eq:
  "b \<le> 2199023255040 \<Longrightarrow> secs_round_up_no_zero b = max 1 ((b + 511) div 512)"
  by (auto simp: secs_round_up_no_zero_def secs_round_up_eq)

lemma vhd_bytes_padded_bounds:
  assumes "b \<le> 2199023255040"
  shows "b \<le> vhd_bytes_padded b" and "vhd_bytes_padded b < b + 513" and "vhd_bytes_padded b mod 512 = 0"
  using assms by (auto simp: vhd_bytes_padded_eq secs_round_up_no_zero_eq max_def)

end
