(* ===== verification/Vhd_Format.thy ===== *)
theory Vhd_Format
  imports Vhd_Bits
begin

text \<open>
  The on-disk structures of \<^verbatim>\<open>include/vhd.h\<close> and the pure routines of
  \<^verbatim>\<open>vhd/lib/libvhd.c\<close> on them: memory images, byte swapping, checksums, validation, geometry and
  time.  A structure is a record of machine words and byte arrays; its memory image on the
  little-endian host is \<open>footer_bytes\<close>, \<open>header_bytes\<close> or \<open>batmap_header_bytes\<close>, so that
  the checksum loops run over the very bytes the C code sums.
\<close>

definition str_bytes :: "string \<Rightarrow> byte list" where
  "str_bytes s = map of_char s"

definition HD_COOKIE :: "byte list" where "HD_COOKIE = str_bytes ''conectix''"
definition VHD_POISON_COOKIE :: "byte list" where "VHD_POISON_COOKIE = str_bytes ''v_poison''"
definition DD_COOKIE :: "byte list" where "DD_COOKIE = str_bytes ''cxsparse''"
definition VHD_BATMAP_COOKIE :: "byte list" where "VHD_BATMAP_COOKIE = str_bytes ''tdbatmap''"

definition VHD_VERSION :: "32 word \<Rightarrow> 32 word \<Rightarrow> 32 word" where
  "VHD_VERSION major minor = or (push_bit 16 major) (and minor 0xFFFF)"

abbreviation (input) HD_TYPE_FIXED :: "32 word" where "HD_TYPE_FIXED \<equiv> 2"
abbreviation (input) HD_TYPE_DYNAMIC :: "32 word" where "HD_TYPE_DYNAMIC \<equiv> 3"
abbreviation (input) HD_TYPE_DIFF :: "32 word" where "HD_TYPE_DIFF \<equiv> 4"
abbreviation (input) DD_BLK_UNUSED :: "32 word" where "DD_BLK_UNUSED \<equiv> 0xFFFFFFFF"

subsection \<open>Structures\<close>

record vhd_footer =
  ftr_cookie :: "byte list"
  features :: "32 word"
  ff_version :: "32 word"
  ftr_data_offset :: "64 word"
  timestamp :: "32 word"
  crtr_app :: "byte list"
  crtr_ver :: "32 word"
  crtr_os :: "32 word"
  orig_size :: "64 word"
  curr_size :: "64 word"
  geometry :: "32 word"
  ftr_type :: "32 word"
  ftr_checksum :: "32 word"
  uuid :: "byte list"
  saved :: byte
  hidden :: byte
  reserved :: "byte list"

record prt_loc =
  code :: "32 word"
  data_space :: "32 word"
  data_len :: "32 word"
  res :: "32 word"
  loc_data_offset :: "64 word"

record vhd_header =
  hdr_cookie :: "byte list"
  hdr_data_offset :: "64 word"
  table_offset :: "64 word"
  hdr_ver :: "32 word"
  max_bat_size :: "32 word"
  block_size :: "32 word"
  hdr_checksum :: "32 word"
  prt_uuid :: "byte list"
  prt_ts :: "32 word"
  res1 :: "32 word"
  prt_name :: "byte list"
  loc :: "prt_loc list"
  res2 :: "byte list"

text \<open>The 65 bytes of the nested \<^verbatim>\<open>struct vhd_keyhash\<close> (cookie, nonce, hash) are kept together.\<close>

record vhd_batmap_header =
  bmh_cookie :: "byte list"
  batmap_offset :: "64 word"
  batmap_size :: "32 word"
  batmap_version :: "32 word"
  bmh_checksum :: "32 word"
  marker :: byte
  keyhash :: "byte list"
  bmh_res :: "byte list"

text \<open>Array fields have the lengths the C declarations give them.\<close>

definition footer_wf :: "vhd_footer \<Rightarrow> bool" where
  "footer_wf f \<longleftrightarrow> length (ftr_cookie f) = 8 \<and> length (crtr_app f) = 4 \<and> length (uuid f) = 16 \<and>
     length (reserved f) = 426"

definition header_wf :: "vhd_header \<Rightarrow> bool" where
  "header_wf h \<longleftrightarrow> length (hdr_cookie h) = 8 \<and> length (prt_uuid h) = 16 \<and> length (prt_name h) = 512 \<and>
     length (loc h) = 8 \<and> length (res2 h) = 256"

definition batmap_header_wf :: "vhd_batmap_header \<Rightarrow> bool" where
  "batmap_header_wf b \<longleftrightarrow> length (bmh_cookie b) = 8 \<and> length (keyhash b) = 65 \<and> length (bmh_res b) = 418"

subsection \<open>Memory images\<close>

definition footer_bytes :: "vhd_footer \<Rightarrow> byte list" where
  "footer_bytes f = ftr_cookie f @ le_bytes 4 (features f) @ le_bytes 4 (ff_version f) @
     le_bytes 8 (ftr_data_offset f) @ le_bytes 4 (timestamp f) @ crtr_app f @
     le_bytes 4 (crtr_ver f) @ le_bytes 4 (crtr_os f) @ le_bytes 8 (orig_size f) @
     le_bytes 8 (curr_size f) @ le_bytes 4 (geometry f) @ le_bytes 4 (ftr_type f) @
     le_bytes 4 (ftr_checksum f) @ uuid f @ [saved f, hidden f] @ reserved f"

definition bytes_footer :: "byte list \<Rightarrow> vhd_footer" where
  "bytes_footer b = \<lparr> ftr_cookie = buf_get b 0 8, features = le_word (buf_get b 8 4),
     ff_version = le_word (buf_get b 12 4), ftr_data_offset = le_word (buf_get b 16 8),
     timestamp = le_word (buf_get b 24 4), crtr_app = buf_get b 28 4,
     crtr_ver = le_word (buf_get b 32 4), crtr_os = le_word (buf_get b 36 4),
     orig_size = le_word (buf_get b 40 8), curr_size = le_word (buf_get b 48 8),
     geometry = le_word (buf_get b 56 4), ftr_type = le_word (buf_get b 60 4),
     ftr_checksum = le_word (buf_get b 64 4), uuid = buf_get b 68 16,
     saved = b ! 84, hidden = b ! 85, reserved = buf_get b 86 426 \<rparr>"

definition loc_bytes :: "prt_loc \<Rightarrow> byte list" where
  "loc_bytes l = le_bytes 4 (code l) @ le_bytes 4 (data_space l) @ le_bytes 4 (data_len l) @
     le_bytes 4 (res l) @ le_bytes 8 (loc_data_offset l)"

definition bytes_loc :: "byte list \<Rightarrow> prt_loc" where
  "bytes_loc b = \<lparr> code = le_word (buf_get b 0 4), data_space = le_word (buf_get b 4 4),
     data_len = le_word (buf_get b 8 4), res = le_word (buf_get b 12 4),
     loc_data_offset = le_word (buf_get b 16 8) \<rparr>"

definition header_bytes :: "vhd_header \<Rightarrow> byte list" where
  "header_bytes h = hdr_cookie h @ le_bytes 8 (hdr_data_offset h) @ le_bytes 8 (table_offset h) @
     le_bytes 4 (hdr_ver h) @ le_bytes 4 (max_bat_size h) @ le_bytes 4 (block_size h) @
     le_bytes 4 (hdr_checksum h) @ prt_uuid h @ le_bytes 4 (prt_ts h) @ le_bytes 4 (res1 h) @
     prt_name h @ concat (map loc_bytes (loc h)) @ res2 h"

definition bytes_header :: "byte list \<Rightarrow> vhd_header" where
  "bytes_header b = \<lparr> hdr_cookie = buf_get b 0 8, hdr_data_offset = le_word (buf_get b 8 8),
     table_offset = le_word (buf_get b 16 8), hdr_ver = le_word (buf_get b 24 4),
     max_bat_size = le_word (buf_get b 28 4), block_size = le_word (buf_get b 32 4),
     hdr_checksum = le_word (buf_get b 36 4), prt_uuid = buf_get b 40 16,
     prt_ts = le_word (buf_get b 56 4), res1 = le_word (buf_get b 60 4),
     prt_name = buf_get b 64 512,
     loc = map (\<lambda>i. bytes_loc (buf_get b (576 + 24 * i) 24)) [0..<8],
     res2 = buf_get b 768 256 \<rparr>"

definition batmap_header_bytes :: "vhd_batmap_header \<Rightarrow> byte list" where
  "batmap_header_bytes b = bmh_cookie b @ le_bytes 8 (batmap_offset b) @ le_bytes 4 (batmap_size b) @
     le_bytes 4 (batmap_version b) @ le_bytes 4 (bmh_checksum b) @ [marker b] @ keyhash b @ bmh_res b"

definition bytes_batmap_header :: "byte list \<Rightarrow> vhd_batmap_header" where
  "bytes_batmap_header b = \<lparr> bmh_cookie = buf_get b 0 8, batmap_offset = le_word (buf_get b 8 8),
     batmap_size = le_word (buf_get b 16 4), batmap_version = le_word (buf_get b 20 4),
     bmh_checksum = le_word (buf_get b 24 4), marker = b ! 28, keyhash = buf_get b 29 65,
     bmh_res = buf_get b 94 418 \<rparr>"

subsection \<open>Byte order conversion\<close>

definition vhd_footer_in :: "vhd_footer \<Rightarrow> vhd_footer" where
  "vhd_footer_in f = f\<lparr>
     features := bswap_32 (features f),
     ff_version := bswap_32 (ff_version f),
     ftr_data_offset := bswap_64 (ftr_data_offset f),
     timestamp := bswap_32 (timestamp f),
     crtr_ver := bswap_32 (crtr_ver f),
     crtr_os := bswap_32 (crtr_os f),
     orig_size := bswap_64 (orig_size f),
     curr_size := bswap_64 (curr_size f),
     geometry := bswap_32 (geometry f),
     ftr_type := bswap_32 (ftr_type f),
     ftr_checksum := bswap_32 (ftr_checksum f)\<rparr>"

definition vhd_footer_out :: "vhd_footer \<Rightarrow> vhd_footer" where
  "vhd_footer_out f = f\<lparr>
     features := bswap_32 (features f),
     ff_version := bswap_32 (ff_version f),
     ftr_data_offset := bswap_64 (ftr_data_offset f),
     timestamp := bswap_32 (timestamp f),
     crtr_ver := bswap_32 (crtr_ver f),
     crtr_os := bswap_32 (crtr_os f),
     orig_size := bswap_64 (orig_size f),
     curr_size := bswap_64 (curr_size f),
     geometry := bswap_32 (geometry f),
     ftr_type := bswap_32 (ftr_type f),
     ftr_checksum := bswap_32 (ftr_checksum f)\<rparr>"

definition loc_swap :: "prt_loc \<Rightarrow> prt_loc" where
  "loc_swap l = l\<lparr>
     code := bswap_32 (code l),
     data_space := bswap_32 (data_space l),
     data_len := bswap_32 (data_len l),
     loc_data_offset := bswap_64 (loc_data_offset l)\<rparr>"

definition vhd_header_in :: "vhd_header \<Rightarrow> vhd_header" where
  "vhd_header_in h = h\<lparr>
     hdr_data_offset := bswap_64 (hdr_data_offset h),
     table_offset := bswap_64 (table_offset h),
     hdr_ver := bswap_32 (hdr_ver h),
     max_bat_size := bswap_32 (max_bat_size h),
     block_size := bswap_32 (block_size h),
     hdr_checksum := bswap_32 (hdr_checksum h),
     prt_ts := bswap_32 (prt_ts h),
     loc := map loc_swap (loc h)\<rparr>"

definition vhd_header_out :: "vhd_header \<Rightarrow> vhd_header" where
  "vhd_header_out h = h\<lparr>
     hdr_data_offset := bswap_64 (hdr_data_offset h),
     table_offset := bswap_64 (table_offset h),
     hdr_ver := bswap_32 (hdr_ver h),
     max_bat_size := bswap_32 (max_bat_size h),
     block_size := bswap_32 (block_size h),
     hdr_checksum := bswap_32 (hdr_checksum h),
     prt_ts := bswap_32 (prt_ts h),
     loc := map loc_swap (loc h)\<rparr>"

definition vhd_batmap_header_in :: "vhd_batmap_header \<Rightarrow> vhd_batmap_header" where
  "vhd_batmap_header_in b = b\<lparr>
     batmap_offset := bswap_64 (batmap_offset b),
     batmap_size := bswap_32 (batmap_size b),
     batmap_version := bswap_32 (batmap_version b),
     bmh_checksum := bswap_32 (bmh_checksum b)\<rparr>"

definition vhd_batmap_header_out :: "vhd_batmap_header \<Rightarrow> vhd_batmap_header" where
  "vhd_batmap_header_out b = b\<lparr>
     batmap_offset := bswap_64 (batmap_offset b),
     batmap_size := bswap_32 (batmap_size b),
     batmap_version := bswap_32 (batmap_version b),
     bmh_checksum := bswap_32 (bmh_checksum b),
     bmh_res := replicate 418 0\<rparr>"

text \<open>The first \<open>entries\<close> words of the block allocation table's buffer are swapped; the padding
  up to the sector boundary is left as it is.\<close>

definition vhd_bat_in :: "nat \<Rightarrow> 32 word list \<Rightarrow> 32 word list" where
  "vhd_bat_in entries bat = map bswap_32 (take entries bat) @ drop entries bat"

definition vhd_bat_out :: "nat \<Rightarrow> 32 word list \<Rightarrow> 32 word list" where
  "vhd_bat_out entries bat = map bswap_32 (take entries bat) @ drop entries bat"

subsection \<open>Checksums and validation\<close>

definition sum_bytes :: "byte list \<Rightarrow> 32 word" where
  "sum_bytes bs = sum_list (map ucast bs)"

definition vhd_checksum_footer :: "vhd_footer \<Rightarrow> 32 word" where
  "vhd_checksum_footer f = not (sum_bytes (footer_bytes (f\<lparr>ftr_checksum := 0\<rparr>)))"

definition vhd_validate_footer :: "vhd_footer \<Rightarrow> int" where
  "vhd_validate_footer f =
     (if ftr_cookie f \<noteq> HD_COOKIE \<and> ftr_cookie f \<noteq> VHD_POISON_COOKIE then - EINVAL
      else if vhd_checksum_footer f \<noteq> ftr_checksum f then
        (if hidden f \<noteq> 0 \<and> take 3 (crtr_app f) = str_bytes ''tap'' \<and>
            (crtr_ver f = VHD_VERSION 0 1 \<or> crtr_ver f = VHD_VERSION 1 1) \<and>
            vhd_checksum_footer (f\<lparr>hidden := 0\<rparr>) = ftr_checksum f
         then 0 else - EINVAL)
      else 0)"

definition vhd_checksum_header :: "vhd_header \<Rightarrow> 32 word" where
  "vhd_checksum_header h = not (sum_bytes (header_bytes (h\<lparr>hdr_checksum := 0\<rparr>)))"

definition isPowerOf2 :: "32 word \<Rightarrow> bool" where
  "isPowerOf2 value \<longleftrightarrow> value \<noteq> 0 \<and> and value (value - 1) = 0"

abbreviation (input) PLAT_CODE_NONE :: "32 word" where "PLAT_CODE_NONE \<equiv> 0x0"
abbreviation (input) PLAT_CODE_WI2R :: "32 word" where "PLAT_CODE_WI2R \<equiv> 0x57693272"
abbreviation (input) PLAT_CODE_WI2K :: "32 word" where "PLAT_CODE_WI2K \<equiv> 0x5769326B"
abbreviation (input) PLAT_CODE_W2RU :: "32 word" where "PLAT_CODE_W2RU \<equiv> 0x57327275"
abbreviation (input) PLAT_CODE_W2KU :: "32 word" where "PLAT_CODE_W2KU \<equiv> 0x57326B75"
abbreviation (input) PLAT_CODE_MAC :: "32 word" where "PLAT_CODE_MAC \<equiv> 0x4D616320"
abbreviation (input) PLAT_CODE_MACX :: "32 word" where "PLAT_CODE_MACX \<equiv> 0x4D616358"

definition vhd_validate_platform_code :: "32 word \<Rightarrow> int" where
  "vhd_validate_platform_code c =
     (if c \<in> {PLAT_CODE_NONE, PLAT_CODE_WI2R, PLAT_CODE_WI2K, PLAT_CODE_W2RU, PLAT_CODE_W2KU,
              PLAT_CODE_MAC, PLAT_CODE_MACX}
      then 0 else - EINVAL)"

definition vhd_validate_header :: "vhd_header \<Rightarrow> int" where
  "vhd_validate_header h =
     (if hdr_cookie h \<noteq> DD_COOKIE then - EINVAL
      else if hdr_ver h \<noteq> 0x00010000 then - EINVAL
      else if hdr_data_offset h \<noteq> 0xFFFFFFFFFFFFFFFF then - EINVAL
      else if unat (block_size h) > VHD_BLOCK_SIZE \<or> \<not> isPowerOf2 (block_size h) then - EINVAL
      else if \<exists>l \<in> set (loc h). vhd_validate_platform_code (code l) \<noteq> 0 then - EINVAL
      else if vhd_checksum_header h \<noteq> hdr_checksum h then - EINVAL
      else 0)"

text \<open>A batmap: its header and, once read, its bits.  Before version 1.2 the checksum summed
  signed characters.\<close>

record vhd_batmap =
  bm_header :: vhd_batmap_header
  bm_map :: "byte list option"

definition batmap_map_size :: "vhd_footer \<Rightarrow> nat" where
  "batmap_map_size f = vhd_sectors_to_bytes (secs_round_up_no_zero (unat (curr_size f) div 2 ^ 24))"

definition vhd_checksum_batmap :: "vhd_footer \<Rightarrow> vhd_batmap \<Rightarrow> 32 word" where
  "vhd_checksum_batmap f b =
     (let blob = take (batmap_map_size f) (case bm_map b of None \<Rightarrow> [] | Some m \<Rightarrow> m) in
      not (sum_list (map (\<lambda>c. if batmap_version (bm_header b) = VHD_VERSION 1 1
                              then (scast c :: 32 word) else ucast c) blob)))"

definition vhd_validate_batmap_header :: "vhd_batmap_header \<Rightarrow> int" where
  "vhd_validate_batmap_header b =
     (if bmh_cookie b \<noteq> VHD_BATMAP_COOKIE then - EINVAL
      else if batmap_version b > VHD_VERSION 1 2 then - EINVAL else 0)"

definition vhd_validate_batmap :: "vhd_footer \<Rightarrow> vhd_batmap \<Rightarrow> int" where
  "vhd_validate_batmap f b =
     (if bm_map b = None then - EINVAL
      else if vhd_checksum_batmap f b \<noteq> bmh_checksum (bm_header b) then - EINVAL else 0)"

subsection \<open>Geometry, time, locator sizes\<close>

definition GEOM_ENCODE :: "nat \<Rightarrow> nat \<Rightarrow> nat \<Rightarrow> 32 word" where
  "GEOM_ENCODE c h s = or (or (push_bit 16 (of_nat c)) (push_bit 8 (of_nat h))) (of_nat s)"

definition GEOM_GET_CYLS :: "32 word \<Rightarrow> 32 word" where
  "GEOM_GET_CYLS g = and (drop_bit 16 g) 0xffff"

definition GEOM_GET_HEADS :: "32 word \<Rightarrow> 32 word" where
  "GEOM_GET_HEADS g = and (drop_bit 8 g) 0xff"

definition GEOM_GET_SPT :: "32 word \<Rightarrow> 32 word" where
  "GEOM_GET_SPT g = and g 0xff"

definition geom_triple :: "32 word \<Rightarrow> nat \<times> nat \<times> nat" where
  "geom_triple g = (unat (GEOM_GET_CYLS g), unat (GEOM_GET_HEADS g), unat (GEOM_GET_SPT g))"

text \<open>The triple (cylinders, heads, sectors per track) that \<^verbatim>\<open>vhd_chs\<close> encodes.\<close>

definition chs_triple :: "nat \<Rightarrow> nat \<times> nat \<times> nat" where
  "chs_triple bytes =
     (let secs = min (secs_round_up_no_zero bytes) (65535 * 16 * 255) in
      if secs \<ge> 65535 * 16 * 63 then (secs div 255 div 16, 16, 255)
      else
       (let spt = 17; cth = secs div spt; heads = max 4 ((cth + 1023) div 1024);
            (spt, cth, heads) = (if cth \<ge> heads * 1024 \<or> heads > 16
                                 then (31, secs div 31, 16) else (spt, cth, heads));
            (spt, cth, heads) = (if cth \<ge> heads * 1024
                                 then (63, secs div 63, 16) else (spt, cth, heads))
        in (cth div heads, heads, spt)))"

definition vhd_chs :: "nat \<Rightarrow> 32 word" where
  "vhd_chs bytes = (case chs_triple bytes of (cylinders, heads, spt) \<Rightarrow> GEOM_ENCODE cylinders heads spt)"

definition VHD_EPOCH_START :: int where "VHD_EPOCH_START = 946684800"

definition vhd_time :: "int \<Rightarrow> 32 word" where
  "vhd_time t = of_int (t - VHD_EPOCH_START)"

definition vhd_parent_locator_size :: "prt_loc \<Rightarrow> nat" where
  "vhd_parent_locator_size l =
     (if unat (data_space l) < 512 then vhd_sectors_to_bytes (unat (data_space l))
      else if unat (data_space l) mod 512 = 0 then unat (data_space l) else 0)"

subsection \<open>The interface of an on-disk structure\<close>

text \<open>What the readers and writers of metadata rely on: a structure has a fixed-width memory
  image that determines it, and converting it to disk order and back yields it again, up to the
  fields the writer resets (\<open>norm\<close>).  A sealed structure also carries a checksum that does
  not depend on the checksum field nor on the byte order.\<close>

locale wire_struct =
  fixes enc :: "'r \<Rightarrow> byte list"
    and dec :: "byte list \<Rightarrow> 'r"
    and sz :: nat
    and ok :: "'r \<Rightarrow> bool"
    and out :: "'r \<Rightarrow> 'r"
    and inn :: "'r \<Rightarrow> 'r"
    and norm :: "'r \<Rightarrow> 'r"
  assumes length_enc: "ok r \<Longrightarrow> length (enc r) = sz"
    and dec_enc: "ok r \<Longrightarrow> dec (enc r) = r"
    and enc_dec: "length b = sz \<Longrightarrow> enc (dec b) = b"
    and ok_dec: "length b = sz \<Longrightarrow> ok (dec b)"
    and ok_out: "ok r \<Longrightarrow> ok (out r)"
    and ok_inn: "ok r \<Longrightarrow> ok (inn r)"
    and inn_out: "inn (out r) = norm r"
begin

lemma load_store: "ok r \<Longrightarrow> inn (dec (enc (out r))) = norm r"
  by (simp add: dec_enc ok_out inn_out)

lemma length_store: "ok r \<Longrightarrow> length (enc (out r)) = sz"
  by (simp add: length_enc ok_out)

lemma ok_load: "length b = sz \<Longrightarrow> ok (inn (dec b))"
  by (simp add: ok_dec ok_inn)

lemma enc_inj: "ok r \<Longrightarrow> ok r' \<Longrightarrow> enc r = enc r' \<Longrightarrow> r = r'"
  by (metis dec_enc)

end

locale sealed_struct = wire_struct +
  fixes sum :: "'r \<Rightarrow> 32 word"
    and get_sum :: "'r \<Rightarrow> 32 word"
    and put_sum :: "32 word \<Rightarrow> 'r \<Rightarrow> 'r"
  assumes sum_put: "sum (put_sum c r) = sum r"
    and get_put: "get_sum (put_sum c r) = c"
    and ok_put: "ok r \<Longrightarrow> ok (put_sum c r)"
    and sum_out: "sum (out r) = sum r"
begin

lemma sealed: "sum (put_sum (sum r) r) = get_sum (put_sum (sum r) r)"
  by (simp add: sum_put get_put)

lemma load_store_sealed:
  "ok r \<Longrightarrow> inn (dec (enc (out (put_sum (sum r) r)))) = norm (put_sum (sum r) r)"
  by (simp add: load_store ok_put)

end

subsection \<open>Images and conversions satisfy the interface\<close>

lemma le_word_le_bytes_4 [simp]: "le_word (le_bytes 4 (w :: 32 word)) = w"
  by (simp add: le_word_le_bytes)

lemma le_word_le_bytes_8 [simp]: "le_word (le_bytes 8 (w :: 64 word)) = w"
  by (simp add: le_word_le_bytes)

lemma le_bytes_le_word_4 [simp]: "length bs = 4 \<Longrightarrow> le_bytes 4 (le_word bs :: 32 word) = bs"
  using le_bytes_le_word [of bs, where ?'a = 32] by simp

lemma le_bytes_le_word_8 [simp]: "length bs = 8 \<Longrightarrow> le_bytes 8 (le_word bs :: 64 word) = bs"
  using le_bytes_le_word [of bs, where ?'a = 64] by simp

lemma length_buf_get': "length (buf_get b i n) = min n (length b - i)"
  by (simp add: buf_get_def)

lemma buf_get_hd: "length xs = n \<Longrightarrow> buf_get (xs @ ys) 0 n = xs"
  by (simp add: buf_get_def)

lemma buf_get_skip: "length xs = k \<Longrightarrow> k \<le> i \<Longrightarrow> buf_get (xs @ ys) i n = buf_get ys (i - k) n"
  by (simp add: buf_get_def)

lemma buf_get_join: "buf_get b i n @ buf_get b (i + n) m = buf_get b i (n + m)"
  by (simp add: buf_get_def take_add drop_drop add.commute [of n i])

lemma buf_get_join': "j = i + n \<Longrightarrow> buf_get b i n @ buf_get b j m = buf_get b i (n + m)"
  using buf_get_join by simp

lemma buf_get_join_append: "j = i + n \<Longrightarrow> buf_get b i n @ buf_get b j m @ c = buf_get b i (n + m) @ c"
  using buf_get_join [of b i n m] by simp

lemma buf_get_one: "i < length b \<Longrightarrow> [b ! i] = buf_get b i 1"
  by (simp add: buf_get_def take_Suc_conv_app_nth hd_drop_conv_nth take_Suc)

lemma length_footer_bytes: "footer_wf f \<Longrightarrow> length (footer_bytes f) = 512"
  by (simp add: footer_bytes_def footer_wf_def)

lemma buf_get_Cons_Suc: "buf_get (x # xs) (Suc i) n = buf_get xs i n"
  by (simp add: buf_get_def)

lemma buf_get_Cons_numeral: "buf_get (x # xs) (numeral k) n = buf_get xs (pred_numeral k) n"
  by (simp add: numeral_eq_Suc buf_get_Cons_Suc)

lemmas image_simps = buf_get_hd buf_get_skip buf_get_self nth_append buf_get_Cons_Suc buf_get_Cons_numeral

lemma bytes_footer_footer_bytes:
  assumes "footer_wf f"
  shows "bytes_footer (footer_bytes f) = f"
proof -
  have "length (ftr_cookie f) = 8" "length (crtr_app f) = 4" "length (uuid f) = 16" "length (reserved f) = 426"
    using assms by (simp_all add: footer_wf_def)
  then show ?thesis
    by (simp add: bytes_footer_def footer_bytes_def image_simps)
qed

lemma footer_bytes_bytes_footer:
  assumes "length b = 512"
  shows "footer_bytes (bytes_footer b) = b"
proof -
  have "[b ! 84, b ! 85] = buf_get b 84 1 @ buf_get b 85 1"
    using assms buf_get_one [of 84 b] buf_get_one [of 85 b] by simp
  then have "footer_bytes (bytes_footer b) = buf_get b 0 512"
    using assms by (simp add: footer_bytes_def bytes_footer_def length_buf_get' buf_get_join'
        buf_get_join_append)
  then show ?thesis using assms by (simp add: buf_get_self)
qed

lemma footer_wf_bytes_footer: "length b = 512 \<Longrightarrow> footer_wf (bytes_footer b)"
  by (simp add: footer_wf_def bytes_footer_def length_buf_get')

lemma length_loc_bytes [simp]: "length (loc_bytes l) = 24"
  by (simp add: loc_bytes_def)

lemma bytes_loc_loc_bytes [simp]: "bytes_loc (loc_bytes l) = l"
  by (simp add: bytes_loc_def loc_bytes_def image_simps)

lemma loc_bytes_bytes_loc:
  assumes "length b = 24"
  shows "loc_bytes (bytes_loc b) = b"
proof -
  have "loc_bytes (bytes_loc b) = buf_get b 0 24"
    using assms by (simp add: loc_bytes_def bytes_loc_def length_buf_get' buf_get_join'
        buf_get_join_append)
  then show ?thesis using assms by (simp add: buf_get_self)
qed

lemma upt_8: "[0..<8] = [0, 1, 2, 3, 4, 5, 6, 7 :: nat]"
  by (simp add: upt_rec)

lemma length_concat_loc_bytes [simp]: "length (concat (map loc_bytes ls)) = 24 * length ls"
  by (induction ls) simp_all

lemma buf_get_concat_loc:
  "i < length ls \<Longrightarrow> buf_get (concat (map loc_bytes ls)) (24 * i) 24 = loc_bytes (ls ! i)"
proof (induction ls arbitrary: i)
  case (Cons l ls)
  then show ?case
  proof (cases i)
    case (Suc k)
    with Cons show ?thesis by (simp add: buf_get_skip [where k = 24])
  qed (simp add: buf_get_hd)
qed simp

lemma length_header_bytes: "header_wf h \<Longrightarrow> length (header_bytes h) = 1024"
  by (simp add: header_bytes_def header_wf_def)

lemma bytes_header_header_bytes:
  assumes "header_wf h"
  shows "bytes_header (header_bytes h) = h"
proof -
  have len: "length (hdr_cookie h) = 8" "length (prt_uuid h) = 16" "length (prt_name h) = 512"
    "length (loc h) = 8" "length (res2 h) = 256"
    using assms by (simp_all add: header_wf_def)
  have "buf_get (header_bytes h) (576 + 24 * i) 24 = loc_bytes (loc h ! i)" if "i < 8" for i
    using that len
    by (simp add: header_bytes_def buf_get_skip buf_get_append1 buf_get_concat_loc)
  then have "map (\<lambda>i. bytes_loc (buf_get (header_bytes h) (576 + 24 * i) 24)) [0..<8] = loc h"
    using len by (intro nth_equalityI) simp_all
  with len show ?thesis
    by (simp add: bytes_header_def) (simp add: header_bytes_def image_simps)
qed

lemma header_bytes_bytes_header:
  assumes "length b = 1024"
  shows "header_bytes (bytes_header b) = b"
proof -
  have "concat (map loc_bytes (map (\<lambda>i. bytes_loc (buf_get b (576 + 24 * i) 24)) [0..<8])) = buf_get b 576 192"
    using assms by (simp add: upt_8 loc_bytes_bytes_loc length_buf_get' buf_get_join' buf_get_join_append)
  then have "header_bytes (bytes_header b) = buf_get b 0 1024"
    using assms by (simp add: header_bytes_def bytes_header_def length_buf_get' buf_get_join'
        buf_get_join_append)
  then show ?thesis using assms by (simp add: buf_get_self)
qed

lemma header_wf_bytes_header: "length b = 1024 \<Longrightarrow> header_wf (bytes_header b)"
  by (simp add: header_wf_def bytes_header_def length_buf_get')

lemma length_batmap_header_bytes: "batmap_header_wf h \<Longrightarrow> length (batmap_header_bytes h) = 512"
  by (simp add: batmap_header_bytes_def batmap_header_wf_def)

lemma bytes_batmap_header_bytes:
  assumes "batmap_header_wf h"
  shows "bytes_batmap_header (batmap_header_bytes h) = h"
proof -
  have "length (bmh_cookie h) = 8" "length (keyhash h) = 65" "length (bmh_res h) = 418"
    using assms by (simp_all add: batmap_header_wf_def)
  then show ?thesis
    by (simp add: bytes_batmap_header_def batmap_header_bytes_def image_simps)
qed

lemma batmap_header_bytes_bytes:
  assumes "length b = 512"
  shows "batmap_header_bytes (bytes_batmap_header b) = b"
proof -
  have "[b ! 28] = buf_get b 28 1"
    using assms by (simp add: buf_get_one)
  then have "batmap_header_bytes (bytes_batmap_header b) = buf_get b 0 512"
    using assms by (simp add: batmap_header_bytes_def bytes_batmap_header_def length_buf_get'
        buf_get_join' buf_get_join_append)
  then show ?thesis using assms by (simp add: buf_get_self)
qed

lemma batmap_header_wf_bytes: "length b = 512 \<Longrightarrow> batmap_header_wf (bytes_batmap_header b)"
  by (simp add: batmap_header_wf_def bytes_batmap_header_def length_buf_get')

lemma sum_bytes_append [simp]: "sum_bytes (xs @ ys) = sum_bytes xs + sum_bytes ys"
  by (simp add: sum_bytes_def)

lemma sum_bytes_rev [simp]: "sum_bytes (rev xs) = sum_bytes xs"
  by (simp add: sum_bytes_def rev_map [symmetric] sum_list_rev)

lemma sum_bytes_swap_32 [simp]: "sum_bytes (le_bytes 4 (bswap_32 w)) = sum_bytes (le_bytes 4 w)"
  by (simp add: le_bytes_bswap_32)

lemma sum_bytes_swap_64 [simp]: "sum_bytes (le_bytes 8 (bswap_64 w)) = sum_bytes (le_bytes 8 w)"
  by (simp add: le_bytes_bswap_64)

lemma sum_bytes_locs [simp]: "sum_bytes (concat (map loc_bytes (map loc_swap ls))) = sum_bytes (concat (map loc_bytes ls))"
  by (induction ls) (simp_all add: loc_bytes_def loc_swap_def)

lemma loc_swap_loc_swap [simp]: "loc_swap (loc_swap l) = l"
  by (simp add: loc_swap_def)

lemma vhd_checksum_footer_put [simp]: "vhd_checksum_footer (f\<lparr>ftr_checksum := c\<rparr>) = vhd_checksum_footer f"
  by (simp add: vhd_checksum_footer_def)

lemma vhd_checksum_header_put [simp]: "vhd_checksum_header (h\<lparr>hdr_checksum := c\<rparr>) = vhd_checksum_header h"
  by (simp add: vhd_checksum_header_def)

lemma vhd_checksum_footer_out: "vhd_checksum_footer (vhd_footer_out f) = vhd_checksum_footer f"
  by (simp add: vhd_checksum_footer_def vhd_footer_out_def footer_bytes_def)

lemma vhd_checksum_header_out: "vhd_checksum_header (vhd_header_out h) = vhd_checksum_header h"
proof -
  have "sum_bytes (concat (map (loc_bytes \<circ> loc_swap) (loc h))) = sum_bytes (concat (map loc_bytes (loc h)))"
    using sum_bytes_locs [of "loc h"] by simp
  then show ?thesis
    by (simp add: vhd_checksum_header_def vhd_header_out_def header_bytes_def)
qed

interpretation ftr: sealed_struct footer_bytes bytes_footer 512 footer_wf vhd_footer_out vhd_footer_in
  "\<lambda>f. f" vhd_checksum_footer ftr_checksum "\<lambda>c f. f\<lparr>ftr_checksum := c\<rparr>"
proof (unfold_locales, goal_cases)
  case (7 r)
  then show ?case by (simp add: vhd_footer_in_def vhd_footer_out_def)
qed (simp_all add: length_footer_bytes bytes_footer_footer_bytes footer_bytes_bytes_footer
    footer_wf_bytes_footer vhd_checksum_footer_out,
    simp_all add: footer_wf_def vhd_footer_in_def vhd_footer_out_def)

interpretation hdr: sealed_struct header_bytes bytes_header 1024 header_wf vhd_header_out vhd_header_in
  "\<lambda>h. h" vhd_checksum_header hdr_checksum "\<lambda>c h. h\<lparr>hdr_checksum := c\<rparr>"
proof (unfold_locales, goal_cases)
  case (7 r)
  then show ?case by (simp add: vhd_header_in_def vhd_header_out_def comp_def)
qed (simp_all add: length_header_bytes bytes_header_header_bytes header_bytes_bytes_header
    header_wf_bytes_header vhd_checksum_header_out,
    simp_all add: header_wf_def vhd_header_in_def vhd_header_out_def)

interpretation bmh: wire_struct batmap_header_bytes bytes_batmap_header 512 batmap_header_wf
  vhd_batmap_header_out vhd_batmap_header_in "\<lambda>b. b\<lparr>bmh_res := replicate 418 0\<rparr>"
proof (unfold_locales, goal_cases)
  case (7 r)
  then show ?case by (simp add: vhd_batmap_header_in_def vhd_batmap_header_out_def)
qed (simp_all add: length_batmap_header_bytes bytes_batmap_header_bytes batmap_header_bytes_bytes
    batmap_header_wf_bytes,
    simp_all add: batmap_header_wf_def vhd_batmap_header_in_def vhd_batmap_header_out_def)

subsection \<open>What the checksum detects\<close>

lemma sum_bytes_update:
  assumes "k < length bs"
  shows "sum_bytes (bs[k := b]) = sum_bytes bs - ucast (bs ! k) + ucast b"
proof -
  have "sum_bytes bs = sum_bytes (take k bs) + ucast (bs ! k) + sum_bytes (drop (Suc k) bs)"
    using arg_cong [OF id_take_nth_drop [OF assms], of sum_bytes]
    by (simp add: sum_bytes_def algebra_simps)
  moreover have "sum_bytes (bs[k := b]) = sum_bytes (take k bs) + ucast b + sum_bytes (drop (Suc k) bs)"
    using assms by (simp add: upd_conv_take_nth_drop sum_bytes_def algebra_simps)
  ultimately show ?thesis by (simp add: algebra_simps)
qed

lemma ucast_byte_inj: "(ucast (a :: byte) :: 32 word) = ucast b \<longleftrightarrow> a = b"
proof
  assume eq: "(ucast a :: 32 word) = ucast b"
  show "a = b"
  proof (rule bit_word_eqI)
    fix n assume "n < LENGTH(8)"
    then show "bit a n = bit b n"
      using arg_cong [OF eq, of "\<lambda>w. bit w n"] by (simp add: bit_simps)
  qed
qed simp

lemma sum_bytes_update_neq:
  assumes "k < length bs" "b \<noteq> bs ! k"
  shows "sum_bytes (bs[k := b]) \<noteq> sum_bytes bs"
  using assms by (simp add: sum_bytes_update ucast_byte_inj)

lemma sum_footer_unsealed:
  "sum_bytes (footer_bytes (f\<lparr>ftr_checksum := 0\<rparr>)) = sum_bytes (footer_bytes f) - sum_bytes (le_bytes 4 (ftr_checksum f))"
proof -
  have "sum_bytes (le_bytes 4 (0 :: 32 word)) = 0"
    by (simp add: sum_bytes_def numeral_eq_Suc)
  then show ?thesis by (simp add: footer_bytes_def algebra_simps)
qed

lemma buf_get_update: "k < i \<or> i + n \<le> k \<Longrightarrow> buf_get (b[k := x]) i n = buf_get b i n"
  by (auto simp: buf_get_def drop_update_cancel take_update_cancel drop_update_swap)

lemma checksum_footer_one_byte:
  assumes "footer_wf f" "footer_wf g" "footer_bytes g = (footer_bytes f)[k := b]"
    and "k < 512" "k < 64 \<or> 68 \<le> k" "b \<noteq> footer_bytes f ! k"
  shows "ftr_checksum g = ftr_checksum f" and "vhd_checksum_footer g \<noteq> vhd_checksum_footer f"
proof -
  have cs: "ftr_checksum x = le_word (buf_get (footer_bytes x) 64 4)" if "footer_wf x" for x
    using bytes_footer_footer_bytes [OF that] by (metis bytes_footer_def vhd_footer.select_convs(13))
  have "buf_get (footer_bytes g) 64 4 = buf_get (footer_bytes f) 64 4"
    using assms(3,5) by (simp add: buf_get_update)
  then show eq: "ftr_checksum g = ftr_checksum f"
    using cs [OF assms(1)] cs [OF assms(2)] by simp
  have "sum_bytes (footer_bytes g) \<noteq> sum_bytes (footer_bytes f)"
    using assms by (simp add: sum_bytes_update_neq length_footer_bytes)
  then show "vhd_checksum_footer g \<noteq> vhd_checksum_footer f"
    by (simp add: vhd_checksum_footer_def sum_footer_unsealed eq)
qed

subsection \<open>Geometry\<close>

lemma chs_floor:
  fixes n s h :: nat
  assumes "0 < s" "0 < h"
  shows "(n div s div h) * h * s \<le> n" and "n < (n div s div h + 1) * h * s"
proof -
  have eq: "n div s div h = n div (h * s)"
    by (simp add: div_mult2_eq [symmetric] mult.commute)
  show "(n div s div h) * h * s \<le> n"
    unfolding eq mult.assoc by (rule div_times_less_eq_dividend)
  show "n < (n div s div h + 1) * h * s"
    unfolding eq mult.assoc using assms
    by (metis Suc_eq_plus1 dividend_less_times_div mult.commute mult_Suc_right nat_0_less_mult_iff)
qed

lemma chs_triple_cases:
  fixes bytes
  defines "n \<equiv> min (secs_round_up_no_zero bytes) 267382800"
  defines "h \<equiv> max 4 ((n div 17 + 1023) div 1024)"
  shows "66059280 \<le> n \<Longrightarrow> chs_triple bytes = (n div 255 div 16, 16, 255)"
    and "n < 66059280 \<Longrightarrow> n div 17 < h * 1024 \<Longrightarrow> h \<le> 16 \<Longrightarrow> chs_triple bytes = (n div 17 div h, h, 17)"
    and "n < 66059280 \<Longrightarrow> \<not> (n div 17 < h * 1024 \<and> h \<le> 16) \<Longrightarrow> n div 31 < 16384 \<Longrightarrow>
           chs_triple bytes = (n div 31 div 16, 16, 31)"
    and "n < 66059280 \<Longrightarrow> \<not> (n div 17 < h * 1024 \<and> h \<le> 16) \<Longrightarrow> 16384 \<le> n div 31 \<Longrightarrow>
           chs_triple bytes = (n div 63 div 16, 16, 63)"
proof -
  have eq: "chs_triple bytes =
     (if 66059280 \<le> n then (n div 255 div 16, 16, 255)
      else case (if h * 1024 \<le> n div 17 \<or> 16 < h then (31, n div 31, 16) else (17, n div 17, h)) of
        (spt, cth, heads) \<Rightarrow>
          (case (if heads * 1024 \<le> cth then (63, n div 63, 16) else (spt, cth, heads)) of
             (spt, cth, heads) \<Rightarrow> (cth div heads, heads, spt)))"
    unfolding chs_triple_def Let_def n_def h_def by simp
  show "66059280 \<le> n \<Longrightarrow> chs_triple bytes = (n div 255 div 16, 16, 255)"
    and "n < 66059280 \<Longrightarrow> n div 17 < h * 1024 \<Longrightarrow> h \<le> 16 \<Longrightarrow> chs_triple bytes = (n div 17 div h, h, 17)"
    and "n < 66059280 \<Longrightarrow> \<not> (n div 17 < h * 1024 \<and> h \<le> 16) \<Longrightarrow> n div 31 < 16384 \<Longrightarrow>
           chs_triple bytes = (n div 31 div 16, 16, 31)"
    and "n < 66059280 \<Longrightarrow> \<not> (n div 17 < h * 1024 \<and> h \<le> 16) \<Longrightarrow> 16384 \<le> n div 31 \<Longrightarrow>
           chs_triple bytes = (n div 63 div 16, 16, 63)"
    unfolding eq by auto
qed

lemma chs_triple_shape:
  assumes "chs_triple bytes = (c, h, s)"
  defines "n \<equiv> min (secs_round_up_no_zero bytes) 267382800"
  shows "c = n div s div h \<and> 4 \<le> h \<and> h \<le> 16 \<and> s \<in> {17, 31, 63, 255} \<and> c \<le> 65535"
proof -
  define g where "g = max 4 ((n div 17 + 1023) div 1024)"
  note cases = chs_triple_cases [of bytes, folded n_def, folded g_def]
  have n: "n \<le> 267382800" by (simp add: n_def)
  have g: "4 \<le> g" by (simp add: g_def)
  consider "66059280 \<le> n" | "n < 66059280" "n div 17 < g * 1024" "g \<le> 16"
    | "n < 66059280" "\<not> (n div 17 < g * 1024 \<and> g \<le> 16)" "n div 31 < 16384"
    | "n < 66059280" "\<not> (n div 17 < g * 1024 \<and> g \<le> 16)" "16384 \<le> n div 31"
    by linarith
  then show ?thesis
  proof cases
    case 1
    with assms(1) cases(1) n show ?thesis by auto
  next
    case 2
    then have "n div 17 div g < 1024" using g by (simp add: div_less_iff_less_mult mult.commute)
    with 2 assms(1) cases(2) g show ?thesis by auto
  next
    case 3
    with assms(1) cases(3) show ?thesis by auto
  next
    case 4
    with assms(1) cases(4) show ?thesis by auto
  qed
qed

lemma geom_decode:
  assumes "c < 65536" "h < 256" "s < 256"
  shows "GEOM_GET_CYLS (GEOM_ENCODE c h s) = of_nat c"
    and "GEOM_GET_HEADS (GEOM_ENCODE c h s) = of_nat h"
    and "GEOM_GET_SPT (GEOM_ENCODE c h s) = of_nat s"
proof -
  have big: "\<not> bit x k" if "x < 2 ^ m" "m \<le> k" for x m k :: nat
    using that by (metis bit_take_bit_iff linorder_not_le take_bit_nat_eq_self)
  have m16: "(0xffff :: 32 word) = mask 16" and m8: "(0xff :: 32 word) = mask 8"
    by (simp_all add: mask_eq_exp_minus_1)
  have hs: "bit h k \<Longrightarrow> k < 8" "bit s k \<Longrightarrow> k < 8" for k
    using big [of h 8 k] big [of s 8 k] assms by (auto simp: not_less [symmetric])
  have c: "bit c k \<Longrightarrow> k < 16" for k
    using big [of c 16 k] assms by (auto simp: not_less [symmetric])
  note defs = GEOM_ENCODE_def m16 m8 bit_and_iff bit_or_iff bit_mask_iff bit_drop_bit_eq
    bit_push_bit_iff bit_of_nat_iff possible_bit_word o_def
  show "GEOM_GET_CYLS (GEOM_ENCODE c h s) = of_nat c"
    by (rule bit_word_eqI) (auto simp: GEOM_GET_CYLS_def defs dest: hs c)
  show "GEOM_GET_HEADS (GEOM_ENCODE c h s) = of_nat h"
    by (rule bit_word_eqI) (auto simp: GEOM_GET_HEADS_def defs dest: hs c)
  show "GEOM_GET_SPT (GEOM_ENCODE c h s) = of_nat s"
    by (rule bit_word_eqI) (auto simp: GEOM_GET_SPT_def defs dest: hs c)
qed

subsection \<open>Properties\<close>

lemma vhd_checksum_footer_in: "vhd_checksum_footer (vhd_footer_in f) = vhd_checksum_footer f"
  using vhd_checksum_footer_out [of f] by (simp add: vhd_footer_in_def vhd_footer_out_def)

lemma bswap_32_inj: "bswap_32 a = bswap_32 b \<longleftrightarrow> a = b"
  by (metis bswap_32_bswap_32)

lemma buf_get_update_neq:
  "i \<le> k \<Longrightarrow> k < i + n \<Longrightarrow> k < length b \<Longrightarrow> x \<noteq> b ! k \<Longrightarrow> buf_get (b[k := x]) i n \<noteq> buf_get b i n"
proof
  assume a: "i \<le> k" "k < i + n" "k < length b" "x \<noteq> b ! k" "buf_get (b[k := x]) i n = buf_get b i n"
  from arg_cong [OF a(5), of "\<lambda>l. l ! (k - i)"] a(1-4) show False
    by (simp add: buf_get_def)
qed

lemma checksum_bytes_update:
  assumes "length b = 512" "k < 512" "x \<noteq> b ! k"
  shows "bswap_32 (ftr_checksum (bytes_footer (b[k := x]))) \<noteq> vhd_checksum_footer (bytes_footer (b[k := x])) \<or>
         bswap_32 (ftr_checksum (bytes_footer b)) \<noteq> vhd_checksum_footer (bytes_footer b)"
proof (cases "k < 64 \<or> 68 \<le> k")
  case True
  have l: "length (b[k := x]) = 512" using assms by simp
  from checksum_footer_one_byte [of "bytes_footer b" "bytes_footer (b[k := x])" k x] True assms
  show ?thesis
    by (auto simp: footer_wf_bytes_footer footer_bytes_bytes_footer [OF l] footer_bytes_bytes_footer [OF assms(1)])
next
  case False
  then have "buf_get (b[k := x]) 64 4 \<noteq> buf_get b 64 4"
    using assms by (intro buf_get_update_neq) auto
  moreover have "length (buf_get (b[k := x]) 64 4) = 4" "length (buf_get b 64 4) = 4"
    using assms by simp_all
  ultimately have "ftr_checksum (bytes_footer (b[k := x])) \<noteq> ftr_checksum (bytes_footer b)"
    by (metis bytes_footer_def le_bytes_le_word_4 vhd_footer.select_convs(13))
  moreover have "vhd_checksum_footer (bytes_footer (b[k := x])) = vhd_checksum_footer (bytes_footer b)"
    using False assms by (simp add: vhd_checksum_footer_def bytes_footer_def buf_get_update)
  ultimately show ?thesis by (metis bswap_32_inj)
qed


lemma validate_footer_sealed:
  "ftr_cookie f = HD_COOKIE \<Longrightarrow> vhd_validate_footer (f\<lparr>ftr_checksum := vhd_checksum_footer f\<rparr>) = 0"
  by (simp add: vhd_validate_footer_def)

lemma validate_header_sealed:
  "vhd_validate_header (h\<lparr>hdr_checksum := vhd_checksum_header h\<rparr>) = 0 \<longleftrightarrow>
     hdr_cookie h = DD_COOKIE \<and> hdr_ver h = 0x00010000 \<and> hdr_data_offset h = 0xFFFFFFFFFFFFFFFF \<and>
     unat (block_size h) \<le> VHD_BLOCK_SIZE \<and> isPowerOf2 (block_size h) \<and>
     (\<forall>l\<in>set (loc h). vhd_validate_platform_code (code l) = 0)"
  by (auto simp: vhd_validate_header_def)

definition sample_footer :: vhd_footer where
  "sample_footer = (bytes_footer (replicate 512 0))
     \<lparr>ftr_cookie := HD_COOKIE, features := 2, ff_version := 0x00010000, ftr_data_offset := 512,
      crtr_app := str_bytes ''tap'' @ [0], crtr_ver := VHD_VERSION 1 3, curr_size := 0x600000,
      orig_size := 0x600000, ftr_type := HD_TYPE_DYNAMIC\<rparr>"

lemma sample_footer_wf: "footer_wf sample_footer"
  using footer_wf_bytes_footer [of "replicate 512 0"]
  by (simp add: sample_footer_def footer_wf_def HD_COOKIE_def str_bytes_def)



end
