(* ===== verification/Vhd_Os.thy ===== *)
theory Vhd_Os
  imports Vhd_Format
begin

text \<open>
  Files, system calls and the transfer layer of \<^verbatim>\<open>vhd/lib/libvhd.c\<close> (\<^verbatim>\<open>vhd_seek\<close>,
  \<^verbatim>\<open>vhd_read\<close>, \<^verbatim>\<open>vhd_write\<close>, \<^verbatim>\<open>vhd_pread\<close>, \<^verbatim>\<open>vhd_pwrite\<close> over
  \<^verbatim>\<open>vhd_atomic_pio\<close>).  The state is the VHD context together with the operating system's
  files.  What the kernel may do with a call is driven by the list \<open>faults\<close>: each
  allocation, transfer or truncation takes the next entry, which lets it succeed, transfer fewer
  bytes than asked for, or fail; an empty list means that every further call succeeds in full.
  Theorems quantify over all such lists.  The flag \<open>panicked\<close> records a failed \<^verbatim>\<open>ASSERT\<close> or an
  access outside an array; once it is set no system call of the model has any effect.
\<close>

subsection \<open>Files\<close>

record vfile =
  fdata :: "nat \<Rightarrow> byte"
  fsize :: nat
  fblk :: bool

text \<open>Bytes beyond the end of a file read as zero.\<close>

definition fbyte :: "vfile \<Rightarrow> nat \<Rightarrow> byte" where
  "fbyte f i = (if i < fsize f then fdata f i else 0)"

definition fread :: "vfile \<Rightarrow> nat \<Rightarrow> nat \<Rightarrow> byte list" where
  "fread f off n = map (fbyte f) [off..<off + n]"

definition fwrite :: "vfile \<Rightarrow> nat \<Rightarrow> byte list \<Rightarrow> vfile" where
  "fwrite f off bs =
     (if bs = [] then f
      else f\<lparr>fdata := (\<lambda>i. if off \<le> i \<and> i < off + length bs then bs ! (i - off) else fbyte f i),
             fsize := max (fsize f) (off + length bs)\<rparr>)"

definition ftrunc :: "vfile \<Rightarrow> nat \<Rightarrow> vfile" where
  "ftrunc f n = f\<lparr>fdata := (\<lambda>i. fbyte f i), fsize := n\<rparr>"

text \<open>A block device consists of whole sectors and \<^verbatim>\<open>stat\<close> reports its size as zero.\<close>

definition dev_end :: "vfile \<Rightarrow> nat" where
  "dev_end f = (if fblk f then fsize f - fsize f mod 512 else fsize f)"

definition st_size :: "vfile \<Rightarrow> nat" where
  "st_size f = (if fblk f then 0 else fsize f)"

subsection \<open>The context\<close>

datatype fault = FOk | FShort nat | FErr int

text \<open>The surroundings the library calls into: libuuid, the clock, the working directory, the
  resolution of symbolic links and the modification times of files.\<close>

record os_env =
  env_uuid_is_null :: "byte list \<Rightarrow> bool"
  env_uuid_generate :: "byte list"
  env_time :: int
  env_cwd :: "int + string"
  env_realpath :: "string \<Rightarrow> int + string"
  env_mtime :: "string \<Rightarrow> int"

record os_state =
  env :: os_env
  files :: "string \<Rightarrow> vfile option"
  faults :: "fault list"
  panicked :: bool
  pagesize :: nat

record vhd_bat =
  bat_spb :: nat
  entries :: nat
  bat :: "32 word list option"

record vhd_context = os_state +
  fd :: "string option"
  file_name :: string
  oflags :: nat
  is_block :: bool
  offset :: nat
  spb :: nat
  bm_secs :: nat
  header :: vhd_header
  footer :: vhd_footer
  ctx_bat :: vhd_bat
  batmap :: vhd_batmap
  custom_parent :: "string option"

type_synonym 'a vhd = "(vhd_context, 'a) state"

definition zero_footer :: vhd_footer where
  "zero_footer = bytes_footer (replicate 512 0)"

definition zero_header :: vhd_header where
  "zero_header = bytes_header (replicate 1024 0)"

definition zero_batmap :: vhd_batmap where
  "zero_batmap = \<lparr> bm_header = bytes_batmap_header (replicate 512 0), bm_map = None \<rparr>"

definition zero_bat :: vhd_bat where
  "zero_bat = \<lparr> bat_spb = 0, entries = 0, bat = None \<rparr>"

text \<open>The fields of a context after \<^verbatim>\<open>memset(ctx, 0, sizeof(vhd_context_t))\<close>.\<close>

definition clear_ctx :: "vhd_context \<Rightarrow> vhd_context" where
  "clear_ctx s = s\<lparr>fd := None, file_name := [], oflags := 0, is_block := False, offset := 0, spb := 0,
     bm_secs := 0, header := zero_header, footer := zero_footer, ctx_bat := zero_bat,
     batmap := zero_batmap, custom_parent := None\<rparr>"

definition cur_file :: "vhd_context \<Rightarrow> vfile option" where
  "cur_file s = (case fd s of None \<Rightarrow> None | Some p \<Rightarrow> files s p)"

definition put_file :: "vfile \<Rightarrow> vhd_context \<Rightarrow> vhd_context" where
  "put_file f s = (case fd s of None \<Rightarrow> s | Some p \<Rightarrow> s\<lparr>files := (files s)(p \<mapsto> f)\<rparr>)"

definition pop_fault :: "vhd_context \<Rightarrow> fault \<times> vhd_context" where
  "pop_fault s = (case faults s of [] \<Rightarrow> (FOk, s) | x # xs \<Rightarrow> (x, s\<lparr>faults := xs\<rparr>))"

definition panic :: "unit vhd" where
  "panic = modify (\<lambda>s. s\<lparr>panicked := True\<rparr>)"

definition posix_memalign :: "int vhd" where
  "posix_memalign = State (\<lambda>s. case pop_fault s of (x, t) \<Rightarrow> ((case x of FErr _ \<Rightarrow> ENOMEM | _ \<Rightarrow> 0), t))"

subsection \<open>System calls\<close>

datatype io_op = OpRead | OpWrite

datatype sysret = SysRet nat | SysFail int

text \<open>One \<^verbatim>\<open>pread\<close> or \<^verbatim>\<open>pwrite\<close> of the buffer at the offset: the number of bytes transferred or
  the error, and the buffer afterwards.  Block devices are opened with \<^verbatim>\<open>O_DIRECT\<close> and refuse
  transfers that are not aligned to sectors.\<close>

definition sys_xfer :: "io_op \<Rightarrow> vfile \<Rightarrow> nat \<Rightarrow> byte list \<Rightarrow> nat \<Rightarrow> (sysret \<times> byte list) \<times> vfile" where
  "sys_xfer op f lim buf off =
     (if fblk f \<and> (off mod 512 \<noteq> 0 \<or> length buf mod 512 \<noteq> 0) then ((SysFail EINVAL, buf), f)
      else case op of
        OpRead \<Rightarrow>
          (let k = min lim (dev_end f - off)
           in ((SysRet k, map (fdata f) [off..<off + k] @ drop k buf), f))
      | OpWrite \<Rightarrow>
          (if fblk f then
             (if dev_end f \<le> off \<and> buf \<noteq> [] then ((SysFail ENOSPC, buf), f)
              else let k = min lim (dev_end f - off) in ((SysRet k, buf), fwrite f off (take k buf)))
           else ((SysRet lim, buf), fwrite f off (take lim buf))))"

definition sys_pio :: "io_op \<Rightarrow> byte list \<Rightarrow> nat \<Rightarrow> vhd_context \<Rightarrow> (sysret \<times> byte list) \<times> vhd_context" where
  "sys_pio op buf off s =
     (if panicked s then ((SysFail EIO, buf), s)
      else case cur_file s of
        None \<Rightarrow> ((SysFail EBADF, buf), s)
      | Some f \<Rightarrow>
          (case pop_fault s of (x, t) \<Rightarrow>
             (case x of
                FErr e \<Rightarrow> ((SysFail (if e \<le> 0 then EIO else e), buf), t)
              | _ \<Rightarrow>
                 (let lim = (case x of FShort k \<Rightarrow> min k (length buf) | _ \<Rightarrow> length buf) in
                  case sys_xfer op f lim buf off of (r, f') \<Rightarrow> (r, put_file f' t)))))"

definition sys_ftruncate :: "nat \<Rightarrow> int vhd" where
  "sys_ftruncate n = State (\<lambda>s.
     if panicked s then (- EIO, s)
     else case cur_file s of
       None \<Rightarrow> (- EBADF, s)
     | Some f \<Rightarrow> (case pop_fault s of (x, t) \<Rightarrow>
         (case x of FErr e \<Rightarrow> (- (if e \<le> 0 then EIO else e), t)
                  | _ \<Rightarrow> if fblk f then (- EINVAL, t) else (0, put_file (ftrunc f n) t))))"

subsection \<open>Transfers\<close>

text \<open>The loop of \<^verbatim>\<open>vhd_atomic_pio\<close>: the arguments after the buffer and the offset are \<open>pos\<close>,
  the cached \<open>st.st_size\<close> and \<open>errno\<close>; the result is the return value, \<open>errno\<close> and the buffer.
  It is given enough fuel for every fault to be taken and every byte to be transferred, and
  running out of it would be \<open>None\<close>.\<close>

fun pio_loop :: "nat \<Rightarrow> io_op \<Rightarrow> byte list \<Rightarrow> nat \<Rightarrow> nat \<Rightarrow> nat \<Rightarrow> int \<Rightarrow> vhd_context \<Rightarrow>
    ((nat \<times> int \<times> byte list) \<times> vhd_context) option" where
  "pio_loop 0 op buf off pos stsz eno s = None"
| "pio_loop (Suc fuel) op buf off pos stsz eno s =
     (case sys_pio op (drop pos buf) (off + pos) s of
        ((SysFail e, _), t) \<Rightarrow>
          if e = EINTR \<or> e = EAGAIN then pio_loop fuel op buf off pos stsz e t
          else Some ((0, e, buf), t)
      | ((SysRet r, sl), t) \<Rightarrow>
          (let buf1 = take pos buf @ sl in
           if r = 0 then Some ((pos, EPIPE, buf1), t)
           else if pos + r = length buf then Some ((length buf, eno, buf1), t)
           else
             (let stsz1 = (if stsz = 0 then (case cur_file t of None \<Rightarrow> 0 | Some f \<Rightarrow> st_size f) else stsz) in
              if off + pos + r = stsz1 then Some ((pos + r, eno, buf1), t)
              else pio_loop fuel op buf1 off (pos + r div 512 * 512) stsz1 eno t)))"

definition pio_fuel :: "byte list \<Rightarrow> vhd_context \<Rightarrow> nat" where
  "pio_fuel buf s = length (faults s) + length buf + 2"

definition vhd_atomic_pio :: "io_op \<Rightarrow> byte list \<Rightarrow> nat \<Rightarrow> int \<Rightarrow> (nat \<times> int \<times> byte list) vhd" where
  "vhd_atomic_pio op buf off eno = State (\<lambda>s.
     case pio_loop (pio_fuel buf s) op buf off 0 0 eno s of
       None \<Rightarrow> ((0, EIO, buf), s\<lparr>panicked := True\<rparr>)
     | Some r \<Rightarrow> r)"

definition io_result :: "nat \<Rightarrow> nat \<Rightarrow> int \<Rightarrow> int" where
  "io_result r n eno = (if r = n then 0 else if eno \<noteq> 0 then - eno else - EIO)"

definition vhd_atomic_io :: "io_op \<Rightarrow> byte list \<Rightarrow> int \<Rightarrow> (nat \<times> int \<times> byte list) vhd" where
  "vhd_atomic_io op buf eno = do {
     off \<leftarrow> gets offset;
     (r, eno, buf) \<leftarrow> vhd_atomic_pio op buf off eno;
     modify (\<lambda>s. s\<lparr>offset := offset s + r\<rparr>);
     ret (r, eno, buf)
   }"

datatype whence = SEEK_SET | SEEK_END

definition vhd_seek :: "int \<Rightarrow> whence \<Rightarrow> int vhd" where
  "vhd_seek off whence = do {
     s \<leftarrow> State_Monad.get;
     case cur_file s of
       None \<Rightarrow> ret (- EBADF)
     | Some f \<Rightarrow>
         (let pos = (case whence of SEEK_SET \<Rightarrow> off | SEEK_END \<Rightarrow> int (fsize f) + off) in
          if pos < 0 \<or> 9223372036854775808 \<le> pos then ret (- EINVAL)
          else do {
            modify (\<lambda>s. s\<lparr>offset := nat pos\<rparr>);
            ret 0
          })
   }"

definition vhd_position :: "nat vhd" where
  "vhd_position = gets offset"

text \<open>The buffer argument gives the size of the transfer and its previous contents.\<close>

definition vhd_read :: "byte list \<Rightarrow> (int \<times> byte list) vhd" where
  "vhd_read buf = do {
     (r, eno, buf') \<leftarrow> vhd_atomic_io OpRead buf 0;
     ret (io_result r (length buf) eno, buf')
   }"

definition vhd_write :: "byte list \<Rightarrow> int vhd" where
  "vhd_write buf = do {
     (r, eno, _) \<leftarrow> vhd_atomic_io OpWrite buf 0;
     ret (io_result r (length buf) eno)
   }"

definition vhd_pread :: "byte list \<Rightarrow> nat \<Rightarrow> (int \<times> byte list) vhd" where
  "vhd_pread buf off = do {
     (r, eno, buf') \<leftarrow> vhd_atomic_pio OpRead buf off 0;
     ret (io_result r (length buf) eno, buf')
   }"

definition vhd_pwrite :: "byte list \<Rightarrow> nat \<Rightarrow> int vhd" where
  "vhd_pwrite buf off = do {
     (r, eno, _) \<leftarrow> vhd_atomic_pio OpWrite buf off 0;
     ret (io_result r (length buf) eno)
   }"

subsection \<open>What a transfer can do to a file\<close>

text \<open>A write that may have been cut short: every byte is old, or lies in the range and has its new
  value; the file grows at most to the end of the range.\<close>

definition torn :: "vfile \<Rightarrow> nat \<Rightarrow> byte list \<Rightarrow> vfile \<Rightarrow> bool" where
  "torn f off bs g \<longleftrightarrow> fblk g = fblk f \<and> fsize f \<le> fsize g \<and> fsize g \<le> max (fsize f) (off + length bs) \<and>
     (fblk f \<longrightarrow> fsize g = fsize f) \<and>
     (\<forall>i. fbyte g i = fbyte f i \<or> off \<le> i \<and> i < off + length bs \<and> fbyte g i = bs ! (i - off))"

text \<open>The first \<open>m\<close> bytes of \<open>bs\<close> have reached the file.\<close>

definition landed :: "vfile \<Rightarrow> nat \<Rightarrow> byte list \<Rightarrow> nat \<Rightarrow> bool" where
  "landed g off bs m \<longleftrightarrow> (\<forall>k<m. fbyte g (off + k) = bs ! k) \<and> (0 < m \<longrightarrow> off + m \<le> fsize g)"

lemma length_fread [simp]: "length (fread f off n) = n"
  by (simp add: fread_def)

lemma nth_fread [simp]: "k < n \<Longrightarrow> fread f off n ! k = fbyte f (off + k)"
  by (simp add: fread_def)

lemma fread_eqI: "(\<And>k. k < n \<Longrightarrow> fbyte f (off + k) = fbyte g (off' + k)) \<Longrightarrow> fread f off n = fread g off' n"
  by (intro nth_equalityI) simp_all

lemma fbyte_fwrite:
  "fbyte (fwrite f off bs) i = (if off \<le> i \<and> i < off + length bs then bs ! (i - off) else fbyte f i)"
  by (auto simp: fwrite_def fbyte_def)

lemma fsize_fwrite: "bs \<noteq> [] \<Longrightarrow> fsize (fwrite f off bs) = max (fsize f) (off + length bs)"
  by (simp add: fwrite_def)

lemma fblk_fwrite [simp]: "fblk (fwrite f off bs) = fblk f"
  by (simp add: fwrite_def)

lemma torn_refl [simp]: "torn f off bs f"
  by (simp add: torn_def)

lemma torn_trans: "torn f off bs g \<Longrightarrow> torn g off bs h \<Longrightarrow> torn f off bs h"
  unfolding torn_def by (intro conjI) (simp, simp, simp add: max_def split: if_splits, simp, metis)

lemma torn_fblk: "torn f off bs g \<Longrightarrow> fblk g = fblk f"
  by (simp add: torn_def)

lemma torn_fsize: "torn f off bs g \<Longrightarrow> fsize f \<le> fsize g"
  by (simp add: torn_def)

lemma torn_outside: "torn f off bs g \<Longrightarrow> i < off \<or> off + length bs \<le> i \<Longrightarrow> fbyte g i = fbyte f i"
  unfolding torn_def by (meson leD)

lemma dev_end_le: "dev_end f \<le> fsize f"
  by (simp add: dev_end_def)

lemma torn_fwrite:
  assumes "pos + k \<le> length bs" "fblk f \<longrightarrow> off + pos + k \<le> fsize f"
  shows "torn f off bs (fwrite f (off + pos) (take k (drop pos bs)))"
proof (cases "k = 0")
  case False
  with assms have ne: "take k (drop pos bs) \<noteq> []" and len: "length (take k (drop pos bs)) = k" by auto
  then show ?thesis
    using assms False by (auto simp: torn_def fbyte_fwrite fsize_fwrite max_def)
qed (simp add: fwrite_def)

lemma landed_fwrite:
  assumes "landed f off bs pos" "pos + k \<le> length bs" "0 < k"
  shows "landed (fwrite f (off + pos) (take k (drop pos bs))) off bs (pos + k)"
proof -
  from assms have ne: "take k (drop pos bs) \<noteq> []" and len: "length (take k (drop pos bs)) = k" by auto
  then show ?thesis
    using assms by (auto simp: landed_def fbyte_fwrite fsize_fwrite not_le)
qed

lemma landed_mono: "landed f off bs m \<Longrightarrow> m' \<le> m \<Longrightarrow> landed f off bs m'"
  by (auto simp: landed_def)

lemma landed_0 [simp]: "landed f off bs 0"
  by (simp add: landed_def)

lemma landed_fread: "landed f off bs (length bs) \<Longrightarrow> fread f off (length bs) = bs"
  by (intro nth_equalityI) (auto simp: landed_def)

subsection \<open>The state around a call\<close>

lemma cur_file_put_file: "cur_file s = Some f \<Longrightarrow> cur_file (put_file g s) = Some g"
  by (auto simp: cur_file_def put_file_def split: option.splits)

lemma put_file_same: "cur_file s = Some f \<Longrightarrow> put_file f s = s"
  by (auto simp: cur_file_def put_file_def split: option.splits intro!: vhd_context.equality)

lemma put_file_put_file [simp]: "put_file g (put_file f s) = put_file g s"
  by (auto simp: put_file_def split: option.splits)

lemma put_file_faults [simp]: "put_file f (s\<lparr>faults := x\<rparr>) = (put_file f s)\<lparr>faults := x\<rparr>"
  by (simp add: put_file_def split: option.splits)

lemma put_file_offset [simp]: "put_file f (s\<lparr>offset := x\<rparr>) = (put_file f s)\<lparr>offset := x\<rparr>"
  by (simp add: put_file_def split: option.splits)

lemma cur_file_faults [simp]: "cur_file (s\<lparr>faults := x\<rparr>) = cur_file s"
  by (simp add: cur_file_def split: option.split)

lemma cur_file_offset [simp]: "cur_file (s\<lparr>offset := x\<rparr>) = cur_file s"
  by (simp add: cur_file_def split: option.split)

lemma put_file_sel [simp]:
  "env (put_file f s) = env s"
  "faults (put_file f s) = faults s" "panicked (put_file f s) = panicked s"
  "pagesize (put_file f s) = pagesize s" "fd (put_file f s) = fd s"
  "file_name (put_file f s) = file_name s" "oflags (put_file f s) = oflags s"
  "is_block (put_file f s) = is_block s" "offset (put_file f s) = offset s"
  "spb (put_file f s) = spb s" "bm_secs (put_file f s) = bm_secs s"
  "header (put_file f s) = header s" "footer (put_file f s) = footer s"
  "ctx_bat (put_file f s) = ctx_bat s" "batmap (put_file f s) = batmap s"
  "custom_parent (put_file f s) = custom_parent s"
  by (simp_all add: put_file_def split: option.splits)

lemma pop_fault_eq: "pop_fault s = (x, t) \<Longrightarrow> t = s\<lparr>faults := tl (faults s)\<rparr>"
  by (auto simp: pop_fault_def split: list.splits intro!: vhd_context.equality)

lemma pop_fault_nil: "faults s = [] \<Longrightarrow> pop_fault s = (FOk, s)"
  by (simp add: pop_fault_def)

subsection \<open>One system call\<close>

lemma len_le_diff: "xs \<noteq> [] \<Longrightarrow> length xs \<le> d - off \<Longrightarrow> off + length xs \<le> (d::nat)"
  by (cases xs) auto

lemma sys_pio_read:
  assumes "cur_file s = Some f" "\<not> panicked s" "sys_pio OpRead buf off s = ((r, b), t)"
  shows "t = s\<lparr>faults := tl (faults s)\<rparr>"
    and "case r of SysFail e \<Rightarrow> b = buf
         | SysRet k \<Rightarrow> k \<le> length buf \<and> (0 < k \<longrightarrow> off + k \<le> dev_end f) \<and> b = map (fdata f) [off..<off + k] @ drop k buf"
  using assms by (auto simp: sys_pio_def sys_xfer_def Let_def put_file_same min_def len_le_diff
      split: prod.splits fault.splits if_splits dest!: pop_fault_eq)

lemma sys_pio_write:
  assumes "cur_file s = Some f" "\<not> panicked s" "sys_pio OpWrite buf off s = ((r, b), t)"
  shows "b = buf"
    and "case r of SysFail e \<Rightarrow> t = s\<lparr>faults := tl (faults s)\<rparr>
         | SysRet k \<Rightarrow> k \<le> length buf \<and> (fblk f \<longrightarrow> 0 < k \<longrightarrow> off + k \<le> dev_end f) \<and>
             t = put_file (fwrite f off (take k buf)) (s\<lparr>faults := tl (faults s)\<rparr>)"
  using assms by (auto simp: sys_pio_def sys_xfer_def Let_def put_file_same min_def len_le_diff
      split: prod.splits fault.splits if_splits dest!: pop_fault_eq)

subsection \<open>The transfer loop\<close>

lemma fwrite_Nil [simp]: "fwrite f off [] = f"
  by (simp add: fwrite_def)

lemma drop_take_append [simp]: "pos \<le> length buf \<Longrightarrow> take pos buf @ drop pos buf = buf"
  by simp

lemma pio_loop_write:
  "pio_loop fuel OpWrite buf off pos stsz eno s = Some ((r, e, b), t) \<Longrightarrow> cur_file s = Some f \<Longrightarrow>
   \<not> panicked s \<Longrightarrow> pos \<le> length buf \<Longrightarrow> landed f off buf pos \<Longrightarrow> 0 \<le> eno \<Longrightarrow>
   \<exists>g fl. t = put_file g (s\<lparr>faults := fl\<rparr>) \<and> torn f off buf g \<and> r \<le> length buf \<and> landed g off buf r \<and> b = buf \<and> 0 \<le> e"
proof (induction fuel arbitrary: pos stsz eno s f)
  case (Suc fuel)
  obtain q sl u where q: "sys_pio OpWrite (drop pos buf) (off + pos) s = ((q, sl), u)" by (metis surj_pair)
  note w = sys_pio_write [OF Suc.prems(2,3) q]
  show ?case
  proof (cases q)
    case (SysFail x)
    with w have u: "u = s\<lparr>faults := tl (faults s)\<rparr>" by simp
    have keep: "\<exists>g fl. u = put_file g (s\<lparr>faults := fl\<rparr>) \<and> torn f off buf g \<and> landed g off buf 0"
      using put_file_same [OF Suc.prems(2)] u by (intro exI [of _ f] exI [of _ "tl (faults s)"]) simp
    have xpos: "0 \<le> x"
      using q SysFail Suc.prems(2,3) by (auto simp: sys_pio_def sys_xfer_def Let_def split: prod.splits fault.splits if_splits)
    show ?thesis
    proof (cases "x = EINTR \<or> x = EAGAIN")
      case True
      with Suc.prems(1) q SysFail have "pio_loop fuel OpWrite buf off pos stsz x u = Some ((r, e, b), t)" by auto
      from Suc.IH [OF this, of f] Suc.prems u xpos show ?thesis by auto
    qed (use Suc.prems(1) q SysFail keep xpos in auto)
  next
    case (SysRet k)
    define g where "g = fwrite f (off + pos) (take k (drop pos buf))"
    from w SysRet have u: "u = put_file g (s\<lparr>faults := tl (faults s)\<rparr>)" and k: "pos + k \<le> length buf"
      and blk: "fblk f \<longrightarrow> 0 < k \<longrightarrow> off + pos + k \<le> fsize f"
      using Suc.prems(4) dev_end_le [of f] by (auto simp: g_def)
    have tg: "torn f off buf g"
      using torn_fwrite [OF k, of f off] blk by (cases "k = 0") (auto simp: g_def)
    have lg: "landed g off buf (pos + k)"
      using landed_fwrite [OF Suc.prems(5) k] Suc.prems(5) by (cases "k = 0") (auto simp: g_def)
    have sl: "take pos buf @ sl = buf" using w(1) Suc.prems(4) by simp
    have cu: "cur_file u = Some g" using u cur_file_put_file [of "s\<lparr>faults := tl (faults s)\<rparr>" f] Suc.prems(2) by simp
    have now: "\<exists>g' fl. u = put_file g' (s\<lparr>faults := fl\<rparr>) \<and> torn f off buf g' \<and> landed g' off buf (pos + k)"
      using u tg lg by blast
    show ?thesis
    proof (cases "k = 0 \<or> pos + k = length buf \<or> off + pos + k = (if stsz = 0 then st_size g else stsz)")
      case True
      with Suc.prems(1,4,6) q SysRet sl cu now k show ?thesis
        by (auto simp: Let_def split: if_splits)
    next
      case False
      then have "pio_loop fuel OpWrite buf off (pos + k div 512 * 512) (if stsz = 0 then st_size g else stsz) eno u
        = Some ((r, e, b), t)"
        using Suc.prems(1) q SysRet sl cu by (auto simp: Let_def split: if_splits)
      from Suc.IH [OF this cu] Suc.prems(3,6) u k lg
      obtain h fl where "t = put_file h (u\<lparr>faults := fl\<rparr>)" "torn g off buf h" "r \<le> length buf" "landed h off buf r" "b = buf" "0 \<le> e"
        using landed_mono [OF lg, of "pos + k div 512 * 512"] div_times_less_eq_dividend [of k 512] by force
      then show ?thesis using u torn_trans [OF tg] by auto
    qed
  qed
qed simp

lemma fread_append: "fread f off (m + n) = fread f off m @ fread f (off + m) n"
  by (intro nth_equalityI) (auto simp: nth_append)

lemma map_fdata_fread: "off + k \<le> fsize f \<Longrightarrow> map (fdata f) [off..<off + k] = fread f off k"
  by (intro nth_equalityI) (auto simp: fbyte_def)

lemma take_fread [simp]: "m \<le> n \<Longrightarrow> take m (fread f off n) = fread f off m"
  by (intro nth_equalityI) auto

text \<open>The first \<open>m\<close> bytes of the buffer are those of the file.\<close>

definition fetched :: "vfile \<Rightarrow> nat \<Rightarrow> byte list \<Rightarrow> nat \<Rightarrow> bool" where
  "fetched f off b m \<longleftrightarrow> take m b = fread f off m \<and> (0 < m \<longrightarrow> off + m \<le> dev_end f)"

lemma fetched_0 [simp]: "fetched f off b 0"
  by (simp add: fetched_def fread_def)

lemma fetched_mono:
  assumes "fetched f off b m" "m' \<le> m" shows "fetched f off b m'"
proof -
  have "take m' b = take m' (take m b)" using assms(2) by (simp add: min_absorb1)
  with assms show ?thesis by (auto simp: fetched_def)
qed

lemma fetched_step:
  assumes "fetched f off b pos" "pos + k \<le> length b" "0 < k \<longrightarrow> off + pos + k \<le> dev_end f"
  shows "fetched f off (take pos b @ map (fdata f) [off + pos..<off + pos + k] @ drop k (drop pos b)) (pos + k)"
proof (cases "k = 0")
  case False
  with assms dev_end_le [of f] have "map (fdata f) [off + pos..<off + pos + k] = fread f (off + pos) k"
    by (intro map_fdata_fread) auto
  with assms False show ?thesis by (simp add: fetched_def fread_append)
qed (use assms in simp)

lemma pio_loop_read:
  "pio_loop fuel OpRead buf off pos stsz eno s = Some ((r, e, b), t) \<Longrightarrow> cur_file s = Some f \<Longrightarrow>
   \<not> panicked s \<Longrightarrow> pos \<le> length buf \<Longrightarrow> fetched f off buf pos \<Longrightarrow> 0 \<le> eno \<Longrightarrow>
   \<exists>fl. t = s\<lparr>faults := fl\<rparr> \<and> length b = length buf \<and> r \<le> length buf \<and> fetched f off b r \<and> 0 \<le> e"
proof (induction fuel arbitrary: pos stsz eno s buf)
  case (Suc fuel)
  obtain q sl u where q: "sys_pio OpRead (drop pos buf) (off + pos) s = ((q, sl), u)" by (metis surj_pair)
  note w = sys_pio_read [OF Suc.prems(2,3) q]
  from w have u: "u = s\<lparr>faults := tl (faults s)\<rparr>" by simp
  show ?case
  proof (cases q)
    case (SysFail x)
    have xpos: "0 \<le> x"
      using q SysFail Suc.prems(2,3) by (auto simp: sys_pio_def sys_xfer_def Let_def split: prod.splits fault.splits if_splits)
    show ?thesis
    proof (cases "x = EINTR \<or> x = EAGAIN")
      case True
      with Suc.prems(1) q SysFail have "pio_loop fuel OpRead buf off pos stsz x u = Some ((r, e, b), t)" by auto
      from Suc.IH [OF this] Suc.prems u xpos show ?thesis by auto
    qed (use Suc.prems(1) q SysFail u xpos in auto)
  next
    case (SysRet k)
    let ?b = "take pos buf @ sl"
    from w SysRet have sl: "sl = map (fdata f) [off + pos..<off + pos + k] @ drop k (drop pos buf)"
      and k: "pos + k \<le> length buf" and lim: "0 < k \<longrightarrow> off + pos + k \<le> dev_end f"
      using Suc.prems(4) by (auto simp: add.commute)
    have fb: "fetched f off ?b (pos + k)"
      using fetched_step [OF Suc.prems(5) k lim] sl by simp
    have lb: "length ?b = length buf" using sl k by simp
    have cu: "cur_file u = Some f" using u Suc.prems(2) by simp
    show ?thesis
    proof (cases "k = 0 \<or> pos + k = length buf \<or> off + pos + k = (if stsz = 0 then st_size f else stsz)")
      case True
      with Suc.prems(1,6) q SysRet cu u fb lb k show ?thesis
        by (auto simp: Let_def split: if_splits)
    next
      case False
      then have "pio_loop fuel OpRead ?b off (pos + k div 512 * 512) (if stsz = 0 then st_size f else stsz) eno u
        = Some ((r, e, b), t)"
        using Suc.prems(1) q SysRet cu by (auto simp: Let_def split: if_splits)
      moreover have "fetched f off ?b (pos + k div 512 * 512)" "pos + k div 512 * 512 \<le> length ?b"
        using fetched_mono [OF fb, of "pos + k div 512 * 512"] div_times_less_eq_dividend [of k 512] k lb by linarith+
      ultimately show ?thesis using Suc.IH [OF _ cu] Suc.prems(3,6) u lb by fastforce
    qed
  qed
qed simp

lemma faults_pio: "sys_pio op buf off s = (x, t) \<Longrightarrow> cur_file s = Some f \<Longrightarrow> \<not> panicked s \<Longrightarrow> faults t = tl (faults s)"
  by (auto simp: sys_pio_def Let_def split: prod.splits fault.splits if_splits dest!: pop_fault_eq)

lemma sys_pio_nofault:
  "faults s = [] \<Longrightarrow> cur_file s = Some f \<Longrightarrow> \<not> panicked s \<Longrightarrow>
   sys_pio op buf off s = (case sys_xfer op f (length buf) buf off of (r, g) \<Rightarrow> (r, put_file g s))"
  by (simp add: sys_pio_def pop_fault_nil)

lemma sys_xfer_whole:
  assumes "sys_xfer op f (length buf) buf off = ((SysRet k, b), g)" "0 < k" "k \<noteq> length buf"
  shows "fblk f \<and> 512 \<le> k \<or> \<not> fblk f \<and> op = OpRead \<and> off + k = fsize f"
proof (cases "fblk f")
  case True
  with assms have "off mod 512 = 0" "length buf mod 512 = 0" "k = min (length buf) (dev_end f - off)"
    by (auto simp: sys_xfer_def Let_def split: io_op.splits if_splits)
  moreover have "dev_end f mod 512 = 0" using True by (simp add: dev_end_def)
  ultimately have "k mod 512 = 0" by (auto simp: min_def mod_eq_0_iff_dvd)
  with True assms(2) show ?thesis by auto
next
  case False
  with assms show ?thesis by (auto simp: sys_xfer_def Let_def dev_end_def min_def split: io_op.splits if_splits)
qed

lemma pio_loop_total:
  "cur_file s = Some f \<Longrightarrow> \<not> panicked s \<Longrightarrow> pos \<le> length buf \<Longrightarrow>
   length (faults s) + (length buf - pos) < fuel \<Longrightarrow> (op = OpRead \<longrightarrow> stsz = 0 \<or> stsz = st_size f) \<Longrightarrow>
   pio_loop fuel op buf off pos stsz eno s \<noteq> None"
proof (induction fuel arbitrary: pos stsz eno s buf f)
  case (Suc fuel)
  obtain q sl u where q: "sys_pio op (drop pos buf) (off + pos) s = ((q, sl), u)" by (metis surj_pair)
  have fu: "faults u = tl (faults s)" by (rule faults_pio [OF q Suc.prems(1,2)])
  show ?case
  proof (cases q)
    case (SysFail x)
    have cu: "cur_file u = Some f" "\<not> panicked u"
      using q SysFail Suc.prems(1,2) sys_pio_read(1) [OF Suc.prems(1,2)] sys_pio_write(2) [OF Suc.prems(1,2)]
      by (cases op; fastforce)+
    have "faults s = [] \<Longrightarrow> x \<noteq> EINTR \<and> x \<noteq> EAGAIN"
      using q SysFail Suc.prems(1,2)
      by (auto simp: sys_pio_nofault sys_xfer_def Let_def split: if_splits io_op.splits)
    then show ?thesis
      using Suc.IH [OF cu Suc.prems(3)] Suc.prems(4,5) q SysFail fu by (cases "faults s") auto
  next
    case (SysRet k)
    let ?b = "take pos buf @ sl"
    obtain g where g: "cur_file u = Some g" "\<not> panicked u" "op = OpRead \<longrightarrow> g = f" "length ?b = length buf" "pos + k \<le> length buf"
    proof (cases op)
      case OpRead
      with sys_pio_read [OF Suc.prems(1,2), of "drop pos buf" "off + pos" q sl u] q SysRet Suc.prems(1,2,3) that [of f]
      show thesis by auto
    next
      case OpWrite
      with sys_pio_write [OF Suc.prems(1,2), of "drop pos buf" "off + pos" q sl u] q SysRet Suc.prems(1,2,3)
        cur_file_put_file [of s f] that
      show thesis by auto
    qed
    have step: "pio_loop fuel op ?b off (pos + k div 512 * 512) (if stsz = 0 then st_size g else stsz) eno u \<noteq> None"
      if stop: "k \<noteq> 0" "pos + k \<noteq> length buf" "off + pos + k \<noteq> (if stsz = 0 then st_size g else stsz)"
    proof (rule Suc.IH [OF g(1,2)])
      have kd: "k div 512 * 512 \<le> k" by simp
      then show "pos + k div 512 * 512 \<le> length ?b" using g(4,5) by linarith
      show "op = OpRead \<longrightarrow> (if stsz = 0 then st_size g else stsz) = 0 \<or> (if stsz = 0 then st_size g else stsz) = st_size g"
        using Suc.prems(5) g(3) by auto
      show "length (faults u) + (length ?b - (pos + k div 512 * 512)) < fuel"
      proof (cases "faults s")
        case Nil
        then have "sys_pio op (drop pos buf) (off + pos) s =
          (case sys_xfer op f (length (drop pos buf)) (drop pos buf) (off + pos) of (r, g) \<Rightarrow> (r, put_file g s))"
          by (rule sys_pio_nofault [OF _ Suc.prems(1,2)])
        with q SysRet obtain h where "sys_xfer op f (length (drop pos buf)) (drop pos buf) (off + pos) = ((SysRet k, sl), h)"
          by (auto split: prod.splits)
        moreover have "k \<noteq> length (drop pos buf)" using stop(2) Suc.prems(3) by auto
        ultimately have "512 \<le> k"
          using sys_xfer_whole stop(1,3) g(3) Suc.prems(5) by (fastforce simp: st_size_def split: if_splits)
        then show ?thesis using Nil fu g(4,5) Suc.prems(4) by (simp del: times_div_less_eq_dividend)
      qed (use fu g(4) Suc.prems(4) in simp)
    qed
    show ?thesis using step q SysRet g(1) by (auto simp: Let_def)
  qed
qed simp

subsection \<open>The contracts of the transfers\<close>

lemma io_result_0 [simp]: "r \<le> n \<Longrightarrow> 0 \<le> e \<Longrightarrow> io_result r n e = 0 \<longleftrightarrow> r = n"
  by (simp add: io_result_def)

lemma io_result_le [simp]: "0 \<le> e \<Longrightarrow> io_result r n e \<le> 0"
  by (simp add: io_result_def)

lemma vhd_atomic_pio_write:
  assumes "cur_file s = Some f" "\<not> panicked s"
  obtains r e g fl where "run_state (vhd_atomic_pio OpWrite buf off 0) s = ((r, e, buf), put_file g (s\<lparr>faults := fl\<rparr>))"
    "torn f off buf g" "r \<le> length buf" "landed g off buf r" "0 \<le> e"
proof -
  have "pio_loop (pio_fuel buf s) OpWrite buf off 0 0 0 s \<noteq> None"
    by (rule pio_loop_total [OF assms]) (auto simp: pio_fuel_def)
  then obtain r e b t where p: "pio_loop (pio_fuel buf s) OpWrite buf off 0 0 0 s = Some ((r, e, b), t)" by auto
  from pio_loop_write [OF p assms] p that show ?thesis by (auto simp: vhd_atomic_pio_def)
qed

lemma vhd_atomic_pio_read:
  assumes "cur_file s = Some f" "\<not> panicked s"
  obtains r e b fl where "run_state (vhd_atomic_pio OpRead buf off 0) s = ((r, e, b), s\<lparr>faults := fl\<rparr>)"
    "length b = length buf" "r \<le> length buf" "fetched f off b r" "0 \<le> e"
proof -
  have "pio_loop (pio_fuel buf s) OpRead buf off 0 0 0 s \<noteq> None"
    by (rule pio_loop_total [OF assms]) (auto simp: pio_fuel_def)
  then obtain r e b t where p: "pio_loop (pio_fuel buf s) OpRead buf off 0 0 0 s = Some ((r, e, b), t)" by auto
  from pio_loop_read [OF p assms] p that show ?thesis by (auto simp: vhd_atomic_pio_def)
qed

lemma landed_all: "landed g off buf (length buf) \<longleftrightarrow>
  fread g off (length buf) = buf \<and> (buf \<noteq> [] \<longrightarrow> off + length buf \<le> fsize g)"
proof
  assume "fread g off (length buf) = buf \<and> (buf \<noteq> [] \<longrightarrow> off + length buf \<le> fsize g)"
  then show "landed g off buf (length buf)"
    unfolding landed_def by (metis nth_fread length_greater_0_conv)
qed (simp add: landed_fread, simp add: landed_def)

lemma fetched_all: "length b = n \<Longrightarrow> fetched f off b n \<longleftrightarrow> b = fread f off n \<and> (0 < n \<longrightarrow> off + n \<le> dev_end f)"
  by (simp add: fetched_def)

lemma wp_vhd_pwrite:
  assumes "cur_file s = Some f" "\<not> panicked s"
    and "\<And>r g fl. torn f off buf g \<Longrightarrow> r \<le> 0 \<Longrightarrow>
      (r = 0 \<Longrightarrow> fread g off (length buf) = buf \<and> (buf \<noteq> [] \<longrightarrow> off + length buf \<le> fsize g)) \<Longrightarrow>
      Q r (put_file g (s\<lparr>faults := fl\<rparr>))"
  shows "wp (vhd_pwrite buf off) Q s"
proof -
  obtain r e g fl where p: "run_state (vhd_atomic_pio OpWrite buf off 0) s = ((r, e, buf), put_file g (s\<lparr>faults := fl\<rparr>))"
    "torn f off buf g" "r \<le> length buf" "landed g off buf r" "0 \<le> e"
    by (rule vhd_atomic_pio_write [OF assms(1,2)])
  then have "Q (io_result r (length buf) e) (put_file g (s\<lparr>faults := fl\<rparr>))"
    by (intro assms(3)) (auto simp: landed_all)
  with p(1) show ?thesis by (simp add: vhd_pwrite_def wp_def)
qed

lemma wp_vhd_pread:
  assumes "cur_file s = Some f" "\<not> panicked s"
    and "\<And>r b fl. r \<le> 0 \<Longrightarrow> length b = length buf \<Longrightarrow>
      (r = 0 \<Longrightarrow> b = fread f off (length buf) \<and> (buf \<noteq> [] \<longrightarrow> off + length buf \<le> dev_end f)) \<Longrightarrow>
      Q (r, b) (s\<lparr>faults := fl\<rparr>)"
  shows "wp (vhd_pread buf off) Q s"
proof -
  obtain r e b fl where p: "run_state (vhd_atomic_pio OpRead buf off 0) s = ((r, e, b), s\<lparr>faults := fl\<rparr>)"
    "length b = length buf" "r \<le> length buf" "fetched f off b r" "0 \<le> e"
    by (rule vhd_atomic_pio_read [OF assms(1,2)])
  then have "Q (io_result r (length buf) e, b) (s\<lparr>faults := fl\<rparr>)"
    by (intro assms(3)) (auto simp: fetched_all)
  with p(1) show ?thesis by (simp add: vhd_pread_def wp_def)
qed

lemma wp_vhd_write:
  assumes "cur_file s = Some f" "\<not> panicked s"
    and "\<And>r g fl k. torn f (offset s) buf g \<Longrightarrow> r \<le> 0 \<Longrightarrow> k \<le> length buf \<Longrightarrow>
      (r = 0 \<Longrightarrow> k = length buf \<and> fread g (offset s) (length buf) = buf \<and> (buf \<noteq> [] \<longrightarrow> offset s + length buf \<le> fsize g)) \<Longrightarrow>
      Q r (put_file g (s\<lparr>faults := fl\<rparr>)\<lparr>offset := offset s + k\<rparr>)"
  shows "wp (vhd_write buf) Q s"
proof -
  obtain r e g fl where p: "run_state (vhd_atomic_pio OpWrite buf (offset s) 0) s = ((r, e, buf), put_file g (s\<lparr>faults := fl\<rparr>))"
    "torn f (offset s) buf g" "r \<le> length buf" "landed g (offset s) buf r" "0 \<le> e"
    by (rule vhd_atomic_pio_write [OF assms(1,2)])
  then have "Q (io_result r (length buf) e) (put_file g (s\<lparr>faults := fl\<rparr>)\<lparr>offset := offset s + r\<rparr>)"
    by (intro assms(3)) (auto simp: landed_all)
  with p(1) show ?thesis by (simp add: vhd_write_def vhd_atomic_io_def wp_def gets_def modify_def)
qed

lemma wp_vhd_read:
  assumes "cur_file s = Some f" "\<not> panicked s"
    and "\<And>r b fl k. r \<le> 0 \<Longrightarrow> length b = length buf \<Longrightarrow> k \<le> length buf \<Longrightarrow>
      (r = 0 \<Longrightarrow> k = length buf \<and> b = fread f (offset s) (length buf) \<and> (buf \<noteq> [] \<longrightarrow> offset s + length buf \<le> dev_end f)) \<Longrightarrow>
      Q (r, b) (s\<lparr>faults := fl, offset := offset s + k\<rparr>)"
  shows "wp (vhd_read buf) Q s"
proof -
  obtain r e b fl where p: "run_state (vhd_atomic_pio OpRead buf (offset s) 0) s = ((r, e, b), s\<lparr>faults := fl\<rparr>)"
    "length b = length buf" "r \<le> length buf" "fetched f (offset s) b r" "0 \<le> e"
    by (rule vhd_atomic_pio_read [OF assms(1,2)])
  then have "Q (io_result r (length buf) e, b) (s\<lparr>faults := fl, offset := offset s + r\<rparr>)"
    by (intro assms(3)) (auto simp: fetched_all)
  with p(1) show ?thesis by (simp add: vhd_read_def vhd_atomic_io_def wp_def gets_def modify_def)
qed

subsection \<open>Transfers without faults\<close>

definition fits :: "vfile \<Rightarrow> nat \<Rightarrow> nat \<Rightarrow> bool" where
  "fits f off n \<longleftrightarrow> (if fblk f then off mod 512 = 0 \<and> n mod 512 = 0 \<and> off + n \<le> dev_end f else True)"

lemma run_vhd_pwrite_ok:
  assumes "cur_file s = Some f" "\<not> panicked s" "faults s = []" "fits f off (length buf)" "buf \<noteq> []"
  shows "run_state (vhd_pwrite buf off) s = (0, put_file (fwrite f off buf) s)"
  using assms
  by (auto simp: vhd_pwrite_def vhd_atomic_pio_def pio_fuel_def sys_pio_nofault sys_xfer_def fits_def Let_def
      io_result_def min_def numeral_2_eq_2 dest: len_le_diff split: if_splits)

lemma run_vhd_pread_ok:
  assumes "cur_file s = Some f" "\<not> panicked s" "faults s = []" "fits f off (length buf)"
    "off + length buf \<le> dev_end f" "buf \<noteq> []"
  shows "run_state (vhd_pread buf off) s = ((0, fread f off (length buf)), s)"
  using assms dev_end_le [of f]
  by (auto simp: vhd_pread_def vhd_atomic_pio_def pio_fuel_def sys_pio_nofault sys_xfer_def fits_def Let_def
      io_result_def min_def numeral_2_eq_2 map_fdata_fread put_file_same split: if_splits)

lemma run_vhd_write_ok:
  assumes "cur_file s = Some f" "\<not> panicked s" "faults s = []" "fits f (offset s) (length buf)" "buf \<noteq> []"
  shows "run_state (vhd_write buf) s = (0, put_file (fwrite f (offset s) buf) s\<lparr>offset := offset s + length buf\<rparr>)"
  using assms
  by (auto simp: vhd_write_def vhd_atomic_io_def vhd_atomic_pio_def pio_fuel_def sys_pio_nofault sys_xfer_def fits_def Let_def
      io_result_def min_def numeral_2_eq_2 gets_def modify_def dest: len_le_diff split: if_splits)

lemma run_vhd_read_ok:
  assumes "cur_file s = Some f" "\<not> panicked s" "faults s = []" "fits f (offset s) (length buf)"
    "offset s + length buf \<le> dev_end f" "buf \<noteq> []"
  shows "run_state (vhd_read buf) s = ((0, fread f (offset s) (length buf)), s\<lparr>offset := offset s + length buf\<rparr>)"
  using assms dev_end_le [of f]
  by (auto simp: vhd_read_def vhd_atomic_io_def vhd_atomic_pio_def pio_fuel_def sys_pio_nofault sys_xfer_def fits_def Let_def
      io_result_def min_def numeral_2_eq_2 map_fdata_fread put_file_same gets_def modify_def split: if_splits)

lemma wp_vhd_seek:
  assumes "cur_file s = Some f" "(if w = SEEK_SET then off else int (fsize f) + off) = int pos"
    and "pos < 9223372036854775808 \<Longrightarrow> Q 0 (s\<lparr>offset := pos\<rparr>)"
    and "\<not> pos < 9223372036854775808 \<Longrightarrow> Q (- EINVAL) s"
  shows "wp (vhd_seek off w) Q s"
  using assms by (cases w) (auto simp: vhd_seek_def wp_simps wp_def State_Monad.get_def gets_def modify_def Let_def)

lemma wp_posix_memalign:
  "(\<And>r fl. r = 0 \<or> r = ENOMEM \<Longrightarrow> Q r (s\<lparr>faults := fl\<rparr>)) \<Longrightarrow> wp posix_memalign Q s"
  by (auto simp: posix_memalign_def wp_def split: prod.splits fault.splits dest!: pop_fault_eq)

lemma wp_panic [wp_simps]: "wp panic Q s = Q () (s\<lparr>panicked := True\<rparr>)"
  by (simp add: panic_def wp_simps)

lemma wp_vhd_position [wp_simps]: "wp vhd_position Q s = Q (offset s) s"
  by (simp add: vhd_position_def wp_simps)

lemma run_posix_memalign_ok: "faults s = [] \<Longrightarrow> run_state posix_memalign s = (0, s)"
  by (simp add: posix_memalign_def pop_fault_nil)

lemma cur_file_upd [simp]:
  "cur_file (s\<lparr>ctx_bat := b\<rparr>) = cur_file s" "cur_file (s\<lparr>batmap := m\<rparr>) = cur_file s"
  "cur_file (s\<lparr>header := h\<rparr>) = cur_file s" "cur_file (s\<lparr>footer := ft\<rparr>) = cur_file s"
  "cur_file (s\<lparr>panicked := p\<rparr>) = cur_file s" "cur_file (s\<lparr>spb := n\<rparr>) = cur_file s"
  "cur_file (s\<lparr>bm_secs := n\<rparr>) = cur_file s" "cur_file (s\<lparr>is_block := p\<rparr>) = cur_file s"
  by (simp_all add: cur_file_def split: option.split)

lemma wp_seek_set:
  assumes "cur_file s = Some f"
    and "0 \<le> off \<Longrightarrow> off < 9223372036854775808 \<Longrightarrow> Q 0 (s\<lparr>offset := nat off\<rparr>)"
    and "off < 0 \<or> 9223372036854775808 \<le> off \<Longrightarrow> Q (- EINVAL) s"
  shows "wp (vhd_seek off SEEK_SET) Q s"
  using assms by (auto simp: vhd_seek_def wp_simps Let_def)

lemma wp_seek_end:
  assumes "cur_file s = Some f"
    and "fsize f < 9223372036854775808 \<Longrightarrow> Q 0 (s\<lparr>offset := fsize f\<rparr>)"
    and "9223372036854775808 \<le> fsize f \<Longrightarrow> Q (- EINVAL) s"
  shows "wp (vhd_seek 0 SEEK_END) Q s"
  using assms by (auto simp: vhd_seek_def wp_simps Let_def)

subsection \<open>Frames\<close>

text \<open>What no operation on an open image changes: everything but the table, the batmap, the file
  position, the pending faults and the contents of the open file.\<close>

definition frame :: "vhd_context \<Rightarrow> vhd_context \<Rightarrow> bool" where
  "frame s t \<longleftrightarrow> env t = env s \<and> pagesize t = pagesize s \<and> panicked t = panicked s \<and> fd t = fd s \<and>
     file_name t = file_name s \<and> oflags t = oflags s \<and> is_block t = is_block s \<and> spb t = spb s \<and>
     bm_secs t = bm_secs s \<and> header t = header s \<and> footer t = footer s \<and> custom_parent t = custom_parent s \<and>
     (\<forall>p. fd s \<noteq> Some p \<longrightarrow> files t p = files s p)"

lemma frame_refl [simp]: "frame s s"
  by (simp add: frame_def)

lemma frame_trans: "frame s t \<Longrightarrow> frame t u \<Longrightarrow> frame s u"
  by (simp add: frame_def)

lemma frame_upd [simp]:
  "frame s (t\<lparr>faults := fl\<rparr>) = frame s t" "frame s (t\<lparr>offset := n\<rparr>) = frame s t"
  "frame s (t\<lparr>ctx_bat := b\<rparr>) = frame s t" "frame s (t\<lparr>batmap := m\<rparr>) = frame s t"
  by (simp_all add: frame_def)

lemma frame_put_file [simp]: "frame s (put_file g t) = frame s t"
proof (cases "fd t = fd s")
  case True
  then have "(\<forall>p. fd s \<noteq> Some p \<longrightarrow> files (put_file g t) p = files s p) \<longleftrightarrow> (\<forall>p. fd s \<noteq> Some p \<longrightarrow> files t p = files s p)"
    by (cases "fd s") (auto simp: put_file_def)
  with True show ?thesis unfolding frame_def by simp
qed (simp add: frame_def)

lemma frameD:
  "frame s t \<Longrightarrow> env t = env s" "frame s t \<Longrightarrow> pagesize t = pagesize s"
  "frame s t \<Longrightarrow> panicked t = panicked s" "frame s t \<Longrightarrow> fd t = fd s"
  "frame s t \<Longrightarrow> file_name t = file_name s" "frame s t \<Longrightarrow> oflags t = oflags s"
  "frame s t \<Longrightarrow> is_block t = is_block s" "frame s t \<Longrightarrow> spb t = spb s"
  "frame s t \<Longrightarrow> bm_secs t = bm_secs s" "frame s t \<Longrightarrow> header t = header s"
  "frame s t \<Longrightarrow> footer t = footer s" "frame s t \<Longrightarrow> custom_parent t = custom_parent s"
  by (simp_all add: frame_def)

subsection \<open>Transfers without faults, as preconditions\<close>

lemma wp_run: "run_state m s = (r, t) \<Longrightarrow> wp m Q s = Q r t"
  by (simp add: wp_def)

lemma wp_posix_memalign_ok [wp_ok]: "faults s = [] \<Longrightarrow> wp posix_memalign Q s = Q 0 s"
  by (rule wp_run) (rule run_posix_memalign_ok)

lemma wp_seek_set_ok [wp_ok]:
  "cur_file s = Some f \<Longrightarrow> 0 \<le> off \<Longrightarrow> off < 9223372036854775808 \<Longrightarrow>
   wp (vhd_seek off SEEK_SET) Q s = Q 0 (s\<lparr>offset := nat off\<rparr>)"
  by (auto simp: vhd_seek_def wp_simps Let_def)

lemma wp_seek_end_ok [wp_ok]:
  "cur_file s = Some f \<Longrightarrow> fsize f < 9223372036854775808 \<Longrightarrow>
   wp (vhd_seek 0 SEEK_END) Q s = Q 0 (s\<lparr>offset := fsize f\<rparr>)"
  by (auto simp: vhd_seek_def wp_simps Let_def)

lemma wp_vhd_write_ok [wp_ok]:
  "cur_file s = Some f \<Longrightarrow> \<not> panicked s \<Longrightarrow> faults s = [] \<Longrightarrow> fits f (offset s) (length buf) \<Longrightarrow> buf \<noteq> [] \<Longrightarrow>
   wp (vhd_write buf) Q s = Q 0 (put_file (fwrite f (offset s) buf) s\<lparr>offset := offset s + length buf\<rparr>)"
  by (rule wp_run) (rule run_vhd_write_ok)

lemma wp_vhd_read_ok [wp_ok]:
  "cur_file s = Some f \<Longrightarrow> \<not> panicked s \<Longrightarrow> faults s = [] \<Longrightarrow> fits f (offset s) (length buf) \<Longrightarrow>
   offset s + length buf \<le> dev_end f \<Longrightarrow> buf \<noteq> [] \<Longrightarrow>
   wp (vhd_read buf) Q s = Q (0, fread f (offset s) (length buf)) (s\<lparr>offset := offset s + length buf\<rparr>)"
  by (rule wp_run) (rule run_vhd_read_ok)

lemma fits_regular [simp]: "\<not> fblk f \<Longrightarrow> fits f off n"
  by (simp add: fits_def)

end
