(* ===== verification/Vhd_Paths.thy ===== *)
theory Vhd_Paths
  imports Blktap_Prelude
begin

text \<open>Paths of parent images (\<^verbatim>\<open>vhd/lib/canonpath.c\<close>, \<^verbatim>\<open>vhd/lib/relative-path.c\<close>).  The working
  directory, \<^verbatim>\<open>realpath\<close> and \<^verbatim>\<open>access\<close> are arguments: \<open>wd\<close> and \<open>rp\<close> give an error number or a
  path, \<open>ex\<close> says whether a path exists.  The small allocations of these functions are taken to
  succeed.\<close>

subsection \<open>Normalisation\<close>

abbreviation slash :: char where "slash \<equiv> CHR ''/''"
abbreviation (input) PATH_MAX :: nat where "PATH_MAX \<equiv> 4096"
abbreviation (input) MAX_NAME_LEN :: nat where "MAX_NAME_LEN \<equiv> 1000"

definition node :: "string \<Rightarrow> string" where
  "node p = takeWhile (\<lambda>c. c \<noteq> slash) p"

definition after_node :: "string \<Rightarrow> string" where
  "after_node p = drop (length (node p) + 1) p"

text \<open>Cut off the last component (\<^verbatim>\<open>memrchr\<close>).\<close>

definition cut_last :: "string \<Rightarrow> string" where
  "cut_last p = (if slash \<in> set p then rev (tl (dropWhile (\<lambda>c. c \<noteq> slash) (rev p))) else p)"

function normalize_loop :: "string \<Rightarrow> string \<Rightarrow> string" where
  "normalize_loop p acc =
     (if p = [] then acc
      else normalize_loop (after_node p)
        (if node p = ''..'' then cut_last acc
         else if node p = ''.'' \<or> node p = [] then acc
         else acc @ [slash] @ node p))"
  by pat_completeness auto
termination
  by (relation "measure (\<lambda>(p, acc). length p)") (auto simp: after_node_def)

declare normalize_loop.simps [simp del]

definition normalize_path :: "int + string \<Rightarrow> string \<Rightarrow> int + string" where
  "normalize_path wd path =
     (let fin = (\<lambda>r. if r = [] then [slash] else r) in
      if path = [] \<or> hd path \<noteq> slash
      then (case wd of Inl e \<Rightarrow> Inl e | Inr d \<Rightarrow> Inr (fin (normalize_loop path d)))
      else Inr (fin (normalize_loop path [])))"

subsection \<open>Canonical paths\<close>

definition starts_with :: "string \<Rightarrow> string \<Rightarrow> bool" where
  "starts_with pre s \<longleftrightarrow> take (length pre) s = pre"

definition safe_strncpy :: "string \<Rightarrow> nat \<Rightarrow> string" where
  "safe_strncpy src n = take (n - 1) src"

text \<open>The name of a logical volume in \<^verbatim>\<open>/dev/mapper\<close>.\<close>

fun mapper_name :: "string \<Rightarrow> string \<Rightarrow> string option" where
  "mapper_name dst [] = Some dst"
| "mapper_name dst (c # cs) =
     (if length dst \<ge> PATH_MAX - 2 then None
      else mapper_name (dst @ (if c = slash then ''-'' else if c = CHR ''-'' then ''--'' else [c])) cs)"

definition is_digit :: "char \<Rightarrow> bool" where
  "is_digit c \<longleftrightarrow> c \<in> set ''0123456789''"

text \<open>Whether \<^verbatim>\<open>strtol\<close> reads the whole of a nonempty string as a number in range: white space,
  a sign and digits.\<close>

definition strtol_whole :: "string \<Rightarrow> bool" where
  "strtol_whole s =
     (let t = dropWhile (\<lambda>c. c \<in> set [CHR '' '', CHR 0x09, CHR 0x0A, CHR 0x0B, CHR 0x0C, CHR 0x0D]) s;
          neg = (t \<noteq> [] \<and> hd t = CHR ''-'');
          d = (if t \<noteq> [] \<and> (hd t = CHR ''-'' \<or> hd t = CHR ''+'') then tl t else t);
          v = foldl (\<lambda>n c. 10 * n + (of_char c - of_char (CHR ''0''))) (0 :: nat) d
      in d \<noteq> [] \<and> list_all is_digit d \<and> v \<le> (if neg then 9223372036854775808 else 9223372036854775807))"

definition canonpath :: "int + string \<Rightarrow> (string \<Rightarrow> int + string) \<Rightarrow> (string \<Rightarrow> bool) \<Rightarrow> string \<Rightarrow> int + string" where
  "canonpath wd rp ex path =
     (if length path \<ge> PATH_MAX then rp path
      else case normalize_path wd path of
        Inl e \<Rightarrow> Inl e
      | Inr canon \<Rightarrow>
          if starts_with ''/dev/mapper/'' canon \<and> slash \<notin> set (drop 12 canon) \<and> ex canon
          then Inr (safe_strncpy canon PATH_MAX)
          else if starts_with ''/dev/'' canon \<and> slash \<in> set (drop 5 canon) then
            (if slash \<notin> set (after_node (drop 5 canon)) then
               (case mapper_name ''/dev/mapper/'' (drop 5 canon) of
                  None \<Rightarrow> rp path
                | Some resolved \<Rightarrow> if ex resolved then Inr resolved else rp path)
             else if starts_with ''drbd/by-res/'' (drop 5 canon) then
               (case rp canon of
                  Inl e \<Rightarrow> Inl e
                | Inr resolved \<Rightarrow>
                    if \<not> starts_with ''/dev/drbd'' resolved then Inr resolved
                    else if \<not> strtol_whole (drop 9 resolved) then Inr resolved
                    else if ex (safe_strncpy canon PATH_MAX) then Inr (safe_strncpy canon PATH_MAX)
                    else rp path)
             else rp path)
          else rp path)"

text \<open>The directory of a path (\<^verbatim>\<open>dirname\<close> of the C library, on the paths \<^verbatim>\<open>canonpath\<close> returns).\<close>

definition dirname :: "string \<Rightarrow> string" where
  "dirname p =
     (let q = rev (dropWhile (\<lambda>c. c = slash) (rev p)) in
      if q = [] then (if p = [] then ''.'' else [slash])
      else if slash \<notin> set q then ''.''
      else let d = rev (dropWhile (\<lambda>c. c = slash) (dropWhile (\<lambda>c. c \<noteq> slash) (rev q)))
           in if d = [] then [slash] else d)"

subsection \<open>Relative paths\<close>

definition count_nodes :: "string \<Rightarrow> nat" where
  "count_nodes path = count_list path slash"

definition next_node :: "string \<Rightarrow> (string \<times> string) option" where
  "next_node path = (if slash \<in> set path then Some (node path, dropWhile (\<lambda>c. c \<noteq> slash) path) else None)"

function count_common_nodes :: "string \<Rightarrow> string \<Rightarrow> nat" where
  "count_common_nodes to from =
     (case next_node to of None \<Rightarrow> 0
      | Some (to_node, to') \<Rightarrow>
          (case next_node from of None \<Rightarrow> 0
           | Some (from_node, from') \<Rightarrow>
               if take MAX_NAME_LEN to_node \<noteq> take MAX_NAME_LEN from_node then 0
               else count_common_nodes (tl to') (tl from') + 1))"
  by pat_completeness auto
termination
proof (relation "measure (\<lambda>(p, q). length p)", goal_cases)
  case (2 p q x a b)
  then have "slash \<in> set p" "b = dropWhile (\<lambda>c. c \<noteq> slash) p"
    by (auto simp: next_node_def split: if_splits)
  then have "b \<noteq> []" "length b \<le> length p"
    by (auto simp: dropWhile_eq_Nil_conv length_dropWhile_le)
  then show ?case by (cases b) auto
qed simp

declare count_common_nodes.simps [simp del]

definition up_nodes :: "nat \<Rightarrow> string option" where
  "up_nodes n = (if n = 0 then Some ''./'' else if 3 * n \<ge> MAX_NAME_LEN then None
     else Some (concat (replicate n ''../'')))"

fun node_offset :: "string \<Rightarrow> nat \<Rightarrow> string option" where
  "node_offset [] n = None"
| "node_offset (c # cs) n =
     (if n = 0 then None
      else if c = slash then (if n - 1 = 0 then Some cs else node_offset cs (n - 1))
      else node_offset cs n)"

definition relative_path_to :: "int + string \<Rightarrow> (string \<Rightarrow> int + string) \<Rightarrow> (string \<Rightarrow> bool) \<Rightarrow>
    string \<Rightarrow> string \<Rightarrow> int + string" where
  "relative_path_to wd rp ex from to =
     (if length to \<ge> MAX_NAME_LEN \<or> length from \<ge> MAX_NAME_LEN then Inl (- ENAMETOOLONG)
      else case canonpath wd rp ex to of
        Inl e \<Rightarrow> Inl (neg_errno e)
      | Inr to_absolute \<Rightarrow>
          (case canonpath wd rp ex from of
             Inl e \<Rightarrow> Inl (neg_errno e)
           | Inr from_absolute \<Rightarrow>
               if length to_absolute \<ge> MAX_NAME_LEN \<or> length from_absolute \<ge> MAX_NAME_LEN
               then Inl (- ENAMETOOLONG)
               else
                 (let common = count_common_nodes (tl to_absolute) (tl from_absolute) in
                  case up_nodes (count_nodes from_absolute - common - 1) of
                    None \<Rightarrow> Inl (- ENOMEM)
                  | Some up \<Rightarrow>
                      (case node_offset to_absolute (common + 1) of
                         None \<Rightarrow> Inl (- EINVAL)
                       | Some target \<Rightarrow> Inr (up @ target)))))"

subsection \<open>Paths as lists of components\<close>

fun join :: "string list \<Rightarrow> string" where
  "join [] = []"
| "join [x] = x"
| "join (x # y # r) = x @ slash # join (y # r)"

definition path_of :: "string list \<Rightarrow> string" where
  "path_of cs = concat (map (\<lambda>c. slash # c) cs)"

definition component :: "string \<Rightarrow> bool" where
  "component c \<longleftrightarrow> c \<noteq> [] \<and> slash \<notin> set c \<and> c \<noteq> ''.'' \<and> c \<noteq> ''..''"

definition nstep :: "string \<Rightarrow> string \<Rightarrow> string" where
  "nstep acc t = (if t = ''..'' then cut_last acc else if t = ''.'' \<or> t = [] then acc else acc @ [slash] @ t)"

definition cstep :: "string list \<Rightarrow> string \<Rightarrow> string list" where
  "cstep cs t = (if t = ''..'' then butlast cs else if t = ''.'' \<or> t = [] then cs else cs @ [t])"

lemma join_Cons: "r \<noteq> [] \<Longrightarrow> join (x # r) = x @ slash # join r"
  by (cases r) auto

lemma join_append: "xs \<noteq> [] \<Longrightarrow> ys \<noteq> [] \<Longrightarrow> join (xs @ ys) = join xs @ slash # join ys"
  by (induction xs rule: join.induct) (auto simp: join_Cons)

lemma path_of_join: "cs \<noteq> [] \<Longrightarrow> path_of cs = slash # join cs"
  by (induction cs rule: join.induct) (auto simp: path_of_def)

lemma path_of_append [simp]: "path_of (xs @ ys) = path_of xs @ path_of ys"
  by (simp add: path_of_def)

lemma path_of_Nil [simp]: "path_of [] = []"
  by (simp add: path_of_def)

lemma path_of_one: "path_of [c] = slash # c"
  by (simp add: path_of_def)

lemma node_append [simp]: "slash \<notin> set c \<Longrightarrow> node (c @ slash # r) = c"
  unfolding node_def by (subst takeWhile_append2) auto

lemma node_all [simp]: "slash \<notin> set c \<Longrightarrow> node c = c"
  by (auto simp: node_def)

lemma after_node_append [simp]: "slash \<notin> set c \<Longrightarrow> after_node (c @ slash # r) = r"
  by (simp add: after_node_def)

lemma after_node_all [simp]: "slash \<notin> set c \<Longrightarrow> after_node c = []"
  by (simp add: after_node_def)

lemma normalize_join:
  "\<forall>t\<in>set ts. slash \<notin> set t \<Longrightarrow> normalize_loop (join ts) acc = foldl nstep acc ts"
proof (induction ts arbitrary: acc rule: join.induct)
  case (2 x)
  then show ?case
    by (cases "x = []") (auto simp: normalize_loop.simps [of x] normalize_loop.simps [of "[]"] nstep_def)
next
  case (3 x y r)
  then show ?case
    by (simp add: normalize_loop.simps [of "x @ slash # join (y # r)"] nstep_def)
qed (simp add: normalize_loop.simps)

lemma cut_last_append [simp]: "slash \<notin> set c \<Longrightarrow> cut_last (p @ slash # c) = p"
proof -
  assume "slash \<notin> set c"
  then have "dropWhile (\<lambda>c. c \<noteq> slash) (rev (p @ slash # c)) = slash # rev p"
    unfolding rev_append rev.simps append.assoc by (subst dropWhile_append2) auto
  then show ?thesis by (simp add: cut_last_def)
qed

lemma nstep_path_of:
  assumes "\<forall>c\<in>set cs. slash \<notin> set c"
  shows "nstep (path_of cs) t = path_of (cstep cs t)"
proof (cases cs rule: rev_cases)
  case Nil
  then show ?thesis by (simp add: nstep_def cstep_def cut_last_def path_of_def)
next
  case (snoc ds d)
  with assms show ?thesis by (auto simp: nstep_def cstep_def path_of_def)
qed

lemma foldl_nstep_path_of:
  "\<forall>c\<in>set cs. slash \<notin> set c \<Longrightarrow> \<forall>t\<in>set ts. slash \<notin> set t \<Longrightarrow>
   foldl nstep (path_of cs) ts = path_of (foldl cstep cs ts)"
proof (induction ts arbitrary: cs)
  case (Cons t ts)
  then have "\<forall>c\<in>set (cstep cs t). slash \<notin> set c"
    by (auto simp: cstep_def dest: in_set_butlastD)
  with Cons show ?case by (simp add: nstep_path_of)
qed simp

lemma foldl_cstep_components: "\<forall>t\<in>set ts. component t \<Longrightarrow> foldl cstep cs ts = cs @ ts"
  by (induction ts arbitrary: cs) (auto simp: cstep_def component_def)

lemma foldl_cstep_up: "foldl cstep cs (replicate n ''..'') = take (length cs - n) cs"
  by (induction n arbitrary: cs) (auto simp: cstep_def butlast_conv_take min_def)

lemma dirname_path_of:
  assumes "component f" "\<forall>c\<in>set fs. component c"
  shows "dirname (path_of (fs @ [f])) = (if fs = [] then [slash] else path_of fs)"
proof -
  have f: "f \<noteq> []" "slash \<notin> set f" using assms(1) by (auto simp: component_def)
  then have hd: "hd (rev f) \<noteq> slash" "rev f \<noteq> []" by (metis hd_in_set rev_is_Nil_conv set_rev)+
  have 1: "dropWhile (\<lambda>c. c = slash) (rev (path_of (fs @ [f]))) = rev f @ slash # rev (path_of fs)"
    using hd by (simp add: path_of_one dropWhile_append3 dropWhile_eq_self_iff)
  have 2: "dropWhile (\<lambda>c. c \<noteq> slash) (rev f @ slash # rev (path_of fs)) = slash # rev (path_of fs)"
    using f by (subst dropWhile_append2) auto
  have 3: "dropWhile (\<lambda>c. c = slash) (rev (path_of fs)) = rev (path_of fs)"
  proof (cases fs rule: rev_cases)
    case (snoc gs g)
    with assms(2) have "g \<noteq> []" "slash \<notin> set g" by (auto simp: component_def)
    with snoc show ?thesis by (cases g rule: rev_cases) (auto simp: path_of_one)
  qed simp
  show ?thesis
    unfolding dirname_def Let_def 1 using f
    by (simp add: 2 3) (simp add: path_of_def)
qed

subsection \<open>The relative path leads back\<close>

fun lcp :: "string list \<Rightarrow> string list \<Rightarrow> nat" where
  "lcp [] ys = 0"
| "lcp (x # xs) [] = 0"
| "lcp (x # xs) (y # ys) = (if x = y then Suc (lcp xs ys) else 0)"

lemma lcp_take: "take (lcp xs ys) xs = take (lcp xs ys) ys"
  by (induction xs ys rule: lcp.induct) auto

lemma lcp_le: "lcp xs ys \<le> length xs" "lcp xs ys \<le> length ys"
  by (induction xs ys rule: lcp.induct) auto

lemma next_node_join:
  "slash \<notin> set x \<Longrightarrow> next_node (x @ slash # r) = Some (x, slash # r)"
  "slash \<notin> set x \<Longrightarrow> next_node x = None"
  by (auto simp: next_node_def dropWhile_append3)

lemma count_common_join:
  "\<forall>c\<in>set (ts @ [t] @ fs @ [f]). slash \<notin> set c \<and> length c < MAX_NAME_LEN \<Longrightarrow>
   count_common_nodes (join (ts @ [t])) (join (fs @ [f])) = lcp ts fs"
proof (induction ts fs rule: lcp.induct)
  case (1 fs)
  then show ?case by (subst count_common_nodes.simps) (simp add: next_node_join)
next
  case (2 x xs)
  then show ?case
    by (subst count_common_nodes.simps) (auto simp: next_node_join split: option.split)
next
  case (3 x xs y ys)
  then have j: "join ((x # xs) @ [t]) = x @ slash # join (xs @ [t])" "join ((y # ys) @ [f]) = y @ slash # join (ys @ [f])"
    by (simp_all add: join_Cons)
  show ?case
    unfolding j by (subst count_common_nodes.simps) (use 3 in \<open>auto simp: next_node_join\<close>)
qed

lemma node_offset_path_of:
  "\<forall>c\<in>set cs. slash \<notin> set c \<Longrightarrow> k < length cs \<Longrightarrow> node_offset (path_of cs) (Suc k) = Some (join (drop k cs))"
proof (induction cs arbitrary: k)
  case (Cons c cs)
  have skip: "node_offset (c @ r) (Suc n) = node_offset r (Suc n)" if "slash \<notin> set c" for c r n
    using that by (induction c) auto
  show ?case
  proof (cases k)
    case 0
    then show ?thesis using path_of_join [of "c # cs"] by (auto simp: path_of_def)
  next
    case (Suc m)
    with Cons show ?thesis by (auto simp: path_of_def skip)
  qed
qed simp

lemma count_nodes_path_of: "\<forall>c\<in>set cs. slash \<notin> set c \<Longrightarrow> count_nodes (path_of cs) = length cs"
  by (induction cs) (auto simp: path_of_def count_nodes_def)

lemma length_component_path: "c \<in> set cs \<Longrightarrow> length c < length (path_of cs)"
  by (induction cs) (auto simp: path_of_def)

lemma join_up: "ts \<noteq> [] \<Longrightarrow> concat (replicate n ''../'') @ join ts = join (replicate n ''..'' @ ts)"
  by (induction n) (auto simp: join_Cons)

lemma normalize_path_join:
  "\<forall>t\<in>set ts. slash \<notin> set t \<Longrightarrow> ts \<noteq> [] \<Longrightarrow>
   normalize_path wd (slash # join ts) =
     Inr (let cs = foldl cstep [] ts in if cs = [] then [slash] else path_of cs)"
  using normalize_join [of "[] # ts" "[]"] foldl_nstep_path_of [of "[]" "[] # ts"]
  by (auto simp: normalize_path_def join_Cons Let_def cstep_def path_of_def)

text \<open>The path from an image to its parent, appended to the image's directory.\<close>

lemma resolve_relative:
  fixes fs ts :: "string list"
  defines "k \<equiv> lcp ts fs"
  assumes comp: "\<forall>c\<in>set (fs @ [f] @ ts @ [t]). component c"
  shows "normalize_path wd ((if fs = [] then [slash] else path_of fs) @
           slash # (if length fs = k then ''./'' else concat (replicate (length fs - k) ''../'')) @ join (drop k (ts @ [t])))
         = Inr (path_of (ts @ [t]))"
proof -
  have k: "k \<le> length ts" "k \<le> length fs" "take k ts = take k fs"
    using lcp_le [of ts fs] lcp_take [of ts fs] by (auto simp: k_def)
  define rest where "rest = drop k (ts @ [t])"
  have rest: "rest \<noteq> []" "\<forall>c\<in>set rest. component c"
    using k comp by (auto simp: rest_def dest: in_set_dropD)
  define ups where "ups = (if length fs = k then [''.''] else replicate (length fs - k) ''..'')"
  have up: "(if length fs = k then ''./'' else concat (replicate (length fs - k) ''../'')) @ join rest = join (ups @ rest)"
    using rest(1) join_up [OF rest(1)] by (auto simp: ups_def join_Cons)
  define pre where "pre = (if fs = [] then [[]] else fs)"
  have all: "(if fs = [] then [slash] else path_of fs) @ slash # join (ups @ rest) = slash # join (pre @ ups @ rest)"
    using rest(1) join_append [of pre "ups @ rest"] by (auto simp: pre_def path_of_join)
  have nos: "\<forall>x\<in>set (pre @ ups @ rest). slash \<notin> set x"
  proof -
    have "slash \<notin> set x" if "component x" for x using that by (simp add: component_def)
    then have "\<forall>x\<in>set pre. slash \<notin> set x" "\<forall>x\<in>set rest. slash \<notin> set x"
      using comp rest(2) by (simp_all add: pre_def)
    moreover have "\<forall>x\<in>set ups. slash \<notin> set x" by (simp add: ups_def)
    ultimately show ?thesis by auto
  qed
  have "foldl cstep [] pre = fs"
    using comp by (simp add: pre_def foldl_cstep_components cstep_def)
  moreover have "foldl cstep fs ups = take k fs"
    using k(2) by (simp add: ups_def foldl_cstep_up cstep_def)
  ultimately have "foldl cstep [] (pre @ ups @ rest) = take k ts @ drop k (ts @ [t])"
    using foldl_cstep_components [OF rest(2)] k(3) by (simp add: rest_def)
  moreover have "take k ts @ drop k (ts @ [t]) = ts @ [t]" using k(1) by simp
  ultimately have fold: "foldl cstep [] (pre @ ups @ rest) = ts @ [t]" by (rule trans)
  have ne: "pre @ ups @ rest \<noteq> []" using rest(1) by simp
  show ?thesis
    unfolding rest_def [symmetric] up all normalize_path_join [OF nos ne] fold Let_def by simp
qed

text \<open>C9: relative parent paths lead to the parent.  If the canonical paths of an image and of its
  parent consist of proper components and \<^verbatim>\<open>relative_path_to\<close> returns a path, then that path, appended
  to the directory of the image as \<^verbatim>\<open>vhd_find_parent\<close> does, normalises to the canonical path of the
  parent.\<close>

theorem relative_path_leads_to_parent:
  assumes "canonpath wd rp ex from = Inr (path_of (fs @ [f]))" "canonpath wd rp ex to = Inr (path_of (ts @ [t]))"
    and comp: "\<forall>c\<in>set (fs @ [f] @ ts @ [t]). component c"
    and rel: "relative_path_to wd rp ex from to = Inr rel"
  shows "normalize_path wd (dirname (path_of (fs @ [f])) @ slash # rel) = Inr (path_of (ts @ [t]))"
proof -
  define k where "k = lcp ts fs"
  have k: "k \<le> length ts" "k \<le> length fs" using lcp_le [of ts fs] by (auto simp: k_def)
  have nos: "\<forall>c\<in>set (fs @ [f]). slash \<notin> set c" "\<forall>c\<in>set (ts @ [t]). slash \<notin> set c"
    using comp by (auto simp: component_def)
  from rel assms(1,2) have len: "length (path_of (ts @ [t])) < MAX_NAME_LEN" "length (path_of (fs @ [f])) < MAX_NAME_LEN"
    by (auto simp: relative_path_to_def Let_def split: if_splits)
  have short: "\<forall>c\<in>set (ts @ [t] @ fs @ [f]). slash \<notin> set c \<and> length c < MAX_NAME_LEN"
    using nos len length_component_path [of _ "ts @ [t]"] length_component_path [of _ "fs @ [f]"] by fastforce
  have common: "count_common_nodes (tl (path_of (ts @ [t]))) (tl (path_of (fs @ [f]))) = k"
    using count_common_join [OF short] by (simp add: path_of_join k_def del: path_of_append)
  have target: "node_offset (path_of (ts @ [t])) (Suc k) = Some (join (drop k (ts @ [t])))"
    by (rule node_offset_path_of) (use nos k in auto)
  have nodes: "count_nodes (path_of (fs @ [f])) = Suc (length fs)"
    using count_nodes_path_of [OF nos(1)] by simp
  have "rel = (if length fs = k then ''./'' else concat (replicate (length fs - k) ''../'')) @ join (drop k (ts @ [t]))"
    using rel assms(1,2) k(2) unfolding relative_path_to_def
    by (auto simp: Let_def common target nodes up_nodes_def simp del: path_of_append split: if_splits option.splits)
  then show ?thesis
    using resolve_relative [OF comp, of wd, folded k_def] dirname_path_of [of f fs] comp
    by (simp del: path_of_append)
qed

theorem relative_path_leads_to_parent_witness:
  "normalize_path (Inr ''/'') (dirname ''/sr/a/child.vhd'' @ slash # ''../b/base.vhd'') = Inr ''/sr/b/base.vhd''"
proof -
  have p: "path_of ([''sr'', ''a''] @ [''child.vhd'']) = ''/sr/a/child.vhd''"
    "path_of ([''sr'', ''b''] @ [''base.vhd'']) = ''/sr/b/base.vhd''"
    by (simp_all add: path_of_def)
  have n: "normalize_path (Inr ''/'') ''/sr/a/child.vhd'' = Inr ''/sr/a/child.vhd''"
    "normalize_path (Inr ''/'') ''/sr/b/base.vhd'' = Inr ''/sr/b/base.vhd''"
    by code_simp+
  have c: "canonpath (Inr ''/'') Inr (\<lambda>_. True) ''/sr/a/child.vhd'' = Inr (path_of ([''sr'', ''a''] @ [''child.vhd'']))"
    "canonpath (Inr ''/'') Inr (\<lambda>_. True) ''/sr/b/base.vhd'' = Inr (path_of ([''sr'', ''b''] @ [''base.vhd'']))"
    unfolding p canonpath_def n by (simp_all add: starts_with_def)
  have r: "relative_path_to (Inr ''/'') Inr (\<lambda>_. True) ''/sr/a/child.vhd'' ''/sr/b/base.vhd'' = Inr ''../b/base.vhd''"
    by code_simp
  show ?thesis
    using relative_path_leads_to_parent [OF c _ r] unfolding p by (simp add: component_def)
qed

end
