(* ===== verification/Vhd_Meta.thy ===== *)
theory Vhd_Meta
  imports Vhd_Os Vhd_Paths
begin

text \<open>The metadata of an image (\<^verbatim>\<open>vhd/lib/libvhd.c\<close>): reading, caching and writing the footer,
  the header, the block allocation table (BAT) and the batmap, the extent of the metadata and of
  the data, and opening an image.

  A function with an out-parameter takes the previous value of the object and returns its value
  afterwards beside the error code.  The logging of errors is left out.\<close>

subsection \<open>Predicates on a context\<close>

definition vhd_type_dynamic :: "vhd_context \<Rightarrow> bool" where
  "vhd_type_dynamic s \<longleftrightarrow> ftr_type (footer s) = HD_TYPE_DYNAMIC \<or> ftr_type (footer s) = HD_TYPE_DIFF"

definition vhd_creator_tapdisk :: "vhd_context \<Rightarrow> bool" where
  "vhd_creator_tapdisk s \<longleftrightarrow> take 3 (crtr_app (footer s)) = str_bytes ''tap''"

definition vhd_disabled :: "vhd_context \<Rightarrow> bool" where
  "vhd_disabled s \<longleftrightarrow> ftr_cookie (footer s) = VHD_POISON_COOKIE"

definition vhd_validate_bat :: "vhd_bat \<Rightarrow> int" where
  "vhd_validate_bat b = (if bat b = None then - EINVAL else 0)"

text \<open>Sums of an \<^verbatim>\<open>off64_t\<close> and an unsigned size wrap around like the machine's.\<close>

definition off_add :: "int \<Rightarrow> nat \<Rightarrow> int" where
  "off_add a n = sint (word_of_int a + of_nat n :: 64 word)"

definition vhd_batmap_header_offset :: "vhd_header \<Rightarrow> int" where
  "vhd_batmap_header_offset h =
     off_add (to_off64 (table_offset h)) (vhd_bytes_padded (unat (max_bat_size h) * 4))"

definition vhd_parent_locator_count :: "vhd_header \<Rightarrow> nat" where
  "vhd_parent_locator_count h = length (loc h)"

subsection \<open>Footer and header\<close>

definition vhd_read_short_footer :: "vhd_footer \<Rightarrow> (int \<times> vhd_footer) vhd" where
  "vhd_read_short_footer footer0 = do {
     err \<leftarrow> vhd_seek 0 SEEK_END;
     if err \<noteq> 0 then ret (err, footer0)
     else do {
       eof \<leftarrow> vhd_position;
       if (int eof - 511) mod 512 \<noteq> 0 then ret (- EINVAL, footer0)
       else do {
         err \<leftarrow> vhd_seek (int eof - 511) SEEK_SET;
         if err \<noteq> 0 then ret (err, footer0)
         else do {
           err \<leftarrow> posix_memalign;
           if err \<noteq> 0 then ret (- err, footer0)
           else do {
             (_, buf) \<leftarrow> vhd_read (replicate 512 0);
             (let footer1 = vhd_footer_in (bytes_footer buf)
              in ret (vhd_validate_footer footer1, footer1))
           }
         }
       }
     }
   }"

definition vhd_read_footer_at :: "vhd_footer \<Rightarrow> int \<Rightarrow> (int \<times> vhd_footer) vhd" where
  "vhd_read_footer_at footer0 off = do {
     err \<leftarrow> vhd_seek off SEEK_SET;
     if err \<noteq> 0 then ret (err, footer0)
     else do {
       err \<leftarrow> posix_memalign;
       if err \<noteq> 0 then ret (- err, footer0)
       else do {
         (err, buf) \<leftarrow> vhd_read (replicate 512 0);
         if err \<noteq> 0 then ret (err, footer0)
         else (let footer1 = vhd_footer_in (bytes_footer buf)
               in ret (vhd_validate_footer footer1, footer1))
       }
     }
   }"

definition vhd_read_footer :: "vhd_footer \<Rightarrow> bool \<Rightarrow> (int \<times> vhd_footer) vhd" where
  "vhd_read_footer footer0 use_bkp_footer = do {
     err \<leftarrow> vhd_seek 0 SEEK_END;
     if err \<noteq> 0 then ret (err, footer0)
     else do {
       off \<leftarrow> vhd_position;
       if use_bkp_footer then vhd_read_footer_at footer0 0
       else do {
         (err, footer1) \<leftarrow> vhd_read_footer_at footer0 (int off - 512);
         if err \<noteq> - EINVAL then ret (err, footer1)
         else do {
           (err, footer2) \<leftarrow> vhd_read_short_footer footer1;
           if err \<noteq> - EINVAL then ret (err, footer2)
           else vhd_read_footer_at footer2 0
         }
       }
     }
   }"

definition vhd_read_header_at :: "vhd_header \<Rightarrow> int \<Rightarrow> (int \<times> vhd_header) vhd" where
  "vhd_read_header_at header0 off = do {
     dyn \<leftarrow> gets vhd_type_dynamic;
     if \<not> dyn then ret (- EINVAL, header0)
     else do {
       err \<leftarrow> vhd_seek off SEEK_SET;
       if err \<noteq> 0 then ret (err, header0)
       else do {
         err \<leftarrow> posix_memalign;
         if err \<noteq> 0 then ret (- err, header0)
         else do {
           (err, buf) \<leftarrow> vhd_read (replicate 1024 0);
           if err \<noteq> 0 then ret (err, header0)
           else (let header1 = vhd_header_in (bytes_header buf)
                 in ret (vhd_validate_header header1, header1))
         }
       }
     }
   }"

definition vhd_read_header :: "vhd_header \<Rightarrow> (int \<times> vhd_header) vhd" where
  "vhd_read_header header0 = do {
     dyn \<leftarrow> gets vhd_type_dynamic;
     if \<not> dyn then ret (- EINVAL, header0)
     else do {
       off \<leftarrow> gets (\<lambda>s. to_off64 (ftr_data_offset (footer s)));
       vhd_read_header_at header0 off
     }
   }"

definition vhd_get_footer :: "int vhd" where
  "vhd_get_footer = do {
     f \<leftarrow> gets footer;
     if vhd_validate_footer f = 0 then ret 0
     else do {
       (err, f) \<leftarrow> vhd_read_footer f False;
       modify (\<lambda>s. s\<lparr>footer := f\<rparr>);
       ret err
     }
   }"

definition vhd_get_header :: "int vhd" where
  "vhd_get_header = do {
     s \<leftarrow> State_Monad.get;
     if \<not> vhd_type_dynamic s then ret (- EINVAL)
     else if vhd_validate_header (header s) = 0 then ret 0
     else do {
       (err, h) \<leftarrow> vhd_read_header (header s);
       modify (\<lambda>s. s\<lparr>header := h\<rparr>);
       ret err
     }
   }"

subsection \<open>The block allocation table\<close>

definition words_of :: "byte list \<Rightarrow> 32 word list" where
  "words_of b = map (\<lambda>i. le_word (buf_get b (4 * i) 4)) [0..<length b div 4]"

definition bytes_of :: "32 word list \<Rightarrow> byte list" where
  "bytes_of ws = concat (map (le_bytes 4) ws)"

text \<open>The number of blocks the current size needs; the sum wraps at 64 bits, the result is cut to
  32.\<close>

definition vhd_blks :: "vhd_footer \<Rightarrow> nat" where
  "vhd_blks f = u32 (u64 (unat (curr_size f) + 2097151) div 2097152)"

definition vhd_put_bat :: "unit vhd" where
  "vhd_put_bat = modify (\<lambda>s. if vhd_type_dynamic s then s\<lparr>ctx_bat := zero_bat\<rparr> else s)"

definition vhd_read_bat :: "(int \<times> vhd_bat) vhd" where
  "vhd_read_bat = do {
     s \<leftarrow> State_Monad.get;
     if \<not> vhd_type_dynamic s then ret (- EINVAL, zero_bat)
     else if unat (max_bat_size (header s)) < vhd_blks (footer s) then ret (- EINVAL, zero_bat)
     else do {
       err \<leftarrow> posix_memalign;
       if err \<noteq> 0 then ret (- err, zero_bat)
       else do {
         err \<leftarrow> vhd_seek (to_off64 (table_offset (header s))) SEEK_SET;
         if err \<noteq> 0 then ret (err, zero_bat)
         else do {
           (err, buf) \<leftarrow> vhd_read (replicate (vhd_bytes_padded (vhd_blks (footer s) * 4)) 0);
           if err \<noteq> 0 then ret (err, zero_bat)
           else ret (0, \<lparr> bat_spb = unat (block_size (header s)) div 512,
                          entries = vhd_blks (footer s),
                          bat = Some (vhd_bat_in (vhd_blks (footer s)) (words_of buf)) \<rparr>)
         }
       }
     }
   }"

definition vhd_get_bat :: "int vhd" where
  "vhd_get_bat = do {
     s \<leftarrow> State_Monad.get;
     if \<not> vhd_type_dynamic s then ret (- EINVAL)
     else if vhd_validate_bat (ctx_bat s) = 0 then ret 0
     else do {
       vhd_put_bat;
       (err, b) \<leftarrow> vhd_read_bat;
       modify (\<lambda>s. s\<lparr>ctx_bat := b\<rparr>);
       ret err
     }
   }"

subsection \<open>The batmap\<close>

definition zero_batmap_header :: vhd_batmap_header where
  "zero_batmap_header = bytes_batmap_header (replicate 512 0)"

definition vhd_read_batmap_header :: "vhd_batmap \<Rightarrow> (int \<times> vhd_batmap) vhd" where
  "vhd_read_batmap_header bm = do {
     off \<leftarrow> gets (\<lambda>s. vhd_batmap_header_offset (header s));
     err \<leftarrow> vhd_seek off SEEK_SET;
     if err \<noteq> 0 then ret (err, bm\<lparr>bm_header := zero_batmap_header\<rparr>)
     else do {
       err \<leftarrow> posix_memalign;
       if err \<noteq> 0 then ret (- err, bm\<lparr>bm_header := zero_batmap_header\<rparr>)
       else do {
         (err, buf) \<leftarrow> vhd_read (replicate (vhd_bytes_padded 512) 0);
         if err \<noteq> 0 then ret (err, bm\<lparr>bm_header := zero_batmap_header\<rparr>)
         else ret (0, bm\<lparr>bm_header := vhd_batmap_header_in (bytes_batmap_header (take 512 buf))\<rparr>)
       }
     }
   }"

definition vhd_has_batmap :: "bool vhd" where
  "vhd_has_batmap = do {
     s \<leftarrow> State_Monad.get;
     if \<not> vhd_type_dynamic s then ret False
     else if \<not> vhd_creator_tapdisk s then ret False
     else if crtr_ver (footer s) \<le> VHD_VERSION 0 1 then ret False
     else if crtr_ver (footer s) \<ge> VHD_VERSION 1 2 then ret True
     else if vhd_validate_batmap_header (bm_header (batmap s)) = 0 then ret True
     else do {
       (err, bm) \<leftarrow> vhd_read_batmap_header (batmap s);
       modify (\<lambda>s. s\<lparr>batmap := bm\<rparr>);
       if err \<noteq> 0 then ret False
       else ret (vhd_validate_batmap_header (bm_header bm) = 0)
     }
   }"

definition vhd_read_batmap_map :: "vhd_batmap \<Rightarrow> (int \<times> vhd_batmap) vhd" where
  "vhd_read_batmap_map bm = do {
     map_size \<leftarrow> gets (\<lambda>s. batmap_map_size (footer s));
     if \<not> vhd_sectors_to_bytes (unat (batmap_size (bm_header bm))) \<ge> map_size
     then do { panic; ret (- EINVAL, bm) }
     else do {
       err \<leftarrow> posix_memalign;
       if err \<noteq> 0 then ret (- err, bm\<lparr>bm_map := None\<rparr>)
       else do {
         err \<leftarrow> vhd_seek (to_off64 (batmap_offset (bm_header bm))) SEEK_SET;
         if err \<noteq> 0 then ret (err, bm\<lparr>bm_map := None\<rparr>)
         else do {
           (err, buf) \<leftarrow> vhd_read (replicate map_size 0);
           if err \<noteq> 0 then ret (err, bm\<lparr>bm_map := None\<rparr>)
           else ret (0, bm\<lparr>bm_map := Some buf\<rparr>)
         }
       }
     }
   }"

text \<open>The second component is \<open>None\<close> when the call returns before it touches its argument.\<close>

definition vhd_read_batmap :: "(int \<times> vhd_batmap option) vhd" where
  "vhd_read_batmap = do {
     has \<leftarrow> vhd_has_batmap;
     if \<not> has then ret (- EINVAL, None)
     else do {
       (err, bm) \<leftarrow> vhd_read_batmap_header zero_batmap;
       if err \<noteq> 0 then ret (err, Some bm)
       else if vhd_validate_batmap_header (bm_header bm) \<noteq> 0
       then ret (vhd_validate_batmap_header (bm_header bm), Some bm)
       else do {
         (err, bm) \<leftarrow> vhd_read_batmap_map bm;
         if err \<noteq> 0 then ret (err, Some bm)
         else do {
           err \<leftarrow> gets (\<lambda>s. vhd_validate_batmap (footer s) bm);
           if err \<noteq> 0 then ret (err, Some zero_batmap)
           else ret (0, Some bm)
         }
       }
     }
   }"

definition vhd_put_batmap :: "unit vhd" where
  "vhd_put_batmap = do {
     dyn \<leftarrow> gets vhd_type_dynamic;
     if \<not> dyn then ret ()
     else do {
       has \<leftarrow> vhd_has_batmap;
       if \<not> has then ret () else modify (\<lambda>s. s\<lparr>batmap := zero_batmap\<rparr>)
     }
   }"

definition vhd_get_batmap :: "int vhd" where
  "vhd_get_batmap = do {
     has \<leftarrow> vhd_has_batmap;
     if \<not> has then ret (- EINVAL)
     else do {
       err \<leftarrow> gets (\<lambda>s. vhd_validate_batmap (footer s) (batmap s));
       if err = 0 then ret 0
       else do {
         vhd_put_batmap;
         (err, bm) \<leftarrow> vhd_read_batmap;
         (case bm of None \<Rightarrow> ret () | Some b \<Rightarrow> modify (\<lambda>s. s\<lparr>batmap := b\<rparr>));
         ret err
       }
     }
   }"

text \<open>The callers in this library test and update the batmap of the context itself.  A block within
  \<^verbatim>\<open>batmap_size\<close> but beyond the map in memory is an access out of bounds.\<close>

definition batmap_block_ok :: "vhd_batmap \<Rightarrow> nat \<Rightarrow> bool" where
  "batmap_block_ok bm block \<longleftrightarrow> block < u32 (unat (batmap_size (bm_header bm)) * 4096)"

definition vhd_batmap_test :: "nat \<Rightarrow> bool vhd" where
  "vhd_batmap_test block = do {
     has \<leftarrow> vhd_has_batmap;
     bm \<leftarrow> gets batmap;
     (case bm_map bm of
        None \<Rightarrow> ret False
      | Some m \<Rightarrow>
          if \<not> has then ret False
          else if \<not> batmap_block_ok bm block then ret False
          else if block div 8 < length m then ret (test_bit m block)
          else do { panic; ret False })
   }"

definition vhd_batmap_set :: "nat \<Rightarrow> unit vhd" where
  "vhd_batmap_set block = do {
     has \<leftarrow> vhd_has_batmap;
     bm \<leftarrow> gets batmap;
     (case bm_map bm of
        None \<Rightarrow> ret ()
      | Some m \<Rightarrow>
          if \<not> has then ret ()
          else if \<not> batmap_block_ok bm block then ret ()
          else if block div 8 < length m
          then modify (\<lambda>s. s\<lparr>batmap := bm\<lparr>bm_map := Some (set_bit m block)\<rparr>\<rparr>)
          else panic)
   }"

definition vhd_batmap_clear :: "nat \<Rightarrow> unit vhd" where
  "vhd_batmap_clear block = do {
     has \<leftarrow> vhd_has_batmap;
     bm \<leftarrow> gets batmap;
     (case bm_map bm of
        None \<Rightarrow> ret ()
      | Some m \<Rightarrow>
          if \<not> has then ret ()
          else if \<not> batmap_block_ok bm block then ret ()
          else if block div 8 < length m
          then modify (\<lambda>s. s\<lparr>batmap := bm\<lparr>bm_map := Some (clear_bit m block)\<rparr>\<rparr>)
          else panic)
   }"

subsection \<open>Extents\<close>

definition locators_end :: "prt_loc list \<Rightarrow> int \<Rightarrow> int" where
  "locators_end ls eom = foldl (\<lambda>eom l. if code l = PLAT_CODE_NONE then eom
     else max eom (off_add (to_off64 (loc_data_offset l)) (vhd_parent_locator_size l))) eom ls"

definition vhd_end_of_headers :: "(int \<times> int) vhd" where
  "vhd_end_of_headers = do {
     s \<leftarrow> State_Monad.get;
     if \<not> vhd_type_dynamic s then ret (0, 0)
     else (let eom = off_add (to_off64 (ftr_data_offset (footer s))) 1024;
               bat_bytes = u32 (vhd_bytes_padded (unat (max_bat_size (header s)) * 4));
               bat_end = off_add (to_off64 (table_offset (header s))) bat_bytes;
               eom = max eom bat_end
           in do {
             has \<leftarrow> vhd_has_batmap;
             if has then do {
               err \<leftarrow> vhd_get_batmap;
               if err \<noteq> 0 then ret (err, 0)
               else do {
                 bm \<leftarrow> gets batmap;
                 (let hdr_end = off_add (vhd_batmap_header_offset (header s))
                                  (vhd_sectors_to_bytes (secs_round_up_no_zero 512));
                      eom = max eom hdr_end;
                      map_end = off_add (to_off64 (batmap_offset (bm_header bm)))
                                  (vhd_sectors_to_bytes (unat (batmap_size (bm_header bm))));
                      eom = max eom map_end
                  in ret (0, locators_end (loc (header s)) eom))
               }
             } else ret (0, locators_end (loc (header s)) eom)
           })
   }"

text \<open>The running maximum is compared as an unsigned 64-bit number.\<close>

definition vhd_end_of_blocks :: "nat \<Rightarrow> 32 word list \<Rightarrow> 64 word \<Rightarrow> 64 word" where
  "vhd_end_of_blocks sz bs m = foldl (\<lambda>m blk. if blk = DD_BLK_UNUSED then m
     else max (ucast blk + of_nat sz) m) m bs"

definition vhd_end_of_data :: "(int \<times> int) vhd" where
  "vhd_end_of_data = do {
     dyn \<leftarrow> gets vhd_type_dynamic;
     if \<not> dyn then do {
       err \<leftarrow> vhd_seek 0 SEEK_END;
       if err \<noteq> 0 then ret (err, 0)
       else do {
         max \<leftarrow> vhd_position;
         ret (0, int max - 512)
       }
     } else do {
       (err, max) \<leftarrow> vhd_end_of_headers;
       if err \<noteq> 0 then ret (err, 0)
       else do {
         err \<leftarrow> vhd_get_bat;
         if err \<noteq> 0 then ret (err, 0)
         else do {
           s \<leftarrow> State_Monad.get;
           (let m = vhd_end_of_blocks (spb s + bm_secs s)
                      (take (entries (ctx_bat s)) (case bat (ctx_bat s) of None \<Rightarrow> [] | Some b \<Rightarrow> b))
                      (word_of_int (max div 512))
            in ret (0, to_off64 (push_bit 9 m)))
         }
       }
     }
   }"

definition vhd_hidden :: "(int \<times> byte) vhd" where
  "vhd_hidden = do {
     s \<leftarrow> State_Monad.get;
     if vhd_type_dynamic s \<and> vhd_creator_tapdisk s \<and>
        (crtr_ver (footer s) = VHD_VERSION 0 1 \<or> crtr_ver (footer s) = VHD_VERSION 1 1)
     then do {
       (err, copy) \<leftarrow> vhd_read_footer_at zero_footer 0;
       if err \<noteq> 0 then ret (err, 0) else ret (0, hidden copy)
     } else ret (0, hidden (footer s))
   }"

subsection \<open>Writing metadata\<close>

definition vhd_footer_offset_at_eof :: "(int \<times> int) vhd" where
  "vhd_footer_offset_at_eof = do {
     err \<leftarrow> vhd_seek 0 SEEK_END;
     if err \<noteq> 0 then ret (err, 0)
     else do {
       pos \<leftarrow> vhd_position;
       ret (0, int pos - 512)
     }
   }"

definition vhd_write_footer_at :: "vhd_footer \<Rightarrow> int \<Rightarrow> int vhd" where
  "vhd_write_footer_at footer0 off = do {
     err \<leftarrow> posix_memalign;
     if err \<noteq> 0 then ret (- err)
     else (let f = footer0\<lparr>ftr_checksum := vhd_checksum_footer footer0\<rparr> in
       if vhd_validate_footer f \<noteq> 0 then ret (vhd_validate_footer f)
       else do {
         err \<leftarrow> vhd_seek off SEEK_SET;
         if err \<noteq> 0 then ret err
         else vhd_write (footer_bytes (vhd_footer_out f))
       })
   }"

definition vhd_write_footer :: "vhd_footer \<Rightarrow> int vhd" where
  "vhd_write_footer footer0 = do {
     blk \<leftarrow> gets is_block;
     (err, off) \<leftarrow> (if blk then vhd_footer_offset_at_eof else vhd_end_of_data);
     if err \<noteq> 0 then ret err
     else do {
       err \<leftarrow> vhd_write_footer_at footer0 off;
       if err \<noteq> 0 then ret err
       else do {
         err \<leftarrow> (if \<not> blk then sys_ftruncate (nat (off + 512)) else ret 0);
         if err \<noteq> 0 then ret err
         else do {
           dyn \<leftarrow> gets vhd_type_dynamic;
           if \<not> dyn then ret 0 else vhd_write_footer_at footer0 0
         }
       }
     }
   }"

definition vhd_write_header_at :: "vhd_header \<Rightarrow> int \<Rightarrow> int vhd" where
  "vhd_write_header_at header0 off = do {
     dyn \<leftarrow> gets vhd_type_dynamic;
     if \<not> dyn then ret (- EINVAL)
     else do {
       err \<leftarrow> posix_memalign;
       if err \<noteq> 0 then ret (- err)
       else (let h = header0\<lparr>hdr_checksum := vhd_checksum_header header0\<rparr> in
         if vhd_validate_header h \<noteq> 0 then ret (vhd_validate_header h)
         else do {
           err \<leftarrow> vhd_seek off SEEK_SET;
           if err \<noteq> 0 then ret err
           else vhd_write (header_bytes (vhd_header_out h))
         })
     }
   }"

definition vhd_write_header :: "vhd_header \<Rightarrow> int vhd" where
  "vhd_write_header header0 = do {
     s \<leftarrow> State_Monad.get;
     if \<not> vhd_type_dynamic s then ret (- EINVAL)
     else vhd_write_header_at header0 (to_off64 (ftr_data_offset (footer s)))
   }"

text \<open>Copying more bytes than the table in memory holds is an access out of bounds.\<close>

definition vhd_write_bat :: "vhd_bat \<Rightarrow> int vhd" where
  "vhd_write_bat b = do {
     s \<leftarrow> State_Monad.get;
     if \<not> vhd_type_dynamic s then ret (- EINVAL)
     else if vhd_validate_bat (ctx_bat s) \<noteq> 0 then ret (vhd_validate_bat (ctx_bat s))
     else case bat b of
       None \<Rightarrow> ret (- EINVAL)
     | Some ws \<Rightarrow>
         (let n = vhd_bytes_padded (entries b * 4) in do {
            err \<leftarrow> vhd_seek (to_off64 (table_offset (header s))) SEEK_SET;
            if err \<noteq> 0 then ret err
            else do {
              err \<leftarrow> posix_memalign;
              if err \<noteq> 0 then ret (- err)
              else if 4 * length ws < n then do { panic; ret (- EINVAL) }
              else vhd_write (take n (bytes_of (vhd_bat_out (entries b) ws)))
            }
          })
   }"

text \<open>Writing the header of a batmap leaves the caller's structure in disk order.  The size
  written is that of the whole in-memory \<^verbatim>\<open>vhd_batmap_t\<close> (header and pointer, 520 bytes), padded.\<close>

definition vhd_write_batmap_header :: "vhd_batmap \<Rightarrow> (int \<times> vhd_batmap) vhd" where
  "vhd_write_batmap_header bm = do {
     off \<leftarrow> gets (\<lambda>s. vhd_batmap_header_offset (header s));
     (let n = vhd_bytes_padded 520 in do {
        err \<leftarrow> vhd_seek off SEEK_SET;
        if err \<noteq> 0 then ret (err, bm)
        else do {
          err \<leftarrow> posix_memalign;
          if err \<noteq> 0 then ret (- err, bm)
          else (let h = vhd_batmap_header_out (bm_header bm) in do {
            err \<leftarrow> vhd_write (buf_put (replicate n 0) 0 (batmap_header_bytes h));
            ret (err, bm\<lparr>bm_header := h\<rparr>)
          })
        }
      })
   }"

definition vhd_write_batmap :: "vhd_batmap \<Rightarrow> int vhd" where
  "vhd_write_batmap bm = do {
     has \<leftarrow> vhd_has_batmap;
     if \<not> has then ret 0
     else do {
       s \<leftarrow> State_Monad.get;
       (let b = bm\<lparr>bm_header := (bm_header bm)\<lparr>bmh_checksum := vhd_checksum_batmap (footer s) bm\<rparr>\<rparr>;
            map_size = batmap_map_size (footer s) in
        case bm_map b of
          None \<Rightarrow> ret 0
        | Some m \<Rightarrow>
            if \<not> vhd_sectors_to_bytes (unat (batmap_size (bm_header b))) \<ge> map_size
            then do { panic; ret 0 }
            else do {
              err \<leftarrow> vhd_seek (to_off64 (batmap_offset (bm_header b))) SEEK_SET;
              if err \<noteq> 0 then ret 0
              else do {
                err \<leftarrow> posix_memalign;
                if err \<noteq> 0 then ret 0
                else if length m < map_size then do { panic; ret 0 }
                else do {
                  err \<leftarrow> vhd_write (take map_size m);
                  if err \<noteq> 0 then ret 0
                  else do {
                    err \<leftarrow> vhd_seek (vhd_batmap_header_offset (header s)) SEEK_SET;
                    if err \<noteq> 0 then ret 0
                    else do {
                      err \<leftarrow> posix_memalign;
                      if err \<noteq> 0 then ret 0
                      else do {
                        vhd_write (batmap_header_bytes (vhd_batmap_header_out (bm_header b)));
                        ret 0
                      }
                    }
                  }
                }
              }
            })
     }
   }"

subsection \<open>Opening and closing\<close>

abbreviation (input) VHD_OPEN_RDONLY :: nat where "VHD_OPEN_RDONLY \<equiv> 0x1"
abbreviation (input) VHD_OPEN_RDWR :: nat where "VHD_OPEN_RDWR \<equiv> 0x2"
abbreviation (input) VHD_OPEN_FAST :: nat where "VHD_OPEN_FAST \<equiv> 0x4"
abbreviation (input) VHD_OPEN_STRICT :: nat where "VHD_OPEN_STRICT \<equiv> 0x8"
abbreviation (input) VHD_OPEN_IGNORE_DISABLED :: nat where "VHD_OPEN_IGNORE_DISABLED \<equiv> 0x10"
abbreviation (input) VHD_OPEN_CACHED :: nat where "VHD_OPEN_CACHED \<equiv> 0x20"
abbreviation (input) VHD_OPEN_IO_WRITE_SPARSE :: nat where "VHD_OPEN_IO_WRITE_SPARSE \<equiv> 0x40"
abbreviation (input) VHD_OPEN_USE_BKP_FOOTER :: nat where "VHD_OPEN_USE_BKP_FOOTER \<equiv> 0x80"
abbreviation (input) VHD_HEADER_MAX_RETRIES :: nat where "VHD_HEADER_MAX_RETRIES \<equiv> 10"

definition vhd_flag_test :: "nat \<Rightarrow> nat \<Rightarrow> bool" where
  "vhd_flag_test flags f \<longleftrightarrow> and flags f \<noteq> 0"

definition vhd_flag_clear :: "nat \<Rightarrow> nat \<Rightarrow> nat" where
  "vhd_flag_clear flags f = flags - and flags f"

definition errno_of :: "fault \<Rightarrow> int" where
  "errno_of x = (case x of FErr e \<Rightarrow> if e \<le> 0 then EIO else e | _ \<Rightarrow> 0)"

text \<open>\<^verbatim>\<open>stat\<close> and \<^verbatim>\<open>open\<close> of an existing file.\<close>

definition sys_lookup :: "string \<Rightarrow> (int \<times> bool) vhd" where
  "sys_lookup path = State (\<lambda>s. case pop_fault s of (x, t) \<Rightarrow>
     (if errno_of x \<noteq> 0 then ((- errno_of x, False), t)
      else case files t path of None \<Rightarrow> ((- ENOENT, False), t) | Some f \<Rightarrow> ((0, fblk f), t)))"

definition namedup :: "string \<Rightarrow> (int \<times> string option) vhd" where
  "namedup name =
     (if length name \<ge> MAX_NAME_LEN then ret (- ENAMETOOLONG, None)
      else do {
        err \<leftarrow> posix_memalign;
        if err \<noteq> 0 then ret (- ENOMEM, None) else ret (0, Some name)
      })"

definition set_geometry :: "unit vhd" where
  "set_geometry = modify (\<lambda>s. let n = unat (block_size (header s)) div 512
     in s\<lparr>spb := n, bm_secs := secs_round_up_no_zero (n div 8)\<rparr>)"

definition vhd_open_fast :: "int vhd" where
  "vhd_open_fast = do {
     err \<leftarrow> posix_memalign;
     if err \<noteq> 0 then ret (- err)
     else do {
       (err, buf) \<leftarrow> vhd_read (replicate 1536 0);
       if err \<noteq> 0 then ret err
       else do {
         modify (\<lambda>s. s\<lparr>footer := vhd_footer_in (bytes_footer (take 512 buf))\<rparr>);
         f \<leftarrow> gets footer;
         if vhd_validate_footer f \<noteq> 0 then ret (vhd_validate_footer f)
         else do {
           dyn \<leftarrow> gets vhd_type_dynamic;
           if \<not> dyn then ret 0
           else do {
             h0 \<leftarrow> gets header;
             (err, h) \<leftarrow> (if ftr_data_offset f \<noteq> 512 then vhd_read_header h0
                          else let h = vhd_header_in (bytes_header (drop 512 buf))
                               in ret (vhd_validate_header h, h));
             modify (\<lambda>s. s\<lparr>header := h\<rparr>);
             if err \<noteq> 0 then ret err
             else do { set_geometry; ret 0 }
           }
         }
       }
     }
   }"

primrec read_header_retry :: "nat \<Rightarrow> int \<Rightarrow> int vhd" where
  "read_header_retry 0 err = ret err"
| "read_header_retry (Suc n) err = do {
     h0 \<leftarrow> gets header;
     (err, h) \<leftarrow> vhd_read_header h0;
     modify (\<lambda>s. s\<lparr>header := h\<rparr>);
     if err = 0 then ret 0 else read_header_retry n err
   }"

text \<open>The part of \<^verbatim>\<open>vhd_open\<close> after the descriptor has been obtained.\<close>

definition vhd_open_read :: "nat \<Rightarrow> int vhd" where
  "vhd_open_read flags = do {
     file \<leftarrow> gets file_name;
     (err, blk) \<leftarrow> sys_lookup file;
     if err \<noteq> 0 then ret err
     else do {
       modify (\<lambda>s. s\<lparr>is_block := blk\<rparr>);
       if vhd_flag_test flags VHD_OPEN_FAST then vhd_open_fast
       else do {
         f0 \<leftarrow> gets footer;
         (err, f) \<leftarrow> vhd_read_footer f0 (vhd_flag_test flags VHD_OPEN_USE_BKP_FOOTER);
         modify (\<lambda>s. s\<lparr>footer := f\<rparr>);
         if err \<noteq> 0 then ret err
         else do {
           dis \<leftarrow> gets vhd_disabled;
           if \<not> vhd_flag_test flags VHD_OPEN_IGNORE_DISABLED \<and> dis then ret (- EINVAL)
           else do {
             dyn \<leftarrow> gets vhd_type_dynamic;
             err \<leftarrow> (if dyn then read_header_retry VHD_HEADER_MAX_RETRIES 0 else ret 0);
             if err \<noteq> 0 then ret err
             else do {
               (if dyn then set_geometry else ret ());
               tap \<leftarrow> gets vhd_creator_tapdisk;
               if tap \<and> crtr_ver f = 0x00000001 then ret (- EINVAL) else ret 0
             }
           }
         }
       }
     }
   }"

text \<open>Opening without \<^verbatim>\<open>VHD_OPEN_CACHED\<close>, for which \<^verbatim>\<open>vhd_cache_load\<close> has nothing to do, of a
  file that is not a DRBD device.\<close>

definition vhd_open :: "string \<Rightarrow> nat \<Rightarrow> int vhd" where
  "vhd_open file flags0 =
     (let flags = (if vhd_flag_test flags0 VHD_OPEN_STRICT
                   then vhd_flag_clear flags0 VHD_OPEN_FAST else flags0) in do {
        modify (\<lambda>s. (clear_ctx s)\<lparr>oflags := flags\<rparr>);
        (err, _) \<leftarrow> (if vhd_flag_test flags VHD_OPEN_RDONLY then sys_lookup file else ret (0, False));
        if err \<noteq> 0 then ret err
        else do {
          (err, name) \<leftarrow> namedup file;
          (case name of None \<Rightarrow> ret err
           | Some nm \<Rightarrow> do {
               modify (\<lambda>s. s\<lparr>file_name := nm\<rparr>);
               (err, _) \<leftarrow> sys_lookup nm;
               if err \<noteq> 0 then do { modify clear_ctx; ret err }
               else do {
                 modify (\<lambda>s. s\<lparr>fd := Some nm\<rparr>);
                 err \<leftarrow> vhd_open_read flags;
                 if err \<noteq> 0 then do { modify clear_ctx; ret err } else ret 0
               }
             })
        }
      })"

definition vhd_close :: "unit vhd" where
  "vhd_close = modify clear_ctx"

text \<open>A computation on another context: it starts from \<open>c\<close> and shares the operating system with
  the current one.\<close>

definition share_os :: "vhd_context \<Rightarrow> vhd_context \<Rightarrow> vhd_context" where
  "share_os os c = c\<lparr>files := files os, faults := faults os, panicked := panicked os\<rparr>"

definition in_ctx :: "vhd_context \<Rightarrow> 'a vhd \<Rightarrow> ('a \<times> vhd_context) vhd" where
  "in_ctx c m = State (\<lambda>s. case run_state m (share_os s c) of (r, t) \<Rightarrow> ((r, t), share_os t s))"

lemma wp_sys_lookup_ok [wp_ok]:
  "faults s = [] \<Longrightarrow> files s path = Some f \<Longrightarrow> wp (sys_lookup path) Q s = Q (0, fblk f) s"
  by (simp add: sys_lookup_def wp_def pop_fault_nil errno_of_def)

end
