(* ===== verification/Vhd_Block.thy ===== *)
theory Vhd_Block
  imports Vhd_Meta
begin

text \<open>Access to single blocks of a dynamic image (\<^verbatim>\<open>vhd/lib/libvhd.c\<close>): the sector bitmap in front of
  a block, its data, and the position of a sector.\<close>

definition bat_entry :: "vhd_context \<Rightarrow> nat \<Rightarrow> 32 word option" where
  "bat_entry s block = (case bat (ctx_bat s) of None \<Rightarrow> None
     | Some b \<Rightarrow> if block < length b then Some (b ! block) else None)"

definition vhd_read_bitmap :: "nat \<Rightarrow> (int \<times> byte list option) vhd" where
  "vhd_read_bitmap block = do {
     dyn \<leftarrow> gets vhd_type_dynamic;
     if \<not> dyn then ret (- EINVAL, None)
     else do {
       err \<leftarrow> vhd_get_bat;
       if err \<noteq> 0 then ret (err, None)
       else do {
         s \<leftarrow> State_Monad.get;
         if block \<ge> entries (ctx_bat s) then ret (- ERANGE, None)
         else case bat_entry s block of
           None \<Rightarrow> do { panic; ret (- EINVAL, None) }
         | Some blk \<Rightarrow>
             if blk = DD_BLK_UNUSED then ret (- EINVAL, None)
             else do {
               err \<leftarrow> vhd_seek (int (vhd_sectors_to_bytes (unat blk))) SEEK_SET;
               if err \<noteq> 0 then ret (err, None)
               else do {
                 err \<leftarrow> posix_memalign;
                 if err \<noteq> 0 then ret (- err, None)
                 else do {
                   (err, buf) \<leftarrow> vhd_read (replicate (vhd_bytes_padded (spb s div 8)) 0);
                   if err \<noteq> 0 then ret (err, None) else ret (0, Some buf)
                 }
               }
             }
       }
     }
   }"

text \<open>The end of the file is compared with the end of the block; the number of bytes to read and to
  clear are the source's, and the buffer must be able to hold them.\<close>

definition vhd_read_at :: "nat \<Rightarrow> nat \<Rightarrow> nat \<Rightarrow> byte list \<Rightarrow> (int \<times> byte list) vhd" where
  "vhd_read_at block from n buf = do {
     err \<leftarrow> vhd_get_bat;
     if err \<noteq> 0 then ret (err, buf)
     else do {
       s \<leftarrow> State_Monad.get;
       if block \<ge> entries (ctx_bat s) then ret (- ERANGE, buf)
       else case bat_entry s block of
         None \<Rightarrow> do { panic; ret (- EINVAL, buf) }
       | Some blk \<Rightarrow>
           if blk = DD_BLK_UNUSED then ret (- EINVAL, buf)
           else (let off = vhd_sectors_to_bytes (unat blk + bm_secs s);
                     bsize = unat (block_size (header s)) in do {
             (err, end) \<leftarrow> vhd_footer_offset_at_eof;
             if err \<noteq> 0 then ret (err, buf)
             else (let short = end < int off + int bsize;
                       m = (if short then end - int off else int n) in
               if m < 0 \<or> length buf < nat m \<or> short \<and> length buf < bsize
               then do { panic; ret (- EINVAL, buf) }
               else do {
                 err \<leftarrow> vhd_seek (int off + int (vhd_sectors_to_bytes from)) SEEK_SET;
                 (let buf1 = (if short then buf_put buf (nat m) (replicate (bsize - nat m) 0) else buf) in
                  if err \<noteq> 0 then ret (err, buf1)
                  else do {
                    (err, data) \<leftarrow> vhd_read (take (nat m) buf1);
                    ret (err, data @ drop (nat m) buf1)
                  })
               })
           })
     }
   }"

definition vhd_read_block :: "nat \<Rightarrow> (int \<times> byte list option) vhd" where
  "vhd_read_block block = do {
     s \<leftarrow> State_Monad.get;
     if \<not> vhd_type_dynamic s then ret (- EINVAL, None)
     else do {
       err \<leftarrow> posix_memalign;
       if err \<noteq> 0 then ret (- err, None)
       else do {
         (err, buf) \<leftarrow> vhd_read_at block 0 (vhd_sectors_to_bytes (spb s))
                         (replicate (vhd_sectors_to_bytes (spb s)) 0);
         if err \<noteq> 0 then ret (err, None) else ret (0, Some buf)
       }
     }
   }"

text \<open>The writers refuse a buffer that is not aligned to a sector; \<open>aligned\<close> says whether the
  caller's is.\<close>

definition vhd_write_bitmap :: "nat \<Rightarrow> bool \<Rightarrow> byte list \<Rightarrow> int vhd" where
  "vhd_write_bitmap block aligned bitmap = do {
     s \<leftarrow> State_Monad.get;
     if \<not> vhd_type_dynamic s then ret (- EINVAL)
     else if vhd_validate_bat (ctx_bat s) \<noteq> 0 then ret (vhd_validate_bat (ctx_bat s))
     else if block \<ge> entries (ctx_bat s) then ret (- ERANGE)
     else if \<not> aligned then ret (- EINVAL)
     else case bat_entry s block of
       None \<Rightarrow> do { panic; ret (- EINVAL) }
     | Some blk \<Rightarrow>
         if blk = DD_BLK_UNUSED then ret (- EINVAL)
         else do {
           err \<leftarrow> vhd_seek (int (vhd_sectors_to_bytes (unat blk))) SEEK_SET;
           if err \<noteq> 0 then ret err
           else if length bitmap < vhd_sectors_to_bytes (bm_secs s) then do { panic; ret (- EINVAL) }
           else vhd_write (take (vhd_sectors_to_bytes (bm_secs s)) bitmap)
         }
   }"

definition vhd_write_block :: "nat \<Rightarrow> bool \<Rightarrow> byte list \<Rightarrow> int vhd" where
  "vhd_write_block block aligned data = do {
     s \<leftarrow> State_Monad.get;
     if \<not> vhd_type_dynamic s then ret (- EINVAL)
     else if vhd_validate_bat (ctx_bat s) \<noteq> 0 then ret (vhd_validate_bat (ctx_bat s))
     else if block \<ge> entries (ctx_bat s) then ret (- ERANGE)
     else if \<not> aligned then ret (- EINVAL)
     else case bat_entry s block of
       None \<Rightarrow> do { panic; ret (- EINVAL) }
     | Some blk \<Rightarrow>
         if blk = DD_BLK_UNUSED then ret (- EINVAL)
         else do {
           err \<leftarrow> vhd_seek (int (vhd_sectors_to_bytes (unat blk + bm_secs s))) SEEK_SET;
           if err \<noteq> 0 then ret err
           else if length data < vhd_sectors_to_bytes (spb s) then do { panic; ret (- EINVAL) }
           else vhd_write (take (vhd_sectors_to_bytes (spb s)) data)
         }
   }"

text \<open>For an image that is not dynamic the sector itself is returned as the error code.\<close>

definition vhd_offset :: "nat \<Rightarrow> nat \<Rightarrow> (int \<times> nat) vhd" where
  "vhd_offset sector off0 = do {
     s \<leftarrow> State_Monad.get;
     if \<not> vhd_type_dynamic s then ret (sint (of_nat sector :: 32 word), off0)
     else do {
       err \<leftarrow> vhd_get_bat;
       if err \<noteq> 0 then ret (err, off0)
       else do {
         t \<leftarrow> State_Monad.get;
         if spb t = 0 then do { panic; ret (- EINVAL, off0) }
         else case bat_entry t (sector div spb t) of
           None \<Rightarrow> do { panic; ret (- EINVAL, off0) }
         | Some blk \<Rightarrow>
             if blk = DD_BLK_UNUSED then ret (0, unat DD_BLK_UNUSED)
             else ret (0, u32 (unat blk + bm_secs t + sector mod spb t))
       }
     }
   }"

end
