(* ===== verification/Vhd_Samples.thy ===== *)
theory Vhd_Samples
  imports Vhd_Meta
begin

text \<open>Concrete contexts at which the properties of the library are instantiated.\<close>

definition sample_env :: os_env where
  "sample_env = \<lparr> env_uuid_is_null = (\<lambda>u. list_all (\<lambda>b. b = 0) u), env_uuid_generate = replicate 16 7,
     env_time = 1000000000, env_cwd = Inr ''/'', env_realpath = Inr, env_mtime = (\<lambda>_. 1000000000) \<rparr>"

definition empty_file :: vfile where
  "empty_file = \<lparr> fdata = (\<lambda>_. 0), fsize = 0, fblk = False \<rparr>"

definition blank_ctx :: vhd_context where
  "blank_ctx = \<lparr> env = sample_env, files = (\<lambda>_. None), faults = [], panicked = False, pagesize = 4096,
     fd = None, file_name = [], oflags = 0, is_block = False, offset = 0, spb = 0, bm_secs = 0,
     header = zero_header, footer = zero_footer, ctx_bat = zero_bat, batmap = zero_batmap, custom_parent = None \<rparr>"

text \<open>A differencing image beside its parent, just created.\<close>

definition sample_child :: vhd_context where
  "sample_child = blank_ctx\<lparr>files := [''/sr/a/child.vhd'' \<mapsto> empty_file, ''/sr/b/base.vhd'' \<mapsto> empty_file],
     fd := Some ''/sr/a/child.vhd'', file_name := ''/sr/a/child.vhd'',
     footer := sample_footer\<lparr>ftr_type := HD_TYPE_DIFF\<rparr>\<rparr>"

lemma sample_child_sel [simp]:
  "cur_file sample_child = Some empty_file" "\<not> panicked sample_child" "faults sample_child = []"
  "env sample_child = sample_env" "file_name sample_child = ''/sr/a/child.vhd''"
  "ftr_type (footer sample_child) = HD_TYPE_DIFF"
  "files sample_child ''/sr/b/base.vhd'' = Some empty_file"
  by (simp_all add: sample_child_def blank_ctx_def cur_file_def)

lemma empty_file_sel [simp]: "fsize empty_file = 0" "\<not> fblk empty_file"
  by (simp_all add: empty_file_def)

end
