(* ===== verification/Vhd_Locator.thy ===== *)
theory Vhd_Locator
  imports Vhd_Samples
begin

text \<open>Parent locators (\<^verbatim>\<open>vhd/lib/libvhd.c\<close>): encoding and decoding of the names of parent images,
  reading and writing locators, and finding the parent.

  The library converts to and from ASCII only, so \<^verbatim>\<open>iconv\<close> is given by what it does for the four
  encodings in use: a character outside ASCII is an error.\<close>

subsection \<open>Character sets\<close>

datatype charset = UTF_8 | UTF_16 | UTF_16LE | UTF_16BE

definition all_ascii :: "byte list \<Rightarrow> bool" where
  "all_ascii bs \<longleftrightarrow> list_all (\<lambda>b. b < 0x80) bs"

fun pairs :: "byte list \<Rightarrow> (byte \<times> byte) list option" where
  "pairs [] = Some []"
| "pairs [_] = None"
| "pairs (a # b # r) = (case pairs r of None \<Rightarrow> None | Some ps \<Rightarrow> Some ((a, b) # ps))"

definition utf16_to_ascii :: "(byte \<times> byte \<Rightarrow> byte) \<Rightarrow> (byte \<times> byte \<Rightarrow> byte) \<Rightarrow> byte list \<Rightarrow> byte list option" where
  "utf16_to_ascii lo hi bs = (case pairs bs of None \<Rightarrow> None
     | Some ps \<Rightarrow> if list_all (\<lambda>p. hi p = 0 \<and> lo p < 0x80) ps then Some (map lo ps) else None)"

fun iconv_to_ascii :: "charset \<Rightarrow> byte list \<Rightarrow> byte list option" where
  "iconv_to_ascii UTF_8 bs = (if all_ascii bs then Some bs else None)"
| "iconv_to_ascii UTF_16LE bs = utf16_to_ascii fst snd bs"
| "iconv_to_ascii UTF_16BE bs = utf16_to_ascii snd fst bs"
| "iconv_to_ascii UTF_16 bs =
     (if take 2 bs = [0xFF, 0xFE] then utf16_to_ascii fst snd (drop 2 bs)
      else if take 2 bs = [0xFE, 0xFF] then utf16_to_ascii snd fst (drop 2 bs)
      else utf16_to_ascii fst snd bs)"

definition c_string :: "byte list \<Rightarrow> string" where
  "c_string bs = map (\<lambda>b. char_of (unat b)) (takeWhile (\<lambda>b. b \<noteq> 0) bs)"

subsection \<open>Names\<close>

definition vhd_macx_encode_location :: "string \<Rightarrow> int \<times> byte list" where
  "vhd_macx_encode_location name =
     (let uri = str_bytes (''file://'' @ name)
      in if all_ascii uri then (0, uri) else (- EILSEQ, []))"

definition to_backslash :: "char \<Rightarrow> char" where
  "to_backslash c = (if c = slash then CHR 0x5C else c)"

definition of_backslash :: "char \<Rightarrow> char" where
  "of_backslash c = (if c = CHR 0x5C then slash else c)"

definition w2u_name :: "string \<Rightarrow> string" where
  "w2u_name name =
     (if starts_with [slash] name then name
      else [CHR ''.'', CHR 0x5C] @ (if starts_with ''./'' name then drop 2 name else name))"

definition vhd_w2u_encode_location :: "string \<Rightarrow> int \<times> byte list" where
  "vhd_w2u_encode_location name =
     (let uri = str_bytes (map to_backslash (w2u_name name))
      in if all_ascii uri then (0, concat (map (\<lambda>b. [b, 0]) uri)) else (- EILSEQ, []))"

definition vhd_macx_decode_location :: "byte list \<Rightarrow> string option" where
  "vhd_macx_decode_location inb =
     (case iconv_to_ascii UTF_8 inb of
        None \<Rightarrow> None
      | Some out \<Rightarrow> let name = c_string out
                    in if starts_with ''file://'' name then Some (drop 7 name) else None)"

definition vhd_w2u_decode_location :: "charset \<Rightarrow> byte list \<Rightarrow> string option" where
  "vhd_w2u_decode_location utf_type inb =
     (case iconv_to_ascii utf_type inb of
        None \<Rightarrow> None
      | Some out \<Rightarrow> let name = map of_backslash (c_string out)
                    in if starts_with ''C:'' name \<or> starts_with ''c:'' name then Some (drop 2 name)
                       else Some name)"

definition vhd_header_decode_parent :: "vhd_context \<Rightarrow> vhd_header \<Rightarrow> int \<times> string option" where
  "vhd_header_decode_parent s h =
     (let cs = (if vhd_creator_tapdisk s \<and> crtr_ver (footer s) = VHD_VERSION 0 1 then UTF_16 else UTF_16BE);
          name = vhd_w2u_decode_location cs (prt_name h)
      in (if name = None then - EINVAL else 0, name))"

subsection \<open>Finding a parent\<close>

definition path_exists :: "vhd_context \<Rightarrow> string \<Rightarrow> bool" where
  "path_exists s p \<longleftrightarrow> files s p \<noteq> None"

definition ctx_canonpath :: "vhd_context \<Rightarrow> string \<Rightarrow> int + string" where
  "ctx_canonpath s p = canonpath (env_cwd (env s)) (env_realpath (env s)) (path_exists s) p"

definition vhd_find_parent :: "string \<Rightarrow> (int \<times> string option) vhd" where
  "vhd_find_parent parent = do {
     s \<leftarrow> State_Monad.get;
     if starts_with [slash] parent \<and> path_exists s parent then ret (0, Some parent)
     else case ctx_canonpath s (file_name s) of
       Inl e \<Rightarrow> ret (neg_errno e, None)
     | Inr cpath \<Rightarrow>
         (let location = dirname cpath @ [slash] @ parent in
          if path_exists s location
          then (case ctx_canonpath s location of
                  Inl e \<Rightarrow> ret (neg_errno e, None)
                | Inr path \<Rightarrow> ret (0, Some path))
          else ret (- ENOENT, None))
   }"

text \<open>A locator whose name is longer than the space read for it is an access out of bounds.\<close>

definition vhd_parent_locator_read :: "prt_loc \<Rightarrow> (int \<times> string option) vhd" where
  "vhd_parent_locator_read l = do {
     s \<leftarrow> State_Monad.get;
     if ftr_type (footer s) \<noteq> HD_TYPE_DIFF then ret (- EINVAL, None)
     else if code l \<noteq> PLAT_CODE_MACX \<and> code l \<noteq> PLAT_CODE_W2KU \<and> code l \<noteq> PLAT_CODE_W2RU then ret (- EINVAL, None)
     else do {
       err \<leftarrow> vhd_seek (to_off64 (loc_data_offset l)) SEEK_SET;
       if err \<noteq> 0 then ret (err, None)
       else (let n = vhd_parent_locator_size l in
         if sint (of_nat n :: 32 word) \<le> 0 then ret (- EINVAL, None)
         else do {
           err \<leftarrow> posix_memalign;
           if err \<noteq> 0 then ret (- err, None)
           else do {
             (err, raw) \<leftarrow> vhd_read (replicate n 0);
             if err \<noteq> 0 then ret (err, None)
             else do {
               err \<leftarrow> posix_memalign;
               if err \<noteq> 0 then ret (- ENOMEM, None)
               else if n < unat (data_len l) then do { panic; ret (- EINVAL, None) }
               else (let inb = take (unat (data_len l)) raw;
                         name = (if code l = PLAT_CODE_MACX then vhd_macx_decode_location inb
                                 else vhd_w2u_decode_location UTF_16LE inb)
                     in ret (if name = None then - EINVAL else 0, name))
             }
           }
         })
     }
   }"

primrec locator_get_loop :: "bool \<Rightarrow> prt_loc list \<Rightarrow> int \<Rightarrow> (int \<times> string option) vhd" where
  "locator_get_loop resolve_parent [] err = ret (err, None)"
| "locator_get_loop resolve_parent (l # ls) err = do {
     (e, name) \<leftarrow> vhd_parent_locator_read l;
     (case name of
        None \<Rightarrow> locator_get_loop resolve_parent ls err
      | Some nm \<Rightarrow>
          if \<not> resolve_parent then ret (0, Some nm)
          else do {
            (err, location) \<leftarrow> vhd_find_parent nm;
            if err = 0 then ret (0, location) else locator_get_loop resolve_parent ls err
          })
   }"

definition vhd_parent_locator_get_impl :: "bool \<Rightarrow> (int \<times> string option) vhd" where
  "vhd_parent_locator_get_impl resolve_parent = do {
     s \<leftarrow> State_Monad.get;
     if ftr_type (footer s) \<noteq> HD_TYPE_DIFF then ret (- EINVAL, None)
     else case custom_parent s of
       Some p \<Rightarrow> vhd_find_parent p
     | None \<Rightarrow> locator_get_loop resolve_parent (loc (header s)) (- EINVAL)
   }"

definition vhd_parent_locator_get :: "(int \<times> string option) vhd" where
  "vhd_parent_locator_get = vhd_parent_locator_get_impl True"

definition vhd_parent_locator_unresolved_get :: "(int \<times> string option) vhd" where
  "vhd_parent_locator_unresolved_get = vhd_parent_locator_get_impl False"

definition vhd_custom_parent_set :: "string \<Rightarrow> int vhd" where
  "vhd_custom_parent_set parent = do {
     err \<leftarrow> posix_memalign;
     if err \<noteq> 0 then do { modify (\<lambda>s. s\<lparr>custom_parent := None\<rparr>); ret (- ENOMEM) }
     else do { modify (\<lambda>s. s\<lparr>custom_parent := Some parent\<rparr>); ret 0 }
   }"

definition vhd_parent_raw :: "vhd_context \<Rightarrow> bool" where
  "vhd_parent_raw s \<longleftrightarrow> env_uuid_is_null (env s) (prt_uuid (header s))"

subsection \<open>Writing a locator\<close>

definition zero_loc :: prt_loc where
  "zero_loc = \<lparr> code = 0, data_space = 0, data_len = 0, res = 0, loc_data_offset = 0 \<rparr>"

definition encode_location_fn :: "32 word \<Rightarrow> string \<Rightarrow> int \<times> byte list" where
  "encode_location_fn c name =
     (if c = PLAT_CODE_MACX then vhd_macx_encode_location name else vhd_w2u_encode_location name)"

definition vhd_parent_locator_write_at :: "string \<Rightarrow> int \<Rightarrow> 32 word \<Rightarrow> nat \<Rightarrow> (int \<times> prt_loc) vhd" where
  "vhd_parent_locator_write_at parent off c max_bytes = do {
     s \<leftarrow> State_Monad.get;
     if ftr_type (footer s) \<noteq> HD_TYPE_DIFF then ret (- EINVAL, zero_loc)
     else if c \<noteq> PLAT_CODE_MACX \<and> c \<noteq> PLAT_CODE_W2KU \<and> c \<noteq> PLAT_CODE_W2RU then ret (- EINVAL, zero_loc)
     else case ctx_canonpath s parent of
       Inl e \<Rightarrow> ret (neg_errno e, zero_loc)
     | Inr absolute_path \<Rightarrow> do {
         (err, _) \<leftarrow> sys_lookup absolute_path;
         if err \<noteq> 0 then ret (err, zero_loc)
         else case relative_path_to (env_cwd (env s)) (env_realpath (env s)) (path_exists s) (file_name s) absolute_path of
           Inl e \<Rightarrow> ret (e, zero_loc)
         | Inr relative_path \<Rightarrow>
             (case encode_location_fn c relative_path of
                (err, encoded) \<Rightarrow>
                  if err \<noteq> 0 then ret (err, zero_loc)
                  else do {
                    err \<leftarrow> vhd_seek off SEEK_SET;
                    if err \<noteq> 0 then ret (err, zero_loc)
                    else (let n = vhd_bytes_padded (length encoded) in
                      if max_bytes \<noteq> 0 \<and> n > max_bytes then ret (- ENAMETOOLONG, zero_loc)
                      else do {
                        err \<leftarrow> posix_memalign;
                        if err \<noteq> 0 then ret (- err, zero_loc)
                        else do {
                          err \<leftarrow> vhd_write (buf_put (replicate n 0) 0 encoded);
                          if err \<noteq> 0 then ret (err, zero_loc)
                          else ret (0, \<lparr> code = c, data_space = of_nat n, data_len = of_nat (length encoded),
                                         res = 0, loc_data_offset = word_of_int off \<rparr>)
                        }
                      })
                  })
       }
   }"

subsection \<open>Round trips of names\<close>

lemma char_of_byte [simp]: "char_of (unat (of_char c :: byte)) = c"
proof -
  have "unat (of_char c :: byte) = unat (of_nat (of_char c) :: byte)" by (simp only: of_nat_of_char)
  also have "\<dots> = of_char c"
    unfolding unsigned_of_nat using nat_of_char_less_256 [of c] by (simp add: take_bit_nat_eq_self)
  finally show ?thesis by simp
qed

lemma byte_0_char: "(of_char c :: byte) = 0 \<longleftrightarrow> c = CHR 0x00"
proof
  assume "(of_char c :: byte) = 0"
  then have "char_of (unat (of_char c :: byte)) = char_of (unat (0 :: byte))" by simp
  then have "c = char_of (0 :: nat)" by simp
  also have "\<dots> = CHR 0x00" by (simp add: char_of_def)
  finally show "c = CHR 0x00" .
qed simp

lemma c_string_str_bytes: "CHR 0x00 \<notin> set s \<Longrightarrow> c_string (str_bytes s) = s"
  by (induction s) (auto simp: c_string_def str_bytes_def byte_0_char)

lemma pairs_wide: "pairs (concat (map (\<lambda>b. [b, 0]) bs)) = Some (map (\<lambda>b. (b, 0)) bs)"
  by (induction bs) auto

lemma macx_decode_encode:
  assumes "vhd_macx_encode_location name = (0, enc)" "CHR 0x00 \<notin> set name"
  shows "vhd_macx_decode_location enc = Some name"
proof -
  have enc: "enc = str_bytes (''file://'' @ name)" "all_ascii enc"
    using assms(1) by (auto simp: vhd_macx_encode_location_def Let_def split: if_splits)
  have "c_string enc = ''file://'' @ name"
    unfolding enc(1) by (rule c_string_str_bytes) (use assms(2) in auto)
  with enc(2) show ?thesis by (simp add: vhd_macx_decode_location_def starts_with_def)
qed

definition w2u_decoded :: "string \<Rightarrow> string" where
  "w2u_decoded name = (if starts_with [slash] name then name
     else ''./'' @ (if starts_with ''./'' name then drop 2 name else name))"

lemma w2u_decode_encode:
  assumes "vhd_w2u_encode_location name = (0, enc)" "CHR 0x00 \<notin> set name" "CHR 0x5C \<notin> set name"
  shows "vhd_w2u_decode_location UTF_16LE enc = Some (w2u_decoded name)"
proof -
  define uri where "uri = map to_backslash (w2u_name name)"
  have enc: "enc = concat (map (\<lambda>b. [b, 0]) (str_bytes uri))" "all_ascii (str_bytes uri)"
    using assms(1) by (auto simp: vhd_w2u_encode_location_def Let_def uri_def split: if_splits)
  have "CHR 0x00 \<notin> set uri"
    using assms(2) by (auto simp: uri_def to_backslash_def w2u_name_def dest: in_set_dropD split: if_splits)
  then have cs: "c_string (str_bytes uri) = uri" by (rule c_string_str_bytes)
  have nob: "CHR 0x5C \<notin> set (drop n name)" for n using assms(3) in_set_dropD by fast
  have unback: "map of_backslash (map to_backslash xs) = xs" if "CHR 0x5C \<notin> set xs" for xs
    using that by (induction xs) (auto simp: of_backslash_def to_backslash_def)
  have "map of_backslash uri = w2u_decoded name"
    using unback [OF assms(3)] unback [OF nob [of 2]]
    by (auto simp: uri_def w2u_name_def w2u_decoded_def of_backslash_def to_backslash_def comp_def)
  moreover have "\<not> starts_with ''C:'' (w2u_decoded name)" "\<not> starts_with ''c:'' (w2u_decoded name)"
    by (auto simp: w2u_decoded_def starts_with_def take_Suc_conv_app_nth)
       (cases name; auto)+
  ultimately show ?thesis
    using enc(2) unfolding enc(1) vhd_w2u_decode_location_def
    by (simp add: utf16_to_ascii_def pairs_wide all_ascii_def list_all_iff comp_def cs Let_def)
qed

subsection \<open>What a locator stores is what is read back\<close>

lemma wp_sys_lookup:
  "(\<And>r b fl. r \<le> 0 \<Longrightarrow> (r = 0 \<Longrightarrow> \<exists>f. files s path = Some f \<and> b = fblk f) \<Longrightarrow> Q (r, b) (s\<lparr>faults := fl\<rparr>)) \<Longrightarrow>
   wp (sys_lookup path) Q s"
  by (auto simp: sys_lookup_def wp_def errno_of_def split: prod.splits fault.splits option.splits dest!: pop_fault_eq)

lemma relative_path_to_error: "relative_path_to wd rp ex p q = Inl e \<Longrightarrow> e < 0"
  by (auto simp: relative_path_to_def Let_def split: if_splits sum.splits option.splits)

definition locator_name :: "32 word \<Rightarrow> string \<Rightarrow> string" where
  "locator_name c name = (if c = PLAT_CODE_MACX then name else w2u_decoded name)"

lemma wp_locator_write_at:
  assumes f: "cur_file s = Some f" "\<not> panicked s"
  shows "wp (vhd_parent_locator_write_at parent off c mb) (\<lambda>(r, l) t. r = 0 \<longrightarrow>
     (\<exists>g absolute rel enc b. frame s t \<and> cur_file t = Some g \<and> 0 \<le> off \<and> off < 9223372036854775808 \<and>
        ftr_type (footer s) = HD_TYPE_DIFF \<and> c \<in> {PLAT_CODE_MACX, PLAT_CODE_W2KU, PLAT_CODE_W2RU} \<and>
        ctx_canonpath s parent = Inr absolute \<and>
        relative_path_to (env_cwd (env s)) (env_realpath (env s)) (path_exists s) (file_name s) absolute = Inr rel \<and>
        encode_location_fn c rel = (0, enc) \<and>
        b = buf_put (replicate (vhd_bytes_padded (length enc)) 0) 0 enc \<and> fread g (nat off) (length b) = b \<and>
        l = \<lparr> code = c, data_space = of_nat (vhd_bytes_padded (length enc)), data_len = of_nat (length enc),
              res = 0, loc_data_offset = word_of_int off \<rparr>)) s"
  unfolding vhd_parent_locator_write_at_def
  by (auto simp: wp_simps f Let_def cur_file_put_file [OF f(1)] dest!: relative_path_to_error split: sum.splits prod.splits if_splits
      intro!: wp_sys_lookup wp_seek_set [of _ f] wp_posix_memalign wp_vhd_write [of _ f])

definition locator_decode :: "32 word \<Rightarrow> byte list \<Rightarrow> string option" where
  "locator_decode c inb = (if c = PLAT_CODE_MACX then vhd_macx_decode_location inb
     else vhd_w2u_decode_location UTF_16LE inb)"

lemma locator_decode_encode:
  assumes "encode_location_fn c rel = (0, enc)" "CHR 0x00 \<notin> set rel" "CHR 0x5C \<notin> set rel"
  shows "locator_decode c enc = Some (locator_name c rel)"
  using assms macx_decode_encode [of rel enc] w2u_decode_encode [of rel enc]
  by (simp add: locator_decode_def locator_name_def encode_location_fn_def split: if_splits)

lemma wp_locator_read:
  assumes f: "cur_file s = Some f" "\<not> panicked s"
    and len: "unat (data_len l) \<le> vhd_parent_locator_size l"
  shows "wp (vhd_parent_locator_read l) (\<lambda>(r, nm) t. frame s t \<and> cur_file t = Some f \<and>
     (r = 0 \<longrightarrow> nm = locator_decode (code l)
        (take (unat (data_len l)) (fread f (nat (to_off64 (loc_data_offset l))) (vhd_parent_locator_size l))))) s"
  unfolding vhd_parent_locator_read_def using len
  by (auto simp: wp_simps f Let_def locator_decode_def split: if_splits
      intro!: wp_seek_set [of _ f] wp_posix_memalign wp_vhd_read [of _ f])

lemma length_join_le: "length (join cs) \<le> length (path_of cs)"
  by (cases "cs = []") (simp_all add: path_of_join)

lemma node_offset_length: "node_offset p n = Some q \<Longrightarrow> length q < length p"
  by (induction p n rule: node_offset.induct) (auto split: if_splits)

lemma up_nodes_length: "up_nodes n = Some up \<Longrightarrow> length up < MAX_NAME_LEN"
  by (auto simp: up_nodes_def length_concat sum_list_replicate split: if_splits)

lemma relative_path_length:
  assumes "relative_path_to wd rp ex p q = Inr rel"
  shows "length rel < 2000"
  using assms
  by (fastforce simp: relative_path_to_def Let_def split: if_splits sum.splits option.splits
      dest: up_nodes_length node_offset_length)

lemma encode_location_length:
  "encode_location_fn c rel = (e, enc) \<Longrightarrow> length enc \<le> 2 * length rel + 7"
  by (auto simp: encode_location_fn_def vhd_macx_encode_location_def vhd_w2u_encode_location_def Let_def str_bytes_def
      w2u_name_def length_concat comp_def sum_list_triv split: if_splits)

lemma to_off64_word_of_int: "0 \<le> off \<Longrightarrow> off < 9223372036854775808 \<Longrightarrow> to_off64 (word_of_int off) = off"
  by (simp add: to_off64_def sint_sbintrunc' signed_take_bit_int_eq_self)

lemma locator_stored:
  assumes "length enc < 10000" "0 \<le> off" "off < 9223372036854775808"
    and "l = \<lparr> code = c, data_space = of_nat (vhd_bytes_padded (length enc)), data_len = of_nat (length enc),
               res = 0, loc_data_offset = word_of_int off \<rparr>"
  shows "vhd_parent_locator_size l = vhd_bytes_padded (length enc)" "unat (data_len l) = length enc"
    "to_off64 (loc_data_offset l) = off" "length enc \<le> vhd_bytes_padded (length enc)"
    "0 < vhd_bytes_padded (length enc)" "vhd_bytes_padded (length enc) < 10513"
proof -
  have b: "length enc \<le> vhd_bytes_padded (length enc)" "vhd_bytes_padded (length enc) < 10513" "vhd_bytes_padded (length enc) mod 512 = 0"
    "512 \<le> vhd_bytes_padded (length enc)"
    using vhd_bytes_padded_bounds [of "length enc"] secs_round_up_no_zero_pos [of "length enc"] assms(1)
    by (auto simp: vhd_bytes_padded_eq simp del: secs_round_up_no_zero_pos)
  then have u: "unat (of_nat (vhd_bytes_padded (length enc)) :: 32 word) = vhd_bytes_padded (length enc)"
    by (intro unat_of_nat_u32) simp
  have "unat (of_nat (length enc) :: 32 word) = length enc"
    using assms(1) by (intro unat_of_nat_u32) simp
  with u b assms to_off64_word_of_int
  show "vhd_parent_locator_size l = vhd_bytes_padded (length enc)" "unat (data_len l) = length enc"
    "to_off64 (loc_data_offset l) = off" "length enc \<le> vhd_bytes_padded (length enc)"
    "0 < vhd_bytes_padded (length enc)" "vhd_bytes_padded (length enc) < 10513"
    by (auto simp: vhd_parent_locator_size_def)
qed

lemma take_buf_put_0: "length src \<le> length buf \<Longrightarrow> take (length src) (buf_put buf 0 src) = src"
  by (simp add: buf_put_def)


lemma sample_paths:
  "ctx_canonpath sample_child ''/sr/b/base.vhd'' = Inr ''/sr/b/base.vhd''"
  "relative_path_to (Inr ''/'') Inr (path_exists sample_child) ''/sr/a/child.vhd'' ''/sr/b/base.vhd'' = Inr ''../b/base.vhd''"
proof -
  have n: "normalize_path (Inr ''/'') ''/sr/a/child.vhd'' = Inr ''/sr/a/child.vhd''"
    "normalize_path (Inr ''/'') ''/sr/b/base.vhd'' = Inr ''/sr/b/base.vhd''"
    by code_simp+
  have c: "canonpath (Inr ''/'') Inr ex ''/sr/a/child.vhd'' = Inr ''/sr/a/child.vhd''"
    "canonpath (Inr ''/'') Inr ex ''/sr/b/base.vhd'' = Inr ''/sr/b/base.vhd''" for ex
    unfolding canonpath_def n by (simp_all add: starts_with_def)
  then show "ctx_canonpath sample_child ''/sr/b/base.vhd'' = Inr ''/sr/b/base.vhd''"
    by (simp add: ctx_canonpath_def sample_env_def)
  have "count_common_nodes ''sr/b/base.vhd'' ''sr/a/child.vhd'' = 1" "count_nodes ''/sr/a/child.vhd'' = 3"
    by code_simp+
  then show "relative_path_to (Inr ''/'') Inr (path_exists sample_child) ''/sr/a/child.vhd'' ''/sr/b/base.vhd'' = Inr ''../b/base.vhd''"
    unfolding relative_path_to_def c by (simp add: up_nodes_def)
qed

lemma sample_encoded: "encode_location_fn PLAT_CODE_MACX ''../b/base.vhd'' = (0, str_bytes ''file://../b/base.vhd'')"
  by code_simp

lemma sample_locator_written:
  "wp (vhd_parent_locator_write_at ''/sr/b/base.vhd'' 1024 PLAT_CODE_MACX 0) (\<lambda>(r, l) t. r = 0) sample_child"
proof -
  have rel: "relative_path_to (env_cwd (env sample_child)) (env_realpath (env sample_child)) (path_exists sample_child)
    (file_name sample_child) ''/sr/b/base.vhd'' = Inr ''../b/base.vhd''"
    using sample_paths(2) by (simp add: sample_env_def)
  show ?thesis
    unfolding vhd_parent_locator_write_at_def
    by (simp add: wp_simps wp_ok sample_paths(1) rel sample_encoded vhd_bytes_padded_eq secs_round_up_no_zero_eq
        buf_put_def str_bytes_def Let_def del: sample_child_sel(4,5))
qed


end
