(* ===== verification/Vhd_Io.thy ===== *)
theory Vhd_Io
  imports Vhd_Block Vhd_Locator
begin

text \<open>Sector I/O on an image (\<^verbatim>\<open>vhd/lib/libvhd.c\<close>): reading through a chain of differencing images,
  allocating blocks and writing.\<close>

subsection \<open>Fixed images\<close>

definition vhd_io_fixed_read :: "byte list \<Rightarrow> nat \<Rightarrow> nat \<Rightarrow> (int \<times> byte list) vhd" where
  "vhd_io_fixed_read buf sec secs = do {
     err \<leftarrow> vhd_seek (to_off64 (of_nat (vhd_sectors_to_bytes sec))) SEEK_SET;
     if err \<noteq> 0 then ret (err, buf)
     else do {
       (err, data) \<leftarrow> vhd_read (take (vhd_sectors_to_bytes secs) buf);
       ret (err, data @ drop (vhd_sectors_to_bytes secs) buf)
     }
   }"

definition vhd_io_fixed_write :: "byte list \<Rightarrow> nat \<Rightarrow> nat \<Rightarrow> int vhd" where
  "vhd_io_fixed_write buf sec secs = do {
     err \<leftarrow> vhd_seek (to_off64 (of_nat (vhd_sectors_to_bytes sec))) SEEK_SET;
     if err \<noteq> 0 then ret err else vhd_write (take (vhd_sectors_to_bytes secs) buf)
   }"

subsection \<open>Reading through a chain\<close>

text \<open>Copy the sectors \<open>want\<close> selects that the map does not have yet, and mark them.\<close>

definition dynamic_copy_data :: "(nat \<Rightarrow> bool) \<Rightarrow> byte list \<Rightarrow> nat \<Rightarrow> byte list \<Rightarrow> nat \<Rightarrow> byte list \<Rightarrow> nat \<Rightarrow>
    byte list \<times> byte list" where
  "dynamic_copy_data want mp map_off dst dst_off src secs =
     fold (\<lambda>i (mp, dst).
       if test_bit mp (map_off + i) then (mp, dst)
       else if \<not> want i then (mp, dst)
       else (set_bit mp (map_off + i), buf_put dst (dst_off + i * 512) (buf_get src (i * 512) 512)))
     [0..<secs] (mp, dst)"

text \<open>The sectors one allocated block contributes.\<close>

definition read_link_block :: "nat \<Rightarrow> nat \<Rightarrow> nat \<Rightarrow> byte list \<Rightarrow> byte list \<Rightarrow> nat \<Rightarrow> (int \<times> byte list \<times> byte list) vhd" where
  "read_link_block blk sec cnt mp buf map_off = do {
     (err, bitmap) \<leftarrow> vhd_read_bitmap blk;
     (case bitmap of None \<Rightarrow> ret (err, mp, buf)
      | Some bm \<Rightarrow> do {
          (err, data) \<leftarrow> vhd_read_block blk;
          (case data of None \<Rightarrow> ret (err, mp, buf)
           | Some d \<Rightarrow>
               (case dynamic_copy_data (\<lambda>i. test_bit bm (sec + i)) mp map_off buf (map_off * 512)
                       (drop (sec * 512) d) cnt of
                  (mp, buf) \<Rightarrow> ret (0, mp, buf)))
        })
   }"

text \<open>One image of the chain; \<open>map_off\<close> counts the sectors done, and the buffer is addressed from
  its start.\<close>

primrec read_link_loop :: "nat \<Rightarrow> byte list \<Rightarrow> byte list \<Rightarrow> nat \<Rightarrow> nat \<Rightarrow> nat \<Rightarrow> (int \<times> byte list \<times> byte list) vhd" where
  "read_link_loop 0 mp buf sector secs map_off = do { panic; ret (- EINVAL, mp, buf) }"
| "read_link_loop (Suc fuel) mp buf sector secs map_off = do {
     s \<leftarrow> State_Monad.get;
     if sector \<ge> unat (curr_size (footer s)) div 512
     then ret (0, fold (\<lambda>i m. set_bit m (map_off + i)) [0..<secs] mp, buf)
     else if spb s = 0 then do { panic; ret (- EINVAL, mp, buf) }
     else (let blk = u32 (sector div spb s); sec = sector mod spb s; cnt = min secs (spb s - sec) in
       case bat_entry s blk of
         None \<Rightarrow> do { panic; ret (- EINVAL, mp, buf) }
       | Some off \<Rightarrow> do {
           (err, mp, buf) \<leftarrow>
             (if off = DD_BLK_UNUSED then ret (0, mp, buf)
              else read_link_block blk sec cnt mp buf map_off);
           if err \<noteq> 0 then ret (err, mp, buf)
           else if secs - cnt = 0 then ret (0, mp, buf)
           else read_link_loop fuel mp buf (sector + cnt) (secs - cnt) (map_off + cnt)
         })
   }"

definition vhd_io_dynamic_read_link :: "byte list \<Rightarrow> byte list \<Rightarrow> nat \<Rightarrow> nat \<Rightarrow> (int \<times> byte list \<times> byte list) vhd" where
  "vhd_io_dynamic_read_link mp buf sector secs = read_link_loop (Suc secs) mp buf sector secs 0"

text \<open>A raw parent is read with a single \<^verbatim>\<open>read\<close>.  A failed allocation is returned with the sign
  \<^verbatim>\<open>posix_memalign\<close> gives it.\<close>

definition raw_read_link :: "string \<Rightarrow> byte list \<Rightarrow> byte list \<Rightarrow> nat \<Rightarrow> nat \<Rightarrow> (int \<times> byte list \<times> byte list) vhd" where
  "raw_read_link filename mp buf sec secs = do {
     (err, _) \<leftarrow> sys_lookup filename;
     if err \<noteq> 0 then ret (err, mp, buf)
     else if to_off64 (of_nat (vhd_sectors_to_bytes sec)) < 0 then ret (- EINVAL, mp, buf)
     else do {
       err \<leftarrow> posix_memalign;
       if err \<noteq> 0 then ret (err, mp, buf)
       else do {
         (r, data) \<leftarrow> State (\<lambda>s. case sys_pio OpRead (replicate (vhd_sectors_to_bytes secs) 0)
                                     (vhd_sectors_to_bytes sec) (s\<lparr>fd := Some filename\<rparr>) of
                                  (x, t) \<Rightarrow> (x, t\<lparr>fd := fd s\<rparr>));
         (case r of
            SysFail e \<Rightarrow> ret (- e, mp, buf)
          | SysRet k \<Rightarrow>
              if k \<noteq> vhd_sectors_to_bytes secs then ret (- EIO, mp, buf)
              else (case dynamic_copy_data (\<lambda>_. True) mp 0 buf 0 data secs of
                      (mp, buf) \<Rightarrow> ret (0, mp, buf)))
       }
     }
   }"

text \<open>Run a computation on the image itself (\<open>None\<close>) or on an opened ancestor.\<close>

definition on_ctx :: "vhd_context option \<Rightarrow> 'a vhd \<Rightarrow> ('a \<times> vhd_context option) vhd" where
  "on_ctx v m = (case v of
     None \<Rightarrow> do { r \<leftarrow> m; ret (r, None) }
   | Some c \<Rightarrow> do { (r, c) \<leftarrow> in_ctx c m; ret (r, Some c) })"

text \<open>The loop over the chain.  Its fuel bounds the number of images visited; \<open>None\<close> means that
  the chain has not ended by then.\<close>

primrec dynamic_read_loop :: "nat \<Rightarrow> vhd_context option \<Rightarrow> byte list \<Rightarrow> byte list \<Rightarrow> nat \<Rightarrow> nat \<Rightarrow>
    (int \<times> byte list) option vhd" where
  "dynamic_read_loop 0 v mp buf sec secs = ret None"
| "dynamic_read_loop (Suc fuel) v mp buf sec secs = do {
     ((err, mp, buf), v) \<leftarrow> on_ctx v (vhd_io_dynamic_read_link mp buf sec secs);
     if err \<noteq> 0 then ret (Some (err, buf))
     else if list_all (test_bit mp) [0..<secs] then ret (Some (0, buf))
     else do {
       (c, v) \<leftarrow> on_ctx v State_Monad.get;
       if ftr_type (footer c) \<noteq> HD_TYPE_DIFF then ret (Some (0, buf))
       else do {
         ((err, next), v) \<leftarrow> on_ctx v vhd_parent_locator_get;
         (case next of
            None \<Rightarrow> ret (Some (err, buf))
          | Some p \<Rightarrow>
              if vhd_parent_raw c then do {
                (err, mp, buf) \<leftarrow> raw_read_link p mp buf sec secs;
                ret (Some (err, buf))
              } else do {
                s \<leftarrow> State_Monad.get;
                (err, parent) \<leftarrow> in_ctx s (vhd_open p VHD_OPEN_RDONLY);
                if err \<noteq> 0 then ret (Some (err, buf))
                else do {
                  (err, v) \<leftarrow> on_ctx (Some parent) vhd_get_bat;
                  if err \<noteq> 0 then ret (Some (err, buf))
                  else dynamic_read_loop fuel v mp buf sec secs
                }
              })
       }
     }
   }"

text \<open>The size of the map in bytes is computed with 32 bits.\<close>

definition vhd_io_dynamic_read :: "nat \<Rightarrow> byte list \<Rightarrow> nat \<Rightarrow> nat \<Rightarrow> (int \<times> byte list) option vhd" where
  "vhd_io_dynamic_read fuel buf sec secs = do {
     err \<leftarrow> vhd_get_bat;
     if err \<noteq> 0 then ret (Some (err, buf))
     else do {
       err \<leftarrow> posix_memalign;
       if err \<noteq> 0 then ret (Some (- ENOMEM, buf))
       else if 8 * u32 (secs * 64) < secs then do { panic; ret (Some (- EINVAL, buf)) }
       else dynamic_read_loop fuel None (replicate (u32 (secs * 64)) 0)
              (replicate (vhd_sectors_to_bytes secs) 0 @ drop (vhd_sectors_to_bytes secs) buf) sec secs
     }
   }"

text \<open>The sum of the sectors and its conversion to bytes wrap at 64 bits.\<close>

definition io_in_range :: "vhd_footer \<Rightarrow> nat \<Rightarrow> nat \<Rightarrow> bool" where
  "io_in_range f sec secs \<longleftrightarrow> vhd_sectors_to_bytes (u64 (sec + secs)) \<le> unat (curr_size f)"

definition vhd_io_read :: "nat \<Rightarrow> byte list \<Rightarrow> nat \<Rightarrow> nat \<Rightarrow> (int \<times> byte list) option vhd" where
  "vhd_io_read fuel buf sec secs = do {
     s \<leftarrow> State_Monad.get;
     if \<not> io_in_range (footer s) sec secs then ret (Some (- ERANGE, buf))
     else if \<not> vhd_type_dynamic s then do {
       r \<leftarrow> vhd_io_fixed_read buf sec secs;
       ret (Some r)
     } else vhd_io_dynamic_read fuel buf sec secs
   }"

subsection \<open>Writing\<close>

text \<open>Enter the position of a block into the table in memory and write the table.\<close>

definition set_entry :: "nat \<Rightarrow> 32 word \<Rightarrow> int vhd" where
  "set_entry block e = do {
     b \<leftarrow> gets ctx_bat;
     (case bat b of
        None \<Rightarrow> do { panic; ret (- EINVAL) }
      | Some ws \<Rightarrow>
          if length ws \<le> block then do { panic; ret (- EINVAL) }
          else do {
            modify (\<lambda>s. s\<lparr>ctx_bat := b\<lparr>bat := Some (ws[block := e])\<rparr>\<rparr>);
            b \<leftarrow> gets ctx_bat;
            vhd_write_bat b
          })
   }"

definition vhd_io_allocate_block :: "nat \<Rightarrow> bool \<Rightarrow> int vhd" where
  "vhd_io_allocate_block block zero = do {
     s0 \<leftarrow> State_Monad.get;
     (let spp = int (pagesize s0 div 512) in do {
        (err, off) \<leftarrow> vhd_end_of_data;
        if err \<noteq> 0 then ret err
        else do {
          s \<leftarrow> State_Monad.get;
          (let gap = (if (off div 512 + int (bm_secs s)) mod spp \<noteq> 0
                      then spp - (off div 512 + int (bm_secs s)) mod spp else 0);
               max = off div 512 + gap in
           if max > 4294967295 then ret (- EIO)
           else do {
             err \<leftarrow> vhd_seek off SEEK_SET;
             if err \<noteq> 0 then ret err
             else (let secs = bm_secs s + nat gap +
                         (if vhd_flag_test (oflags s) VHD_OPEN_IO_WRITE_SPARSE then 0 else spb s) in do {
               err \<leftarrow> (if zero then do {
                         err \<leftarrow> posix_memalign;
                         if err \<noteq> 0 then ret (- err)
                         else vhd_write (replicate (vhd_sectors_to_bytes secs) 0)
                       } else ret 0);
               if err \<noteq> 0 then ret err else set_entry block (word_of_int max)
             })
           })
        }
      })
   }"

text \<open>The body of the write loop for one block, in two parts.  The second component of the result says
  whether the caller returns at once (\<open>True\<close>) or goes on to rewrite the footer.\<close>

definition set_block_bits :: "nat \<Rightarrow> nat \<Rightarrow> nat \<Rightarrow> (int \<times> bool) vhd" where
  "set_block_bits blk sec cnt = do {
     s \<leftarrow> State_Monad.get;
     has \<leftarrow> vhd_has_batmap;
     full \<leftarrow> (if has then vhd_batmap_test blk else ret False);
     if full then ret (0, False)
     else do {
       (err, mp) \<leftarrow> vhd_read_bitmap blk;
       (case mp of
          None \<Rightarrow> ret (err, True)
        | Some m0 \<Rightarrow>
            (let m = fold (\<lambda>i m. set_bit m (sec + i)) [0..<cnt] m0 in do {
               err \<leftarrow> vhd_write_bitmap blk True m;
               if err \<noteq> 0 then ret (err, False)
               else do {
                 has \<leftarrow> vhd_has_batmap;
                 if \<not> has then ret (0, False)
                 else if \<not> list_all (test_bit m) [0..<spb s] then ret (0, False)
                 else do {
                   err \<leftarrow> do { vhd_batmap_set blk; bm \<leftarrow> gets batmap; vhd_write_batmap bm };
                   ret (err, False)
                 }
               }
             }))
     }
   }"

definition write_one_block :: "byte list \<Rightarrow> nat \<Rightarrow> nat \<Rightarrow> nat \<Rightarrow> (int \<times> bool) vhd" where
  "write_one_block data blk sec cnt = do {
     s \<leftarrow> State_Monad.get;
     (case bat_entry s blk of
        None \<Rightarrow> do { panic; ret (- EINVAL, True) }
      | Some e \<Rightarrow> do {
          err \<leftarrow> (if e = DD_BLK_UNUSED then vhd_io_allocate_block blk (cnt < spb s) else ret 0);
          if err \<noteq> 0 then ret (err, True)
          else do {
            s \<leftarrow> State_Monad.get;
            (case bat_entry s blk of
               None \<Rightarrow> do { panic; ret (- EINVAL, True) }
             | Some e \<Rightarrow> do {
                 err \<leftarrow> vhd_seek (int (vhd_sectors_to_bytes (unat e + bm_secs s + sec))) SEEK_SET;
                 if err \<noteq> 0 then ret (err, True)
                 else do {
                   err \<leftarrow> vhd_write data;
                   if err \<noteq> 0 then ret (err, True) else set_block_bits blk sec cnt
                 }
               })
          }
        })
   }"

primrec dynamic_write_loop :: "nat \<Rightarrow> byte list \<Rightarrow> nat \<Rightarrow> nat \<Rightarrow> (int \<times> bool) vhd" where
  "dynamic_write_loop 0 buf sector secs = do { panic; ret (- EINVAL, True) }"
| "dynamic_write_loop (Suc fuel) buf sector secs = do {
     s \<leftarrow> State_Monad.get;
     if spb s = 0 then do { panic; ret (- EINVAL, True) }
     else (let blk = u32 (sector div spb s); sec = sector mod spb s; cnt = min secs (spb s - sec) in do {
       (err, direct) \<leftarrow> write_one_block (take (vhd_sectors_to_bytes cnt) buf) blk sec cnt;
       if err \<noteq> 0 then ret (err, direct)
       else if secs - cnt = 0 then ret (0, False)
       else dynamic_write_loop fuel (drop (vhd_sectors_to_bytes cnt) buf) (sector + cnt) (secs - cnt)
     })
   }"

definition vhd_io_dynamic_write :: "byte list \<Rightarrow> nat \<Rightarrow> nat \<Rightarrow> int vhd" where
  "vhd_io_dynamic_write buf sector secs = do {
     s \<leftarrow> State_Monad.get;
     if \<not> io_in_range (footer s) sector secs then ret (- ERANGE)
     else do {
       err \<leftarrow> vhd_get_bat;
       if err \<noteq> 0 then ret err
       else do {
         has \<leftarrow> vhd_has_batmap;
         err \<leftarrow> (if has then vhd_get_batmap else ret 0);
         if err \<noteq> 0 then ret err
         else do {
           (err, direct) \<leftarrow> dynamic_write_loop (Suc secs) buf sector secs;
           if err \<noteq> 0 \<and> direct then ret err
           else do {
             f \<leftarrow> gets footer;
             r \<leftarrow> vhd_write_footer f;
             ret (if err \<noteq> 0 then err else r)
           }
         }
       }
     }
   }"

definition vhd_io_write :: "byte list \<Rightarrow> nat \<Rightarrow> nat \<Rightarrow> int vhd" where
  "vhd_io_write buf sec secs = do {
     s \<leftarrow> State_Monad.get;
     if \<not> io_in_range (footer s) sec secs then ret (- ERANGE)
     else if \<not> vhd_type_dynamic s then vhd_io_fixed_write buf sec secs
     else vhd_io_dynamic_write buf sec secs
   }"

end
