(* ===== verification/Vhd_Layout.thy ===== *)
theory Vhd_Layout
  imports Vhd_Meta
begin

text \<open>The layout of a dynamic image as plain data: where the blocks of a table lie, what a file then
  stores for each sector, and how the table grows.  Positions are in sectors; a block occupies one
  sector of bitmap and its data.\<close>

subsection \<open>Blocks of a table\<close>

definition blocks_ok :: "nat \<Rightarrow> nat \<Rightarrow> nat \<Rightarrow> nat \<Rightarrow> 32 word list \<Rightarrow> bool" where
  "blocks_ok lo lim sz n B \<longleftrightarrow>
     (\<forall>i<n. B ! i \<noteq> DD_BLK_UNUSED \<longrightarrow> lo \<le> unat (B ! i) \<and> unat (B ! i) + sz \<le> lim) \<and>
     (\<forall>i<n. \<forall>j<n. i \<noteq> j \<longrightarrow> B ! i \<noteq> DD_BLK_UNUSED \<longrightarrow> B ! j \<noteq> DD_BLK_UNUSED \<longrightarrow>
        unat (B ! i) + sz \<le> unat (B ! j) \<or> unat (B ! j) + sz \<le> unat (B ! i))"

definition data_end :: "nat \<Rightarrow> nat \<Rightarrow> 32 word list \<Rightarrow> nat" where
  "data_end lo sz bs = foldl (\<lambda>m e. if e = DD_BLK_UNUSED then m else max (unat e + sz) m) lo bs"

definition unused :: "nat \<Rightarrow> 32 word list \<Rightarrow> nat" where
  "unused n B = card {i. i < n \<and> B ! i = DD_BLK_UNUSED}"

lemma data_end_ge: "lo \<le> data_end lo sz bs"
proof (induction bs arbitrary: lo)
  case (Cons e bs)
  show ?case using Cons [of "if e = DD_BLK_UNUSED then lo else max (unat e + sz) lo"]
    by (auto simp: data_end_def split: if_splits)
qed (simp add: data_end_def)

lemma data_end_mem: "e \<in> set bs \<Longrightarrow> e \<noteq> DD_BLK_UNUSED \<Longrightarrow> unat e + sz \<le> data_end lo sz bs"
proof (induction bs arbitrary: lo)
  case (Cons a bs)
  show ?case
  proof (cases "e = a")
    case True
    with Cons.prems(2) data_end_ge [of "max (unat e + sz) lo" sz bs] show ?thesis
      by (simp add: data_end_def)
  qed (use Cons in \<open>simp add: data_end_def\<close>)
qed simp

lemma data_end_le:
  "lo \<le> m \<Longrightarrow> (\<And>e. e \<in> set bs \<Longrightarrow> e \<noteq> DD_BLK_UNUSED \<Longrightarrow> unat e + sz \<le> m) \<Longrightarrow> data_end lo sz bs \<le> m"
proof (induction bs arbitrary: lo)
  case (Cons a bs)
  have "data_end (if a = DD_BLK_UNUSED then lo else max (unat a + sz) lo) sz bs \<le> m"
    by (rule Cons.IH) (use Cons.prems in auto)
  then show ?case by (simp add: data_end_def)
qed (simp add: data_end_def)

text \<open>The source computes the end with 64-bit words.\<close>

lemma unat_max_word: "unat (max a b :: 64 word) = max (unat a) (unat b)"
  by (simp add: max_def word_le_nat_alt)

lemma unat_ucast_plus:
  assumes "sz < 4294967296"
  shows "unat (ucast (e :: 32 word) + of_nat sz :: 64 word) = unat e + sz"
proof -
  have e: "unat e < 4294967296" by (rule unat_u32_lt)
  have "(ucast e + of_nat sz :: 64 word) = of_nat (unat e + sz)" by simp
  also have "unat \<dots> = unat e + sz" using e assms by (intro unat_of_nat_u64) linarith
  finally show ?thesis .
qed

lemma vhd_end_of_blocks_eq:
  assumes "sz < 4294967296"
  shows "unat (vhd_end_of_blocks sz bs m) = data_end (unat m) sz bs"
proof (induction bs arbitrary: m)
  case (Cons a bs)
  show ?case
    using Cons.IH [of "if a = DD_BLK_UNUSED then m else max (ucast a + of_nat sz) m"] assms
    by (simp add: vhd_end_of_blocks_def data_end_def unat_max_word unat_ucast_plus split: if_splits)
qed (simp add: vhd_end_of_blocks_def data_end_def)

subsection \<open>Growing the table\<close>

lemma unused_update:
  assumes "blk < n" "n \<le> length B" "B ! blk = DD_BLK_UNUSED" "e \<noteq> DD_BLK_UNUSED"
  shows "unused n B = Suc (unused n (B[blk := e]))"
proof -
  have "{i. i < n \<and> B ! i = DD_BLK_UNUSED} = insert blk {i. i < n \<and> B[blk := e] ! i = DD_BLK_UNUSED}"
    using assms by (auto simp: nth_list_update)
  moreover have "blk \<notin> {i. i < n \<and> B[blk := e] ! i = DD_BLK_UNUSED}"
    using assms by simp
  ultimately show ?thesis by (simp add: unused_def)
qed

lemma blocks_ok_grow:
  assumes "blocks_ok lo lim sz n B" "blk < n" "n \<le> length B"
    and "data_end lo sz (take n B) \<le> unat e" "unat e + sz \<le> lim"
  shows "blocks_ok lo lim sz n (B[blk := e])"
proof -
  have le: "unat (B ! i) + sz \<le> unat e" if "i < n" "B ! i \<noteq> DD_BLK_UNUSED" for i
  proof -
    have "B ! i \<in> set (take n B)" using that assms(3) by (metis in_set_conv_nth length_take min.absorb2 nth_take)
    from data_end_mem [OF this that(2)] assms(4) show ?thesis by (rule order_trans)
  qed
  have lo: "lo \<le> unat e" using data_end_ge [of lo sz "take n B"] assms(4) by linarith
  show ?thesis
    using assms le lo unfolding blocks_ok_def by (simp add: nth_list_update)
qed

lemma data_end_grow:
  assumes "blk < n" "n \<le> length B" "data_end lo sz (take n B) \<le> unat e"
  shows "data_end lo sz (take n (B[blk := e])) \<le> unat e + sz"
proof (rule data_end_le)
  show "lo \<le> unat e + sz" using data_end_ge [of lo sz "take n B"] assms(3) by linarith
next
  fix a assume "a \<in> set (take n (B[blk := e]))" "a \<noteq> DD_BLK_UNUSED"
  then have "a = e \<or> a \<in> set (take n B)"
    using assms(1) set_update_subset_insert [of "take n B" blk e] by (auto simp: take_update_swap)
  then show "unat a + sz \<le> unat e + sz"
    using data_end_mem [of a "take n B" sz lo] \<open>a \<noteq> DD_BLK_UNUSED\<close> assms(3) by auto
qed

subsection \<open>What a file stores\<close>

definition blk_bit :: "vfile \<Rightarrow> 32 word \<Rightarrow> nat \<Rightarrow> bool" where
  "blk_bit f e i = test_bit (fread f (unat e * 512) 512) i"

definition blk_sec :: "vfile \<Rightarrow> 32 word \<Rightarrow> nat \<Rightarrow> byte list" where
  "blk_sec f e i = fread f ((unat e + 1 + i) * 512) 512"

text \<open>The sector an image holds itself: \<open>None\<close> when its block is not allocated or its bit not set.\<close>

definition view :: "nat \<Rightarrow> nat \<Rightarrow> 32 word list \<Rightarrow> vfile \<Rightarrow> nat \<Rightarrow> byte list option" where
  "view p n B f k =
     (let e = B ! (k div p) in
      if k div p < n \<and> e \<noteq> DD_BLK_UNUSED \<and> blk_bit f e (k mod p) then Some (blk_sec f e (k mod p)) else None)"

definition full :: "nat \<Rightarrow> vfile \<Rightarrow> 32 word \<Rightarrow> bool" where
  "full p f e \<longleftrightarrow> (\<forall>i<p. blk_bit f e i)"

text \<open>A batmap is sound if it marks full blocks only.\<close>

definition sound :: "nat \<Rightarrow> nat \<Rightarrow> 32 word list \<Rightarrow> vfile \<Rightarrow> byte list \<Rightarrow> bool" where
  "sound p n B f m \<longleftrightarrow> (\<forall>i<n. test_bit m i \<longrightarrow> B ! i \<noteq> DD_BLK_UNUSED \<and> full p f (B ! i))"

definition same_on :: "vfile \<Rightarrow> vfile \<Rightarrow> nat \<Rightarrow> nat \<Rightarrow> bool" where
  "same_on f g a b \<longleftrightarrow> (\<forall>i. a \<le> i \<and> i < b \<longrightarrow> fbyte g i = fbyte f i)"

lemma same_on_mono: "same_on f g a b \<Longrightarrow> a \<le> a' \<Longrightarrow> b' \<le> b \<Longrightarrow> same_on f g a' b'"
  by (auto simp: same_on_def)

lemma same_on_fread: "same_on f g a b \<Longrightarrow> a \<le> off \<Longrightarrow> off + n \<le> b \<Longrightarrow> fread g off n = fread f off n"
  by (intro fread_eqI) (auto simp: same_on_def)

lemma torn_same_on: "torn f off bs g \<Longrightarrow> b \<le> off \<or> off + length bs \<le> a \<Longrightarrow> same_on f g a b"
  by (auto simp: same_on_def intro!: torn_outside)

lemma blk_same:
  assumes "same_on f g (unat e * 512) ((unat e + 1 + p) * 512)"
  shows "blk_bit g e i = blk_bit f e i" "i < p \<Longrightarrow> blk_sec g e i = blk_sec f e i"
  using same_on_fread [OF assms, of "unat e * 512" 512] same_on_fread [OF assms, of "(unat e + 1 + i) * 512" 512]
  by (auto simp: blk_bit_def blk_sec_def)

definition blocks_same :: "nat \<Rightarrow> nat \<Rightarrow> 32 word list \<Rightarrow> vfile \<Rightarrow> vfile \<Rightarrow> bool" where
  "blocks_same p n B f g \<longleftrightarrow>
     (\<forall>i<n. B ! i \<noteq> DD_BLK_UNUSED \<longrightarrow> same_on f g (unat (B ! i) * 512) ((unat (B ! i) + 1 + p) * 512))"

lemma view_same: "blocks_same p n B f g \<Longrightarrow> 0 < p \<Longrightarrow> view p n B g k = view p n B f k"
  using blk_same [of f g "B ! (k div p)" p "k mod p"] by (auto simp: view_def blocks_same_def Let_def)

lemma sound_same: "blocks_same p n B f g \<Longrightarrow> sound p n B f m \<Longrightarrow> sound p n B g m"
  using blk_same(1) by (auto simp: sound_def full_def blocks_same_def)

lemma blocks_sameI:
  assumes "blocks_ok lo lim (p + 1) n B" "same_on f g (lo * 512) (data_end lo (p + 1) (take n B) * 512)" "n \<le> length B"
  shows "blocks_same p n B f g"
  unfolding blocks_same_def
proof (intro allI impI)
  fix i assume i: "i < n" "B ! i \<noteq> DD_BLK_UNUSED"
  then have "B ! i \<in> set (take n B)" using assms(3) by (metis in_set_conv_nth length_take min.absorb2 nth_take)
  from data_end_mem [OF this i(2), of "p + 1" lo] assms(1) i
  show "same_on f g (unat (B ! i) * 512) ((unat (B ! i) + 1 + p) * 512)"
    by (intro same_on_mono [OF assms(2)]) (auto simp: blocks_ok_def)
qed

end
