(* ===== verification/Vhd_Io_Inv.thy ===== *)
theory Vhd_Io_Inv
  imports Vhd_Io Vhd_Layout
begin

text \<open>The invariant of an open dynamic image and the contracts of the metadata operations under it.
  The contracts hold for every sequence of faults the transfers may meet.\<close>

subsection \<open>The invariant\<close>

text \<open>Where the metadata lies: the batmap's bits (in bytes), the sectors reserved for them, and the
  first sector that is not metadata.\<close>

record img_layout =
  l_map :: nat
  l_msecs :: nat
  l_lo :: nat

definition has_bm :: "vhd_context \<Rightarrow> bool" where
  "has_bm s \<longleftrightarrow> vhd_creator_tapdisk s \<and> VHD_VERSION 0 1 < crtr_ver (footer s)"

definition tbl :: "vhd_context \<Rightarrow> nat" where
  "tbl s = unat (table_offset (header s))"

definition bm_hoff :: "vhd_context \<Rightarrow> nat" where
  "bm_hoff s = tbl s + vhd_bytes_padded (unat (max_bat_size (header s)) * 4)"

definition hdr_end :: "img_layout \<Rightarrow> vhd_context \<Rightarrow> int" where
  "hdr_end L s =
     (let eom = max (off_add (to_off64 (ftr_data_offset (footer s))) 1024)
                  (off_add (to_off64 (table_offset (header s)))
                     (u32 (vhd_bytes_padded (unat (max_bat_size (header s)) * 4))))
      in locators_end (loc (header s))
           (if has_bm s
            then max (max eom (off_add (vhd_batmap_header_offset (header s))
                                 (vhd_sectors_to_bytes (secs_round_up_no_zero 512))))
                   (off_add (int (l_map L)) (vhd_sectors_to_bytes (l_msecs L)))
            else eom))"

definition geom :: "img_layout \<Rightarrow> vhd_context \<Rightarrow> bool" where
  "geom L s \<longleftrightarrow> vhd_type_dynamic s \<and> footer_wf (footer s) \<and> 0 < spb s \<and> spb s \<le> 4096 \<and>
     unat (block_size (header s)) = spb s * 512 \<and> bm_secs s = 1 \<and> 0 < pagesize s div 512 \<and>
     (has_bm s \<longrightarrow> VHD_VERSION 1 2 \<le> crtr_ver (footer s)) \<and>
     hdr_end L s = int (l_lo L * 512) \<and> l_lo L < 4294967296 \<and> 0 < l_lo L \<and>
     512 \<le> tbl s \<and> tbl s + vhd_bytes_padded (entries (ctx_bat s) * 4) \<le> l_lo L * 512 \<and>
     entries (ctx_bat s) < 4294967296 \<and>
     unat (curr_size (footer s)) \<le> entries (ctx_bat s) * spb s * 512 \<and>
     (has_bm s \<longrightarrow> tbl s + vhd_bytes_padded (entries (ctx_bat s) * 4) \<le> bm_hoff s \<and> bm_hoff s + 512 \<le> l_map L \<and>
        l_map L + batmap_map_size (footer s) \<le> l_lo L * 512 \<and> batmap_map_size (footer s) \<le> l_msecs L * 512 \<and>
        l_msecs L < 1048576 \<and> entries (ctx_bat s) \<le> 8 * batmap_map_size (footer s))"

definition room_limit :: "vfile \<Rightarrow> nat" where
  "room_limit f = (if fblk f then min 4294967295 ((fsize f - 512) div 512) else 4294967295)"

definition disk_fields :: "img_layout \<Rightarrow> byte list" where
  "disk_fields L = le_bytes 8 (bswap_64 (of_nat (l_map L) :: 64 word)) @ le_bytes 4 (bswap_32 (of_nat (l_msecs L) :: 32 word))"

text \<open>What the file must satisfy for the table in memory.\<close>

definition stored :: "img_layout \<Rightarrow> vhd_context \<Rightarrow> vfile \<Rightarrow> 32 word list \<Rightarrow> bool" where
  "stored L s f B \<longleftrightarrow> is_block s = fblk f \<and>
     entries (ctx_bat s) \<le> length B \<and> vhd_bytes_padded (entries (ctx_bat s) * 4) \<le> 4 * length B \<and>
     blocks_ok (l_lo L) (room_limit f) (spb s + 1) (entries (ctx_bat s)) B \<and>
     data_end (l_lo L) (spb s + 1) (take (entries (ctx_bat s)) B) +
       unused (entries (ctx_bat s)) B * (spb s + 1 + pagesize s div 512) \<le> room_limit f \<and>
     (has_bm s \<longrightarrow> fread f (bm_hoff s + 8) 12 = disk_fields L \<and>
        sound (spb s) (entries (ctx_bat s)) B f (fread f (l_map L) (batmap_map_size (footer s))))"

definition bm_ok :: "img_layout \<Rightarrow> vhd_context \<Rightarrow> vfile \<Rightarrow> 32 word list \<Rightarrow> vhd_batmap \<Rightarrow> bool" where
  "bm_ok L s f B bm \<longleftrightarrow> (case bm_map bm of None \<Rightarrow> True
     | Some m \<Rightarrow> length m = batmap_map_size (footer s) \<and> batmap_header_wf (bm_header bm) \<and>
         batmap_offset (bm_header bm) = of_nat (l_map L) \<and> batmap_size (bm_header bm) = of_nat (l_msecs L) \<and>
         sound (spb s) (entries (ctx_bat s)) B f m)"

definition img :: "img_layout \<Rightarrow> vhd_context \<Rightarrow> vfile \<Rightarrow> 32 word list \<Rightarrow> bool" where
  "img L s f B \<longleftrightarrow> geom L s \<and> \<not> panicked s \<and> cur_file s = Some f \<and> bat (ctx_bat s) = Some B \<and>
     stored L s f B \<and> (has_bm s \<longrightarrow> bm_ok L s f B (batmap s))"

text \<open>What the operations on an open image keep.\<close>

definition kept :: "vhd_context \<Rightarrow> vhd_context \<Rightarrow> bool" where
  "kept s t \<longleftrightarrow> frame s t \<and> entries (ctx_bat t) = entries (ctx_bat s)"

lemma kept_refl [simp]: "kept s s"
  by (simp add: kept_def)

lemma kept_trans: "kept s t \<Longrightarrow> kept t u \<Longrightarrow> kept s u"
  by (auto simp: kept_def intro: frame_trans)

lemma kept_upd [simp]:
  "kept s (t\<lparr>faults := fl\<rparr>) = kept s t" "kept s (t\<lparr>offset := k\<rparr>) = kept s t"
  "kept s (t\<lparr>batmap := m\<rparr>) = kept s t" "kept s (put_file g t) = kept s t"
  by (simp_all add: kept_def)

lemma kept_static:
  assumes "kept s t"
  shows "has_bm t = has_bm s" "tbl t = tbl s" "bm_hoff t = bm_hoff s" "hdr_end L t = hdr_end L s"
    "geom L t = geom L s" "stored L t f B = stored L s f B" "bm_ok L t f B bm = bm_ok L s f B bm"
    "spb t = spb s" "entries (ctx_bat t) = entries (ctx_bat s)" "footer t = footer s" "header t = header s"
    "bm_secs t = bm_secs s" "pagesize t = pagesize s" "is_block t = is_block s" "panicked t = panicked s" "oflags t = oflags s"
proof -
  have eqs: "header t = header s" "footer t = footer s" "spb t = spb s" "bm_secs t = bm_secs s"
    "pagesize t = pagesize s" "is_block t = is_block s" "panicked t = panicked s" "oflags t = oflags s"
    "entries (ctx_bat t) = entries (ctx_bat s)"
    using assms by (simp_all add: kept_def frame_def)
  show "spb t = spb s" "entries (ctx_bat t) = entries (ctx_bat s)" "footer t = footer s" "header t = header s"
    "bm_secs t = bm_secs s" "pagesize t = pagesize s" "is_block t = is_block s" "panicked t = panicked s" "oflags t = oflags s"
    by (rule eqs)+
  show bm: "has_bm t = has_bm s" unfolding has_bm_def vhd_creator_tapdisk_def eqs ..
  show tb: "tbl t = tbl s" unfolding tbl_def eqs ..
  show ho: "bm_hoff t = bm_hoff s" unfolding bm_hoff_def tb eqs ..
  show he: "hdr_end L t = hdr_end L s" unfolding hdr_end_def bm eqs ..
  show "geom L t = geom L s" unfolding geom_def bm tb ho he eqs vhd_type_dynamic_def ..
  show "stored L t f B = stored L s f B" unfolding stored_def bm ho eqs ..
  show "bm_ok L t f B bm = bm_ok L s f B bm" unfolding bm_ok_def eqs ..
qed

lemma imgI:
  assumes "img L s f B" "kept s t" "cur_file t = Some g" "bat (ctx_bat t) = Some C" "stored L s g C"
    "has_bm s \<Longrightarrow> bm_ok L s g C (batmap t)"
  shows "img L t g C"
  using assms kept_static [OF assms(2)] by (simp add: img_def)

lemma imgD:
  assumes "img L s f B"
  shows "geom L s" "\<not> panicked s" "cur_file s = Some f" "bat (ctx_bat s) = Some B" "stored L s f B"
    "has_bm s \<Longrightarrow> bm_ok L s f B (batmap s)" "vhd_type_dynamic s"
  using assms by (simp_all add: img_def geom_def)

lemma geomD:
  assumes "geom L s"
  shows "0 < spb s" "spb s \<le> 4096" "bm_secs s = 1" "footer_wf (footer s)" "vhd_type_dynamic s"
    "512 \<le> tbl s" "tbl s + vhd_bytes_padded (entries (ctx_bat s) * 4) \<le> l_lo L * 512" "l_lo L < 4294967296"
    "hdr_end L s = int (l_lo L * 512)" "0 < l_lo L" "entries (ctx_bat s) < 4294967296" "0 < pagesize s div 512"
    "unat (curr_size (footer s)) \<le> entries (ctx_bat s) * spb s * 512" "unat (block_size (header s)) = spb s * 512"
  using assms by (simp_all add: geom_def)

lemma geom_bmD:
  assumes "geom L s" "has_bm s"
  shows "tbl s + vhd_bytes_padded (entries (ctx_bat s) * 4) \<le> bm_hoff s" "bm_hoff s + 512 \<le> l_map L"
    "l_map L + batmap_map_size (footer s) \<le> l_lo L * 512" "batmap_map_size (footer s) \<le> l_msecs L * 512"
    "l_msecs L < 1048576" "entries (ctx_bat s) \<le> 8 * batmap_map_size (footer s)"
  using assms by (simp_all add: geom_def)

subsection \<open>Offsets\<close>

lemma off_add_small: "0 \<le> a \<Longrightarrow> a + int n < 9223372036854775808 \<Longrightarrow> off_add a n = a + int n"
proof -
  assume a: "0 \<le> a" "a + int n < 9223372036854775808"
  have "off_add a n = to_off64 (word_of_int (a + int n))"
    unfolding off_add_def to_off64_def by simp
  also have "\<dots> = a + int n" using a by (intro to_off64_word_of_int) auto
  finally show "off_add a n = a + int n" .
qed

lemma tbl_off: "geom L s \<Longrightarrow> to_off64 (table_offset (header s)) = int (tbl s)"
  using geomD(7,8) [of L s] by (simp add: tbl_def to_off64_small)

lemma bm_hoff_off: "geom L s \<Longrightarrow> has_bm s \<Longrightarrow> vhd_batmap_header_offset (header s) = int (bm_hoff s)"
  using geom_bmD(2,3) [of L s] geomD(8) [of L s] tbl_off [of L s] off_add_small [of "int (tbl s)"]
  by (simp add: vhd_batmap_header_offset_def bm_hoff_def)

subsection \<open>The table and the presence of a batmap\<close>

lemma wp_has_batmap: "geom L s \<Longrightarrow> wp vhd_has_batmap Q s = Q (has_bm s) s"
  by (cases "crtr_ver (footer s) \<le> VHD_VERSION 0 1")
     (auto simp: vhd_has_batmap_def wp_simps has_bm_def geom_def not_le leD)

lemma wp_get_bat: "img L s f B \<Longrightarrow> wp vhd_get_bat Q s = Q 0 s"
  by (simp add: vhd_get_bat_def wp_simps img_def geom_def vhd_validate_bat_def)

subsection \<open>Reading the batmap\<close>

text \<open>Only the pending faults and the file position differ.\<close>

definition moved :: "vhd_context \<Rightarrow> vhd_context \<Rightarrow> bool" where
  "moved s t \<longleftrightarrow> t = s\<lparr>faults := faults t, offset := offset t\<rparr>"

lemma moved_refl [simp]: "moved s s"
  by (simp add: moved_def)

lemma moved_upd [simp]: "moved s (t\<lparr>faults := x\<rparr>) = moved s t" "moved s (t\<lparr>offset := k\<rparr>) = moved s t"
proof -
  show "moved s (t\<lparr>faults := x\<rparr>) = moved s t" "moved s (t\<lparr>offset := k\<rparr>) = moved s t"
    unfolding moved_def by (cases s, cases t, auto)+
qed

lemma moved_trans: "moved s t \<Longrightarrow> moved t u \<Longrightarrow> moved s u"
  unfolding moved_def by (metis vhd_context.surjective vhd_context.update_convs(5) moved_def moved_upd)

lemma movedD:
  assumes "moved s t"
  shows "kept s t" "cur_file t = cur_file s" "ctx_bat t = ctx_bat s" "batmap t = batmap s" "panicked t = panicked s"
    "files t = files s" "spb t = spb s" "header t = header s" "footer t = footer s"
proof -
  from assms have t: "t = s\<lparr>faults := faults t, offset := offset t\<rparr>" by (simp add: moved_def)
  show "kept s t" "cur_file t = cur_file s" "ctx_bat t = ctx_bat s" "batmap t = batmap s" "panicked t = panicked s"
    "files t = files s" "spb t = spb s" "header t = header s" "footer t = footer s"
    by (subst t, simp)+
qed

lemma moved_img:
  assumes "moved s t" "img L s f B"
  shows "img L t f B"
  by (rule imgI [OF assms(2) movedD(1) [OF assms(1)]])
     (use imgD [OF assms(2)] movedD [OF assms(1)] in simp_all)

lemma buf_get_fread: "i + n \<le> m \<Longrightarrow> buf_get (fread f off m) i n = fread f (off + i) n"
  by (intro nth_equalityI) (auto simp: buf_get_def add.assoc)

definition hdr_fields_ok :: "img_layout \<Rightarrow> vhd_batmap_header \<Rightarrow> bool" where
  "hdr_fields_ok L h \<longleftrightarrow> batmap_header_wf h \<and> batmap_offset h = of_nat (l_map L) \<and> batmap_size h = of_nat (l_msecs L)"

lemma hdr_fields_disk:
  assumes "fread f (off + 8) 12 = disk_fields L"
  shows "hdr_fields_ok L (vhd_batmap_header_in (bytes_batmap_header (fread f off 512)))"
proof -
  have "fread f (off + 8) 8 = take 8 (fread f (off + 8) 12)" "fread f (off + 16) 4 = drop 8 (fread f (off + 8) 12)"
    by (auto intro!: nth_equalityI simp: add.assoc)
  then have "fread f (off + 8) 8 = le_bytes 8 (bswap_64 (of_nat (l_map L) :: 64 word))"
    "fread f (off + 16) 4 = le_bytes 4 (bswap_32 (of_nat (l_msecs L) :: 32 word))"
    unfolding assms by (simp_all add: disk_fields_def)
  moreover have "batmap_header_wf (vhd_batmap_header_in (bytes_batmap_header (fread f off 512)))"
    by (rule bmh.ok_load) simp
  ultimately show ?thesis
    by (simp add: hdr_fields_ok_def vhd_batmap_header_in_def bytes_batmap_header_def buf_get_fread)
qed

lemma wp_read_batmap_header:
  assumes s: "cur_file s = Some f" "\<not> panicked s" and d: "fread f (bm_hoff s + 8) 12 = disk_fields L"
    and g: "geom L s" "has_bm s"
    and Q: "\<And>r b t. moved s t \<Longrightarrow> bm_map b = bm_map bm \<Longrightarrow> (r = 0 \<Longrightarrow> hdr_fields_ok L (bm_header b)) \<Longrightarrow> Q (r, b) t"
  shows "wp (vhd_read_batmap_header bm) Q s"
proof -
  have p: "vhd_bytes_padded 512 = 512" by (simp add: vhd_bytes_padded_eq secs_round_up_no_zero_eq)
  show ?thesis
    unfolding vhd_read_batmap_header_def p
    by (auto simp: wp_simps s bm_hoff_off [OF g] hdr_fields_disk [OF d] split: if_splits
        intro!: wp_seek_set [of _ f] wp_posix_memalign wp_vhd_read [of _ f] Q)
qed

lemma wp_read_batmap_map:
  assumes s: "cur_file s = Some f" "\<not> panicked s" and g: "geom L s" "has_bm s"
    and h: "hdr_fields_ok L (bm_header bm)"
    and Q: "\<And>r m t. moved s t \<Longrightarrow> (r = 0 \<Longrightarrow> m = Some (fread f (l_map L) (batmap_map_size (footer s)))) \<Longrightarrow>
      (r \<noteq> 0 \<Longrightarrow> m = None) \<Longrightarrow> Q (r, bm\<lparr>bm_map := m\<rparr>) t"
  shows "wp (vhd_read_batmap_map bm) Q s"
proof -
  have ms: "unat (batmap_size (bm_header bm)) = l_msecs L"
    using h geom_bmD(5) [OF g] by (simp add: hdr_fields_ok_def unat_of_nat_u32)
  have mo: "to_off64 (batmap_offset (bm_header bm)) = int (l_map L)"
    using h geom_bmD(3) [OF g] geomD(8) [OF g(1)] by (simp add: hdr_fields_ok_def to_off64_small unat_of_nat_u64)
  have le: "batmap_map_size (footer s) \<le> vhd_sectors_to_bytes (l_msecs L)"
    using geom_bmD(4,5) [OF g] by simp
  show ?thesis
    unfolding vhd_read_batmap_map_def ms mo
    by (auto simp: wp_simps s le split: if_splits
        intro!: wp_seek_set [of _ f] wp_posix_memalign wp_vhd_read [of _ f] Q)
qed

lemma geom_batmap [simp]:
  "geom L (s\<lparr>batmap := b\<rparr>) = geom L s" "has_bm (s\<lparr>batmap := b\<rparr>) = has_bm s" "bm_hoff (s\<lparr>batmap := b\<rparr>) = bm_hoff s"
  by (rule kept_static, simp)+

lemma moved_geom: "moved s t \<Longrightarrow> geom L t = geom L s" "moved s t \<Longrightarrow> has_bm t = has_bm s"
  using kept_static [OF movedD(1)] by blast+

lemma zero_batmap_map [simp]: "bm_map zero_batmap = None"
  by (simp add: zero_batmap_def)

lemma bm_ok_None: "bm_map (bm :: vhd_batmap) = None \<Longrightarrow> bm_ok L s f B bm"
  by (simp add: bm_ok_def)

lemma wp_read_batmap:
  assumes s: "cur_file s = Some f" "\<not> panicked s" "geom L s" "has_bm s" "stored L s f B"
    and Q: "\<And>r b t. moved s t \<Longrightarrow> bm_ok L s f B b \<Longrightarrow> (r = 0 \<Longrightarrow> bm_map b \<noteq> None) \<Longrightarrow> Q (r, Some b) t"
  shows "wp vhd_read_batmap Q s"
proof -
  have d: "fread f (bm_hoff s + 8) 12 = disk_fields L"
    and snd: "sound (spb s) (entries (ctx_bat s)) B f (fread f (l_map L) (batmap_map_size (footer s)))"
    using s(4,5) by (simp_all add: stored_def)
  show ?thesis
    unfolding vhd_read_batmap_def wp_bind wp_has_batmap [OF s(3)] if_P [OF s(4)]
    apply (simp add: s(4) wp_simps)
    apply (rule wp_read_batmap_header [OF s(1,2) d s(3,4)])
    subgoal for r b t
      using s movedD [of s t] moved_geom [of s t] snd
      by (auto simp: wp_simps bm_ok_None hdr_fields_ok_def bm_ok_def split: if_splits
          intro!: wp_read_batmap_map [of t f L] Q intro: moved_trans)
    done
qed

lemma moved_batmap: "moved (s\<lparr>batmap := a\<rparr>) t \<Longrightarrow> moved (s\<lparr>batmap := b\<rparr>) (t\<lparr>batmap := b\<rparr>)"
  unfolding moved_def by (cases s, cases t) auto

lemma wp_get_batmap:
  assumes i: "img L s f B" and h: "has_bm s"
    and Q: "\<And>r t. moved (s\<lparr>batmap := batmap t\<rparr>) t \<Longrightarrow> bm_ok L s f B (batmap t) \<Longrightarrow>
      (r = 0 \<Longrightarrow> bm_map (batmap t) \<noteq> None) \<Longrightarrow> Q r t"
  shows "wp vhd_get_batmap Q s"
proof -
  note s = imgD [OF i]
  let ?z = "s\<lparr>batmap := zero_batmap\<rparr>"
  have z: "cur_file ?z = Some f" "\<not> panicked ?z" "geom L ?z" "has_bm ?z" "stored L ?z f B"
    using s h kept_static(6) [of s ?z] by simp_all
  have re: "wp vhd_read_batmap (\<lambda>x. wp (case x of (err, bm) \<Rightarrow> do {
       (case bm of None \<Rightarrow> ret () | Some b \<Rightarrow> modify (\<lambda>s. s\<lparr>batmap := b\<rparr>)); ret err }) Q) ?z"
    apply (rule wp_read_batmap [OF z])
    subgoal for r b t
      apply (simp add: wp_simps, rule Q)
      using movedD [of ?z t] kept_static(7) [of s ?z L f B b]
      by (auto intro: moved_batmap)
    done
  show ?thesis
    unfolding vhd_get_batmap_def wp_bind wp_has_batmap [OF s(1)]
    using re Q [of s] s(6) [OF h]
    by (auto simp: wp_simps h vhd_put_batmap_def s wp_has_batmap [OF s(1)] vhd_validate_batmap_def split: if_splits)
qed

subsection \<open>Extents\<close>

definition blocks_end :: "img_layout \<Rightarrow> vhd_context \<Rightarrow> 32 word list \<Rightarrow> nat" where
  "blocks_end L s B = data_end (l_lo L) (spb s + 1) (take (entries (ctx_bat s)) B)"

lemma reloaded_img:
  assumes "moved (s\<lparr>batmap := batmap t\<rparr>) t" "img L s f B" "has_bm s \<Longrightarrow> bm_ok L s f B (batmap t)"
  shows "img L t f B" "kept s t" "ctx_bat t = ctx_bat s"
proof -
  note m = movedD [OF assms(1)]
  show k: "kept s t" using m(1) by (simp add: kept_def frame_def)
  show c: "ctx_bat t = ctx_bat s" using m(3) by simp
  show "img L t f B"
    by (rule imgI [OF assms(2) k]) (use m(2) c imgD [OF assms(2)] assms(3) in simp_all)
qed

lemma reloaded_refl [simp]: "moved (s\<lparr>batmap := batmap s\<rparr>) s"
  by (simp add: moved_def)

lemma bm_ok_fields:
  assumes "geom L s" "has_bm s" "bm_ok L s f B bm" "bm_map bm \<noteq> None"
  shows "to_off64 (batmap_offset (bm_header bm)) = int (l_map L)" "unat (batmap_size (bm_header bm)) = l_msecs L"
  using assms geom_bmD(3,5) [OF assms(1,2)] geomD(8) [OF assms(1)]
  by (auto simp: bm_ok_def to_off64_small unat_of_nat_u64 unat_of_nat_u32)

lemma wp_end_of_headers:
  assumes i: "img L s f B"
    and Q: "\<And>r v t. img L t f B \<Longrightarrow> kept s t \<Longrightarrow> ctx_bat t = ctx_bat s \<Longrightarrow> (r = 0 \<Longrightarrow> v = int (l_lo L * 512)) \<Longrightarrow> Q (r, v) t"
  shows "wp vhd_end_of_headers Q s"
proof (cases "has_bm s")
  case True
  have v: "(0, locators_end (loc (header s)) (max (max (max (off_add (to_off64 (ftr_data_offset (footer s))) 1024)
      (off_add (to_off64 (table_offset (header s))) (u32 (vhd_bytes_padded (unat (max_bat_size (header s)) * 4)))))
      (off_add (vhd_batmap_header_offset (header s)) (vhd_sectors_to_bytes (secs_round_up_no_zero 512))))
      (off_add (int (l_map L)) (vhd_sectors_to_bytes (l_msecs L))))) = (0, int (l_lo L * 512))"
    using geomD(9) [OF imgD(1) [OF i]] True by (simp add: hdr_end_def Let_def)
  show ?thesis
    unfolding vhd_end_of_headers_def
    apply (simp add: wp_simps Let_def imgD(7) [OF i] wp_has_batmap [OF imgD(1) [OF i]] True)
    apply (rule wp_get_batmap [OF i True])
    subgoal for r t
      using reloaded_img [OF _ i, of t] bm_ok_fields [OF imgD(1) [OF i] True, of f B "batmap t"] v
      by (auto simp: wp_simps intro!: Q)
    done
next
  case False
  have "locators_end (loc (header s)) (max (off_add (to_off64 (ftr_data_offset (footer s))) 1024)
      (off_add (to_off64 (table_offset (header s))) (u32 (vhd_bytes_padded (unat (max_bat_size (header s)) * 4)))))
     = int (l_lo L * 512)"
    using geomD(9) [OF imgD(1) [OF i]] False by (simp add: hdr_end_def Let_def)
  then show ?thesis
    unfolding vhd_end_of_headers_def
    using Q [OF i] by (simp add: wp_simps Let_def imgD(7) [OF i] wp_has_batmap [OF imgD(1) [OF i]] False)
qed

lemma room_limit_le: "room_limit f \<le> 4294967295"
  by (simp add: room_limit_def)

lemma blocks_end_le: "img L s f B \<Longrightarrow> blocks_end L s B \<le> room_limit f"
  using imgD(5) [of L s f B] by (simp add: stored_def blocks_end_def)

lemma push_bit_9: "m < 36028797018963968 \<Longrightarrow> unat (push_bit 9 (w :: 64 word)) = unat w * 512" if "unat w = m" for w
proof -
  assume "m < 36028797018963968"
  then have l: "unat w * 512 < 18446744073709551616" using that by simp
  have "push_bit 9 w = of_nat (unat w * 512)" by (simp add: push_bit_eq_mult)
  also have "unat \<dots> = unat w * 512" using l by (rule unat_of_nat_u64)
  finally show ?thesis .
qed

lemma wp_end_of_data:
  assumes i: "img L s f B"
    and Q: "\<And>r v t. img L t f B \<Longrightarrow> kept s t \<Longrightarrow> ctx_bat t = ctx_bat s \<Longrightarrow>
      (r = 0 \<Longrightarrow> v = int (blocks_end L s B * 512)) \<Longrightarrow> Q (r, v) t"
  shows "wp vhd_end_of_data Q s"
proof -
  have g: "geom L s" by (rule imgD(1) [OF i])
  have lo: "l_lo L < 4294967296" "spb s + bm_secs s = spb s + 1" "spb s + 1 < 4294967296"
    using geomD(8,3,2) [OF g] by simp_all
  let ?m = "vhd_end_of_blocks (spb s + 1) (take (entries (ctx_bat s)) B) (word_of_int (int (l_lo L * 512) div 512))"
  have "unat (word_of_int (int (l_lo L * 512) div 512) :: 64 word) = l_lo L"
    using lo(1) unat_of_nat_u64 [of "l_lo L"] by simp
  then have um: "unat ?m = blocks_end L s B"
    unfolding vhd_end_of_blocks_eq [OF lo(3)] blocks_end_def by simp
  have b: "blocks_end L s B < 4294967296"
    using blocks_end_le [OF i] room_limit_le [of f] by linarith
  have pb: "unat (push_bit 9 ?m) = blocks_end L s B * 512"
    using push_bit_9 [OF um] b um by simp
  have "to_off64 (push_bit 9 ?m) = int (unat (push_bit 9 ?m))"
    by (rule to_off64_small) (use pb b in simp)
  then have v: "to_off64 (push_bit 9 ?m) = int (blocks_end L s B * 512)" by (simp only: pb)
  show ?thesis
    unfolding vhd_end_of_data_def
    apply (simp add: wp_simps imgD(7) [OF i])
    apply (rule wp_end_of_headers [OF i])
    subgoal for r v' t
      using Q [of t] v lo(2) kept_static [of s t] imgD(4) [of L t f B] by (auto simp: wp_simps wp_get_bat)
    done
qed

end
