(* ===== verification/Vhd_Io_Write.thy ===== *)
theory Vhd_Io_Write
  imports Vhd_Io_Inv
begin

text \<open>Writing to a dynamic image: the contracts of the allocation of a block, of the bitmap and batmap
  updates and of the footer, and what \<^verbatim>\<open>vhd_io_write\<close> does to the sectors of the image.\<close>

subsection \<open>Writes outside the blocks\<close>

definition apart :: "nat \<Rightarrow> nat \<Rightarrow> nat \<Rightarrow> nat \<Rightarrow> bool" where
  "apart off n a m \<longleftrightarrow> off + n \<le> a \<or> a + m \<le> off"

lemma torn_apart: "torn f off bs g \<Longrightarrow> apart off (length bs) a m \<Longrightarrow> fread g a m = fread f a m"
  by (rule same_on_fread [OF torn_same_on, of f off bs g "a + m" a]) (auto simp: apart_def)

lemma torn_room: "torn f off bs g \<Longrightarrow> room_limit g = room_limit f"
  by (auto simp: torn_def room_limit_def)

lemma stored_meta:
  assumes st: "stored L s f B" and t: "torn f off bs g"
    and out: "off + length bs \<le> l_lo L * 512 \<or> blocks_end L s B * 512 \<le> off"
    and bm: "has_bm s \<Longrightarrow> fread g (bm_hoff s + 8) 12 = disk_fields L \<and>
      sound (spb s) (entries (ctx_bat s)) B f (fread g (l_map L) (batmap_map_size (footer s)))"
  shows "stored L s g B" "blocks_same (spb s) (entries (ctx_bat s)) B f g"
proof -
  from t out have "same_on f g (l_lo L * 512) (blocks_end L s B * 512)"
    by (intro torn_same_on) auto
  then show bs: "blocks_same (spb s) (entries (ctx_bat s)) B f g"
    using st by (intro blocks_sameI [of "l_lo L" "room_limit f"]) (auto simp: stored_def blocks_end_def)
  show "stored L s g B"
    using st bm torn_fblk [OF t] sound_same [OF bs] by (auto simp: stored_def torn_room [OF t])
qed

lemma bm_ok_same:
  assumes "blocks_same (spb s) (entries (ctx_bat s)) B f g" "bm_ok L s f B bm"
  shows "bm_ok L s g B bm"
  using assms sound_same [OF assms(1)] by (auto simp: bm_ok_def split: option.splits)

text \<open>The new state after a write to the file.\<close>

definition file_of :: "vhd_context \<Rightarrow> vfile" where
  "file_of t = the (cur_file t)"

definition wrote :: "vhd_context \<Rightarrow> vhd_context \<Rightarrow> bool" where
  "wrote s t \<longleftrightarrow> moved (put_file (file_of t) s) t"

lemma file_of_upd [simp]:
  "file_of (s\<lparr>faults := fl\<rparr>) = file_of s" "file_of (s\<lparr>offset := k\<rparr>) = file_of s"
  "file_of (s\<lparr>batmap := m\<rparr>) = file_of s" "file_of (s\<lparr>ctx_bat := b\<rparr>) = file_of s"
  by (simp_all add: file_of_def)

lemma file_of_img: "img L s f B \<Longrightarrow> file_of s = f"
  by (simp add: file_of_def img_def)

lemma file_of_eq: "cur_file s = Some f \<Longrightarrow> file_of s = f"
  by (simp add: file_of_def)

lemma file_of_put: "cur_file s = Some f \<Longrightarrow> file_of (put_file g s) = g"
  by (simp add: file_of_def cur_file_put_file)

lemma wrote_upd [simp]: "wrote s (t\<lparr>faults := fl\<rparr>) = wrote s t" "wrote s (t\<lparr>offset := k\<rparr>) = wrote s t"
  by (simp_all add: wrote_def)

lemma wrote_put: "cur_file s = Some f \<Longrightarrow> wrote s (put_file g s)"
  by (simp add: wrote_def file_of_put)

lemma wrote_refl: "cur_file s = Some f \<Longrightarrow> wrote s s"
  by (simp add: wrote_def file_of_eq put_file_same)

lemma wroteD:
  assumes "wrote s t" "cur_file s = Some f"
  shows "kept s t" "cur_file t = Some (file_of t)" "ctx_bat t = ctx_bat s" "batmap t = batmap s"
proof -
  note m = movedD [OF assms(1) [unfolded wrote_def]]
  show "kept s t" using kept_trans [OF _ m(1), of s] by simp
  show "cur_file t = Some (file_of t)" using m(2) cur_file_put_file [OF assms(2)] by simp
  show "ctx_bat t = ctx_bat s" "batmap t = batmap s" using m(3,4) by simp_all
qed

lemma moved_wrote: "moved s t \<Longrightarrow> cur_file s = Some f \<Longrightarrow> wrote s t"
  using movedD(2) [of s t] by (simp add: wrote_def file_of_def put_file_same)

lemma img_meta:
  assumes i: "img L s f B" and w: "wrote s t" and t: "torn f off bs (file_of t)"
    and out: "off + length bs \<le> l_lo L * 512 \<or> blocks_end L s B * 512 \<le> off"
    and bm: "has_bm s \<Longrightarrow> fread (file_of t) (bm_hoff s + 8) 12 = disk_fields L \<and>
      sound (spb s) (entries (ctx_bat s)) B f (fread (file_of t) (l_map L) (batmap_map_size (footer s)))"
  shows "img L t (file_of t) B" "blocks_same (spb s) (entries (ctx_bat s)) B f (file_of t)"
proof -
  note st = stored_meta [OF imgD(5) [OF i] t out bm]
  show "blocks_same (spb s) (entries (ctx_bat s)) B f (file_of t)" by (rule st(2))
  show "img L t (file_of t) B"
    by (rule imgI [OF i]) (use wroteD [OF w imgD(3) [OF i]] imgD [OF i] st bm_ok_same [OF st(2)] in auto)
qed

lemma stored_bm:
  assumes "img L s f B" "has_bm s"
  shows "fread f (bm_hoff s + 8) 12 = disk_fields L"
    "sound (spb s) (entries (ctx_bat s)) B f (fread f (l_map L) (batmap_map_size (footer s)))"
  using imgD(5) [OF assms(1)] assms(2) by (simp_all add: stored_def)

lemma img_outside:
  assumes i: "img L s f B" and w: "wrote s t" and t: "torn f off bs (file_of t)"
    and out: "off + length bs \<le> l_lo L * 512 \<or> blocks_end L s B * 512 \<le> off"
    and bm: "has_bm s \<Longrightarrow> apart off (length bs) (bm_hoff s + 8) 12 \<and> apart off (length bs) (l_map L) (batmap_map_size (footer s))"
  shows "img L t (file_of t) B" "blocks_same (spb s) (entries (ctx_bat s)) B f (file_of t)"
  using img_meta [OF i w t out] stored_bm [OF i] torn_apart [OF t] bm by auto

subsection \<open>The table\<close>

lemma length_bytes_of [simp]: "length (bytes_of ws) = 4 * length ws"
  by (induction ws) (auto simp: bytes_of_def)

definition bat_image :: "vhd_context \<Rightarrow> 32 word list \<Rightarrow> byte list" where
  "bat_image s B = take (vhd_bytes_padded (entries (ctx_bat s) * 4)) (bytes_of (vhd_bat_out (entries (ctx_bat s)) B))"

lemma length_bat_image: "vhd_bytes_padded (entries (ctx_bat s) * 4) \<le> 4 * length B \<Longrightarrow>
   length (bat_image s B) = vhd_bytes_padded (entries (ctx_bat s) * 4)"
  by (auto simp: bat_image_def vhd_bat_out_def)

lemma wp_write_bat:
  assumes g: "geom L s" "\<not> panicked s" "cur_file s = Some f" "bat (ctx_bat s) = Some B"
    and len: "vhd_bytes_padded (entries (ctx_bat s) * 4) \<le> 4 * length B"
    and Q: "\<And>r t. wrote s t \<Longrightarrow> torn f (tbl s) (bat_image s B) (file_of t) \<Longrightarrow>
      (r = 0 \<Longrightarrow> fread (file_of t) (tbl s) (length (bat_image s B)) = bat_image s B) \<Longrightarrow> Q r t"
  shows "wp (vhd_write_bat (ctx_bat s)) Q s"
  unfolding vhd_write_bat_def
  using len tbl_off [OF g(1)] geomD(5) [OF g(1)]
  by (auto simp: wp_simps Let_def g(2-4) vhd_validate_bat_def bat_image_def [symmetric] split: if_splits
      simp: file_of_put [OF g(3)] file_of_eq [OF g(3)] wrote_put [OF g(3)] wrote_refl [OF g(3)]
      intro!: wp_seek_set [of _ f] wp_posix_memalign wp_vhd_write [of _ f] Q)

subsection \<open>Allocating a block\<close>

lemma sound_grow:
  assumes "sound p n B f m" "B ! blk = DD_BLK_UNUSED"
  shows "sound p n (B[blk := e]) f m"
  using assms unfolding sound_def by (metis nth_list_update_neq)

lemma stored_grow:
  assumes st: "stored L s f B" and b: "blk < entries (ctx_bat s)" "B ! blk = DD_BLK_UNUSED"
    and e: "blocks_end L s B \<le> unat e" "unat e < blocks_end L s B + pagesize s div 512"
  shows "stored L s f (B[blk := e])" "e \<noteq> DD_BLK_UNUSED" "unat e + (spb s + 1) \<le> room_limit f"
proof -
  let ?n = "entries (ctx_bat s)" and ?sz = "spb s + 1" and ?spp = "pagesize s div 512"
  have len: "?n \<le> length B" using st by (simp add: stored_def)
  have room: "blocks_end L s B + unused ?n B * (?sz + ?spp) \<le> room_limit f"
    using st by (simp add: stored_def blocks_end_def)
  have "{i. i < ?n \<and> B ! i = DD_BLK_UNUSED} \<noteq> {}" using b by auto
  then have "0 < unused ?n B" by (simp add: unused_def card_gt_0_iff)
  then obtain u where u: "unused ?n B = Suc u" using gr0_implies_Suc by blast
  show lim: "unat e + ?sz \<le> room_limit f" using room e(2) u by simp
  show ne: "e \<noteq> DD_BLK_UNUSED"
  proof
    assume "e = DD_BLK_UNUSED"
    then have "unat e = 4294967295" by simp
    with lim room_limit_le [of f] show False by simp
  qed
  have u': "unused ?n (B[blk := e]) = u"
    using unused_update [OF b(1) len b(2) ne] u by simp
  have "data_end (l_lo L) ?sz (take ?n (B[blk := e])) \<le> unat e + ?sz"
    by (rule data_end_grow [OF b(1) len]) (use e(1) in \<open>simp add: blocks_end_def\<close>)
  then have "data_end (l_lo L) ?sz (take ?n (B[blk := e])) + unused ?n (B[blk := e]) * (?sz + ?spp) \<le> room_limit f"
    using room e(2) u u' by simp
  moreover have "blocks_ok (l_lo L) (room_limit f) ?sz ?n (B[blk := e])"
    by (rule blocks_ok_grow [OF _ b(1) len]) (use st e(1) lim in \<open>auto simp: stored_def blocks_end_def\<close>)
  ultimately show "stored L s f (B[blk := e])"
    using st sound_grow [OF _ b(2)] by (auto simp: stored_def)
qed

lemma img_grow:
  assumes i: "img L s f B" and b: "blk < entries (ctx_bat s)" "B ! blk = DD_BLK_UNUSED"
    and e: "blocks_end L s B \<le> unat e" "unat e < blocks_end L s B + pagesize s div 512"
  shows "img L (s\<lparr>ctx_bat := (ctx_bat s)\<lparr>bat := Some (B[blk := e])\<rparr>\<rparr>) f (B[blk := e])"
proof (rule imgI [OF i])
  show "kept s (s\<lparr>ctx_bat := (ctx_bat s)\<lparr>bat := Some (B[blk := e])\<rparr>\<rparr>)" by (simp add: kept_def)
  show "stored L s f (B[blk := e])" by (rule stored_grow(1) [OF imgD(5) [OF i] b e])
  show "has_bm s \<Longrightarrow> bm_ok L s f (B[blk := e]) (batmap (s\<lparr>ctx_bat := (ctx_bat s)\<lparr>bat := Some (B[blk := e])\<rparr>\<rparr>))"
    using imgD(6) [OF i] sound_grow [OF _ b(2)] by (auto simp: bm_ok_def split: option.splits)
qed (use imgD [OF i] in simp_all)

lemma view_other: "0 < p \<Longrightarrow> k div p \<noteq> blk \<Longrightarrow> view p n (B[blk := e]) f k = view p n B f k"
  by (simp add: view_def)

lemma view_unset: "\<not> blk_bit f (B ! (k div p)) (k mod p) \<or> B ! (k div p) = DD_BLK_UNUSED \<Longrightarrow> view p n B f k = None"
  by (auto simp: view_def Let_def)

lemma blk_bit_zero:
  assumes "fread g off (length bs) = bs" "bs = replicate m 0" "off \<le> unat e * 512" "unat e * 512 + 512 \<le> off + m"
  shows "\<not> blk_bit g e i"
proof -
  have "fread g (unat e * 512) 512 = replicate 512 0"
  proof (rule nth_equalityI)
    fix k assume k: "k < length (fread g (unat e * 512) 512)"
    then have "fbyte g (unat e * 512 + k) = fread g off (length bs) ! (unat e * 512 + k - off)"
      using assms(2-4) by simp
    with k assms show "fread g (unat e * 512) 512 ! k = replicate 512 0 ! k" by simp
  qed simp
  then show ?thesis by (simp add: blk_bit_def test_bit_replicate_0)
qed

text \<open>A block fits into a file when the file reaches beyond it by at least a footer.  The writers only add
  entries to the table, and a block that fits goes on fitting.\<close>

definition blk_fits :: "nat \<Rightarrow> vfile \<Rightarrow> 32 word \<Rightarrow> bool" where
  "blk_fits p f e \<longleftrightarrow> (unat e + 1 + p) * 512 + 512 \<le> fsize f"

definition lasting :: "vhd_context \<Rightarrow> vhd_context \<Rightarrow> bool" where
  "lasting s t \<longleftrightarrow> (\<forall>i < entries (ctx_bat s). the (bat (ctx_bat s)) ! i \<noteq> DD_BLK_UNUSED \<longrightarrow>
     the (bat (ctx_bat t)) ! i = the (bat (ctx_bat s)) ! i \<and>
     (blk_fits (spb s) (file_of s) (the (bat (ctx_bat s)) ! i) \<longrightarrow> blk_fits (spb s) (file_of t) (the (bat (ctx_bat s)) ! i)))"

lemma lasting_refl [simp]: "lasting s s"
  by (simp add: lasting_def)

lemma lasting_trans: "lasting s t \<Longrightarrow> lasting t u \<Longrightarrow> kept s t \<Longrightarrow> lasting s u"
  using kept_static(8,9) [of s t] by (auto simp: lasting_def)

lemma lastingI:
  assumes "fsize (file_of s) \<le> fsize (file_of t)"
    and "\<And>i. i < entries (ctx_bat s) \<Longrightarrow> the (bat (ctx_bat s)) ! i \<noteq> DD_BLK_UNUSED \<Longrightarrow> the (bat (ctx_bat t)) ! i = the (bat (ctx_bat s)) ! i"
  shows "lasting s t"
  using assms by (auto simp: lasting_def blk_fits_def)

lemma lasting_wrote:
  assumes "wrote s t" "cur_file s = Some f" "torn f off bs (file_of t)"
  shows "lasting s t"
  by (rule lastingI) (use assms wroteD(3) [OF assms(1,2)] torn_fsize [OF assms(3)] file_of_eq [OF assms(2)] in simp_all)

lemma lasting_moved: "lasting s t \<Longrightarrow> moved t u \<Longrightarrow> lasting s u"
  using movedD [of t u] by (simp add: lasting_def file_of_def)

text \<open>What an allocation does: the table gains at most the entry of the block, sectors of other blocks
  keep their contents, and a block that was cleared holds nothing yet.\<close>

definition allocated :: "img_layout \<Rightarrow> vhd_context \<Rightarrow> nat \<Rightarrow> bool \<Rightarrow> int \<Rightarrow> vhd_context \<Rightarrow> 32 word list \<Rightarrow> bool" where
  "allocated L s blk zero r t C \<longleftrightarrow> img L t (file_of t) C \<and> kept s t \<and> lasting s t \<and>
     (\<forall>k. zero \<or> k div spb s \<noteq> blk \<longrightarrow>
        view (spb s) (entries (ctx_bat s)) C (file_of t) k =
        view (spb s) (entries (ctx_bat s)) (the (bat (ctx_bat s))) (file_of s) k) \<and>
     (r = 0 \<longrightarrow> C ! blk \<noteq> DD_BLK_UNUSED)"

lemma wp_set_entry:
  assumes i: "img L s f B" and b: "blk < entries (ctx_bat s)" "B ! blk = DD_BLK_UNUSED"
    and e: "blocks_end L s B \<le> unat e" "unat e < blocks_end L s B + pagesize s div 512"
    and Q: "\<And>r t. img L t (file_of t) (B[blk := e]) \<Longrightarrow> kept s t \<Longrightarrow> lasting s t \<Longrightarrow>
      blocks_same (spb s) (entries (ctx_bat s)) (B[blk := e]) f (file_of t) \<Longrightarrow> Q r t"
  shows "wp (set_entry blk e) Q s"
proof -
  let ?C = "B[blk := e]" and ?s = "s\<lparr>ctx_bat := (ctx_bat s)\<lparr>bat := Some (B[blk := e])\<rparr>\<rparr>"
  have i': "img L ?s f ?C" by (rule img_grow [OF i b e])
  have len: "\<not> length B \<le> blk" "vhd_bytes_padded (entries (ctx_bat ?s) * 4) \<le> 4 * length ?C"
    using imgD(5) [OF i] b by (auto simp: stored_def)
  have k: "kept s ?s" by (simp add: kept_def)
  note st = kept_static [OF k]
  have "wp (vhd_write_bat (ctx_bat ?s)) Q ?s"
  proof (rule wp_write_bat [OF imgD(1-4) [OF i'] len(2)])
    fix r t assume w: "wrote ?s t" and t: "torn f (tbl ?s) (bat_image ?s ?C) (file_of t)"
    have ln: "length (bat_image ?s ?C) = vhd_bytes_padded (entries (ctx_bat s) * 4)"
      using length_bat_image [OF len(2)] by simp
    have g: "geom L s" by (rule imgD(1) [OF i])
    have "tbl ?s + length (bat_image ?s ?C) \<le> l_lo L * 512" using geomD(7) [OF g] ln st(2) by simp
    moreover have "apart (tbl ?s) (length (bat_image ?s ?C)) (bm_hoff ?s + 8) 12 \<and>
      apart (tbl ?s) (length (bat_image ?s ?C)) (l_map L) (batmap_map_size (footer ?s))" if "has_bm ?s"
      using that geom_bmD(1,2) [OF g] ln st(1,2,3) by (auto simp: apart_def)
    ultimately have "img L t (file_of t) ?C" "blocks_same (spb ?s) (entries (ctx_bat ?s)) ?C f (file_of t)"
      using img_outside [OF i' w t] by blast+
    moreover have "kept s t" using kept_trans [OF k wroteD(1) [OF w]] imgD(3) [OF i'] by blast
    moreover have "lasting s ?s" using imgD(4) [OF i] b(2) by (intro lastingI) (auto intro!: nth_list_update_neq)
    then have "lasting s t" using lasting_trans [OF _ lasting_wrote [OF w imgD(3) [OF i'] t] k] by blast
    ultimately show "Q r t" by (intro Q) simp_all
  qed
  then show ?thesis
    using len(1) by (simp add: set_entry_def wp_simps imgD(4) [OF i])
qed

lemma room_alloc:
  assumes i: "img L s f B" and b: "blk < entries (ctx_bat s)" "B ! blk = DD_BLK_UNUSED"
  shows "blocks_end L s B + pagesize s div 512 + (spb s + 1) \<le> room_limit f"
proof -
  have "{i. i < entries (ctx_bat s) \<and> B ! i = DD_BLK_UNUSED} \<noteq> {}" using b by auto
  then have "0 < unused (entries (ctx_bat s)) B" by (simp add: unused_def card_gt_0_iff)
  then obtain u where "unused (entries (ctx_bat s)) B = Suc u" using gr0_implies_Suc by blast
  then show ?thesis using imgD(5) [OF i] by (simp add: stored_def blocks_end_def)
qed

lemma allocated_not:
  assumes "img L s f B" "img L u (file_of u) B" "kept s u" "lasting s u" "blocks_same (spb s) (entries (ctx_bat s)) B f (file_of u)" "r \<noteq> 0"
  shows "allocated L s blk zero r u B"
  using assms view_same [OF assms(5) geomD(1) [OF imgD(1) [OF assms(1)]]] imgD(4) [OF assms(1)] file_of_img [OF assms(1)]
  by (simp add: allocated_def)

lemma wp_set_entry_allocated:
  assumes i: "img L s f B" and b: "blk < entries (ctx_bat s)" "B ! blk = DD_BLK_UNUSED"
    and u: "img L u (file_of u) B" "kept s u" "blocks_same (spb s) (entries (ctx_bat s)) B f (file_of u)" "lasting s u"
    and e: "blocks_end L s B \<le> unat e" "unat e < blocks_end L s B + pagesize s div 512"
    and z: "zero \<Longrightarrow> \<forall>i. \<not> blk_bit (file_of u) e i"
    and Q: "\<And>r t C. allocated L s blk zero r t C \<Longrightarrow> Q r t"
  shows "wp (set_entry blk e) Q u"
proof -
  note st = kept_static [OF u(2)]
  have e': "blocks_end L u B \<le> unat e" "unat e < blocks_end L u B + pagesize u div 512"
    using e st by (simp_all add: blocks_end_def)
  have p: "0 < spb s" by (rule geomD(1) [OF imgD(1) [OF i]])
  have ne: "e \<noteq> DD_BLK_UNUSED" by (rule stored_grow(2) [OF imgD(5) [OF u(1)] _ b(2) e']) (use b(1) st in simp)
  have len: "blk < length B" using imgD(5) [OF i] b(1) by (simp add: stored_def)
  show ?thesis
  proof (rule wp_set_entry [OF u(1) _ b(2) e'])
    show "blk < entries (ctx_bat u)" using b(1) st by simp
    fix r t assume t: "img L t (file_of t) (B[blk := e])" "kept u t" "lasting u t"
      and bs: "blocks_same (spb u) (entries (ctx_bat u)) (B[blk := e]) (file_of u) (file_of t)"
    have same: "view (spb s) (entries (ctx_bat s)) (B[blk := e]) (file_of t) k = view (spb s) (entries (ctx_bat s)) (B[blk := e]) (file_of u) k" for k
      using view_same [OF bs] p st by simp
    have "view (spb s) (entries (ctx_bat s)) (B[blk := e]) (file_of t) k = view (spb s) (entries (ctx_bat s)) B f k"
      if "zero \<or> k div spb s \<noteq> blk" for k
    proof (cases "k div spb s = blk")
      case False
      show ?thesis unfolding same unfolding view_other [OF p False] by (rule view_same [OF u(3) p])
    next
      case True
      with that z have "\<not> blk_bit (file_of u) ((B[blk := e]) ! (k div spb s)) (k mod spb s)" using len by simp
      then have "view (spb s) (entries (ctx_bat s)) (B[blk := e]) (file_of u) k = None" by (simp add: view_unset)
      with True b(2) show ?thesis unfolding same by (simp add: view_unset)
    qed
    then show "Q r t"
      using t kept_trans [OF u(2) t(2)] lasting_trans [OF u(4) t(3) u(2)] imgD(4) [OF i] file_of_img [OF i] len ne
      by (intro Q [of r t "B[blk := e]"]) (simp add: allocated_def)
  qed
qed

lemma wp_clear_and_enter:
  assumes i: "img L s f B" and b: "blk < entries (ctx_bat s)" "B ! blk = DD_BLK_UNUSED"
    and u: "img L u f B" "kept s u" "lasting s u" and off: "offset u = blocks_end L s B * 512"
    and e: "blocks_end L s B \<le> unat e" "unat e < blocks_end L s B + pagesize s div 512"
    and m: "unat e + 1 \<le> blocks_end L s B + m" "m < 8589934592"
    and Q: "\<And>r t C. allocated L s blk zero r t C \<Longrightarrow> Q r t"
  shows "wp (do { err \<leftarrow> (if zero then do { err \<leftarrow> posix_memalign; if err \<noteq> 0 then ret (- err)
                              else vhd_write (replicate (vhd_sectors_to_bytes m) 0) } else ret 0);
                  if err \<noteq> 0 then ret err else set_entry blk e }) Q u"
proof -
  have bs0: "blocks_same (spb s) (entries (ctx_bat s)) B f f" by (simp add: blocks_same_def same_on_def)
  have fu: "cur_file u = Some f" "\<not> panicked u" using imgD [OF u(1)] by simp_all
  have mb: "vhd_sectors_to_bytes m = m * 512" using m(2) by simp
  have tail: "wp (set_entry blk e) Q v" if "img L v (file_of v) B" "kept s v"
    "blocks_same (spb s) (entries (ctx_bat s)) B f (file_of v)" "lasting s v" "zero \<Longrightarrow> \<forall>i. \<not> blk_bit (file_of v) e i" for v
    using wp_set_entry_allocated [OF i b that(1-4) e that(5) Q] .
  have bad: "Q r v" if "img L v (file_of v) B" "kept s v" "lasting s v" "blocks_same (spb s) (entries (ctx_bat s)) B f (file_of v)" "r \<noteq> 0" for r v
    using allocated_not [OF i that] by (rule Q)
  show ?thesis
  proof (cases zero)
    case False
    then show ?thesis using tail [of u] u bs0 file_of_img [OF u(1)] by (simp add: wp_simps)
  next
    case True
    have wr: "wp (vhd_write (replicate (m * 512) 0)) (\<lambda>err. wp (if err \<noteq> 0 then ret err else set_entry blk e) Q) v"
      if v: "v = u\<lparr>faults := fl\<rparr>" for v fl
    proof (rule wp_vhd_write [of v f])
      show "cur_file v = Some f" "\<not> panicked v" using fu v by simp_all
      fix r :: int and g fl' k
      assume t: "torn f (offset v) (replicate (m * 512) 0) g"
        and z: "r = 0 \<Longrightarrow> k = length (replicate (m * 512) (0 :: byte)) \<and> fread g (offset v) (length (replicate (m * 512) (0 :: byte))) = replicate (m * 512) 0 \<and>
          (replicate (m * 512) (0 :: byte) \<noteq> [] \<longrightarrow> offset v + length (replicate (m * 512) (0 :: byte)) \<le> fsize g)"
      let ?w = "put_file g (v\<lparr>faults := fl'\<rparr>)\<lparr>offset := offset v + k\<rparr>"
      have w: "wrote u ?w" "file_of ?w = g" using fu(1) v by (simp_all add: wrote_put file_of_put)
      have "blocks_end L u B = blocks_end L s B" using kept_static [OF u(2)] by (simp add: blocks_end_def)
      then have o: "blocks_end L u B * 512 \<le> offset v" using off v by simp
      have ap: "has_bm u \<Longrightarrow> apart (offset v) (length (replicate (m * 512) (0::byte))) (bm_hoff u + 8) 12 \<and>
          apart (offset v) (length (replicate (m * 512) (0::byte))) (l_map L) (batmap_map_size (footer u))"
        using o geom_bmD(2,3) [OF imgD(1) [OF u(1)]] data_end_ge [of "l_lo L" "spb u + 1" "take (entries (ctx_bat u)) B"]
        by (auto simp: apart_def blocks_end_def)
      note io = img_outside [OF u(1) w(1) _ _ ap, unfolded w(2), OF t disjI2 [OF o]]
      have ks: "kept s ?w" using kept_trans [OF u(2) wroteD(1) [OF w(1) fu(1)]] .
      have lw: "lasting s ?w" using lasting_trans [OF u(3) lasting_wrote [OF w(1) fu(1)] u(2)] w(2) t by metis
      have bs: "blocks_same (spb s) (entries (ctx_bat s)) B f (file_of ?w)"
        using io(2) kept_static [OF u(2)] w(2) by simp
      show "wp (if r \<noteq> 0 then ret r else set_entry blk e) Q ?w"
      proof (cases "r = 0")
        case True
        then have "\<forall>i. \<not> blk_bit g e i"
          using blk_bit_zero [of g "offset v" "replicate (m * 512) 0" "m * 512" e] z off e m v by simp
        with True tail [of ?w] io(1) ks lw bs w(2) show ?thesis by (simp add: wp_simps)
      next
        case False
        with bad [of ?w r] io(1) ks lw bs w(2) show ?thesis by (simp add: wp_simps)
      qed
    qed
    have "wp posix_memalign (\<lambda>err. wp (if err \<noteq> 0 then ret (- err) else vhd_write (replicate (m * 512) 0))
        (\<lambda>err. wp (if err \<noteq> 0 then ret err else set_entry blk e) Q)) u"
    proof (rule wp_posix_memalign)
      fix r :: int and fl assume "r = 0 \<or> r = ENOMEM"
      then show "wp (if r \<noteq> 0 then ret (- r) else vhd_write (replicate (m * 512) 0))
        (\<lambda>err. wp (if err \<noteq> 0 then ret err else set_entry blk e) Q) (u\<lparr>faults := fl\<rparr>)"
        using wr [OF refl, of fl] bad [of "u\<lparr>faults := fl\<rparr>"] moved_img [OF _ u(1), of "u\<lparr>faults := fl\<rparr>"] u(2,3) lasting_moved [OF u(3), of "u\<lparr>faults := fl\<rparr>"] bs0 file_of_img [OF u(1)]
        by (auto simp: wp_simps)
    qed
    with True show ?thesis unfolding mb by (simp only: wp_bind if_True)
  qed
qed

lemma wp_allocate_block:
  assumes i: "img L s f B" and b: "blk < entries (ctx_bat s)" "B ! blk = DD_BLK_UNUSED"
    and Q: "\<And>r t C. allocated L s blk zero r t C \<Longrightarrow> Q r t"
  shows "wp (vhd_io_allocate_block blk zero) Q s"
proof -
  define E where "E = blocks_end L s B"
  define spp where "spp = pagesize s div 512"
  have g: "geom L s" by (rule imgD(1) [OF i])
  have spp: "0 < spp" using geomD(12) [OF g] by (simp add: spp_def)
  define gap where "gap = (if (int E + 1) mod int spp \<noteq> 0 then int spp - (int E + 1) mod int spp else 0)"
  have gap: "0 \<le> gap" "gap < int spp"
  proof -
    have "0 < int spp" using spp by simp
    from pos_mod_bound [OF this, of "int E + 1"] pos_mod_sign [OF this, of "int E + 1"]
    show "0 \<le> gap" "gap < int spp" by (auto simp: gap_def)
  qed
  have lim: "E + spp + (spb s + 1) \<le> 4294967295"
    using room_alloc [OF i b] room_limit_le [of f] by (simp add: E_def spp_def)
  define e :: "32 word" where "e = word_of_int (int E + gap)"
  have "e = of_nat (E + nat gap)" using gap(1) by (simp add: e_def)
  then have ue: "unat e = E + nat gap"
    using lim gap by (simp add: unat_of_nat_u32 del: of_nat_add)
  have e: "blocks_end L s B \<le> unat e" "unat e < blocks_end L s B + pagesize s div 512"
    using ue gap by (auto simp: E_def spp_def)
  have bs0: "blocks_same (spb s) (entries (ctx_bat s)) B f f" by (simp add: blocks_same_def same_on_def)
  have las: "lasting s t" if "img L t f B" for t
    by (rule lastingI) (use imgD(4) [OF i] imgD(4) [OF that] file_of_img [OF i] file_of_img [OF that] in simp_all)
  have bad: "Q r t" if "img L t f B" "kept s t" "r \<noteq> 0" for r t
    by (rule Q [OF allocated_not [OF i]]) (use that las [OF that(1)] bs0 file_of_img [OF that(1)] in simp_all)
  show ?thesis
    unfolding vhd_io_allocate_block_def wp_bind wp_get Let_def
    apply (rule wp_end_of_data [OF i])
    subgoal for r v t
      apply (cases "r = 0")
       prefer 2
      subgoal using bad [of t r] by (simp add: wp_simps)
      subgoal premises p
      proof -
        note st = kept_static [OF p(2)]
        have bm1: "bm_secs t = 1" by (rule geomD(3) [OF imgD(1) [OF p(1)]])
        have v: "v = int (E * 512)" "v div 512 = int E" using p by (simp_all add: E_def)
        have max: "\<not> 4294967295 < int E + gap" using lim gap by linarith
        let ?x = "if vhd_flag_test (oflags t) VHD_OPEN_IO_WRITE_SPARSE then 0 else spb t"
        have m: "unat e + 1 \<le> blocks_end L s B + (1 + nat gap + ?x)" "1 + nat gap + ?x < 8589934592"
          using ue lim gap geomD(2) [OF imgD(1) [OF p(1)]] by (auto simp: E_def)
        have seek: "wp (vhd_seek v SEEK_SET) P t = P 0 (t\<lparr>offset := E * 512\<rparr>)" for P
          using lim wp_seek_set_ok [OF imgD(3) [OF p(1)], of v] unfolding v(1) nat_int by simp
        have F: "wp (do { err \<leftarrow> (if zero then do { err \<leftarrow> posix_memalign; if err \<noteq> 0 then ret (- err)
                              else vhd_write (replicate (vhd_sectors_to_bytes (1 + nat gap + ?x)) 0) } else ret 0);
                  if err \<noteq> 0 then ret err else set_entry blk e }) Q (t\<lparr>offset := E * 512\<rparr>)"
          by (rule wp_clear_and_enter [OF i b _ _ _ _ e m Q])
            (use moved_img [OF _ p(1), of "t\<lparr>offset := E * 512\<rparr>"] p(2) las [of "t\<lparr>offset := E * 512\<rparr>"] in \<open>simp_all add: E_def\<close>)
        have eqs: "(r \<noteq> 0) = False" "int (bm_secs t) = 1" using p(5) bm1 by simp_all
        show ?thesis
          unfolding prod.case eqs if_False wp_bind wp_get v(2) spp_def [symmetric] gap_def [symmetric] e_def [symmetric]
          using F max by (simp only: if_False seek simp_thms if_True wp_bind bm1)
      qed
      done
    done
qed

subsection \<open>Writes inside a block\<close>

text \<open>A torn write of bits leaves each bit old or new.\<close>

lemma torn_test_bit:
  assumes "torn f a bs g" "length bs = n"
  shows "test_bit (fread g a n) j = test_bit (fread f a n) j \<or> test_bit (fread g a n) j = test_bit bs j"
proof (cases "j div 8 < n")
  case True
  then have "fbyte g (a + j div 8) = fbyte f (a + j div 8) \<or> fbyte g (a + j div 8) = bs ! (j div 8)"
    using assms unfolding torn_def by (metis add_diff_cancel_left')
  with True assms(2) show ?thesis by (auto simp: test_bit_bit)
qed (use assms(2) in \<open>simp add: test_bit_bit\<close>)

lemma blocks_disjoint:
  assumes "blocks_ok lo lim (p + 1) n B" "blk < n" "i < n" "i \<noteq> blk" "B ! i \<noteq> DD_BLK_UNUSED" "B ! blk \<noteq> DD_BLK_UNUSED"
    and "torn f off bs g" "unat (B ! blk) * 512 \<le> off" "off + length bs \<le> (unat (B ! blk) + 1 + p) * 512"
  shows "same_on f g (unat (B ! i) * 512) ((unat (B ! i) + 1 + p) * 512)"
proof (rule torn_same_on [OF assms(7)])
  have "unat (B ! i) + (p + 1) \<le> unat (B ! blk) \<or> unat (B ! blk) + (p + 1) \<le> unat (B ! i)"
    using assms(1-6) unfolding blocks_ok_def by blast
  then show "(unat (B ! i) + 1 + p) * 512 \<le> off \<or> off + length bs \<le> unat (B ! i) * 512"
    using assms(8,9) by auto
qed

lemma stored_inside:
  assumes st: "stored L s f B" and b: "blk < entries (ctx_bat s)" "B ! blk \<noteq> DD_BLK_UNUSED" and g: "geom L s"
    and t: "torn f off bs g" "unat (B ! blk) * 512 \<le> off" "off + length bs \<le> (unat (B ! blk) + 1 + spb s) * 512"
    and bits: "\<And>j. blk_bit f (B ! blk) j \<Longrightarrow> blk_bit g (B ! blk) j"
  shows "stored L s g B" "k div spb s \<noteq> blk \<Longrightarrow> view (spb s) (entries (ctx_bat s)) B g k = view (spb s) (entries (ctx_bat s)) B f k"
    "sound (spb s) (entries (ctx_bat s)) B f m \<Longrightarrow> sound (spb s) (entries (ctx_bat s)) B g m"
proof -
  have ok: "blocks_ok (l_lo L) (room_limit f) (spb s + 1) (entries (ctx_bat s)) B" using st by (simp add: stored_def)
  note so = blocks_disjoint [OF ok b(1) _ _ _ b(2) t]
  have lo: "l_lo L \<le> unat (B ! blk)" using ok b by (auto simp: blocks_ok_def)
  show snd: "sound (spb s) (entries (ctx_bat s)) B f m \<Longrightarrow> sound (spb s) (entries (ctx_bat s)) B g m" for m
    using blk_same(1) [OF so] bits unfolding sound_def full_def by blast
  show "k div spb s \<noteq> blk \<Longrightarrow> view (spb s) (entries (ctx_bat s)) B g k = view (spb s) (entries (ctx_bat s)) B f k"
    using blk_same [OF so, of "k div spb s"] geomD(1) [OF g] by (auto simp: view_def Let_def)
  have "fread g (bm_hoff s + 8) 12 = fread f (bm_hoff s + 8) 12"
    "fread g (l_map L) (batmap_map_size (footer s)) = fread f (l_map L) (batmap_map_size (footer s))" if "has_bm s"
    by (rule torn_apart [OF t(1)], use geom_bmD(2,3) [OF g that] lo t(2) in \<open>simp add: apart_def\<close>)+
  then show "stored L s g B"
    using st snd by (auto simp: stored_def torn_fblk [OF t(1)] torn_room [OF t(1)])
qed

lemma img_inside:
  assumes i: "img L s f B" and b: "blk < entries (ctx_bat s)" "B ! blk \<noteq> DD_BLK_UNUSED" and w: "wrote s t"
    and t: "torn f off bs (file_of t)" "unat (B ! blk) * 512 \<le> off" "off + length bs \<le> (unat (B ! blk) + 1 + spb s) * 512"
    and bits: "\<And>j. blk_bit f (B ! blk) j \<Longrightarrow> blk_bit (file_of t) (B ! blk) j"
  shows "img L t (file_of t) B"
    "k div spb s \<noteq> blk \<Longrightarrow> view (spb s) (entries (ctx_bat s)) B (file_of t) k = view (spb s) (entries (ctx_bat s)) B f k"
proof -
  note st = stored_inside [OF imgD(5) [OF i] b imgD(1) [OF i] t bits]
  show "k div spb s \<noteq> blk \<Longrightarrow> view (spb s) (entries (ctx_bat s)) B (file_of t) k = view (spb s) (entries (ctx_bat s)) B f k"
    by (rule st(2))
  have "bm_ok L s (file_of t) B (batmap t)" if "has_bm s"
    using imgD(6) [OF i that] st(3) wroteD(4) [OF w imgD(3) [OF i]] by (auto simp: bm_ok_def split: option.splits)
  then show "img L t (file_of t) B"
    by (intro imgI [OF i]) (use wroteD [OF w imgD(3) [OF i]] imgD [OF i] st in auto)
qed

subsection \<open>The batmap\<close>

lemma torn_keep:
  assumes t: "torn f off bs g" and a: "off \<le> a" "a + n \<le> off + length bs" "buf_get bs (a - off) n = fread f a n"
  shows "fread g a n = fread f a n"
proof (rule fread_eqI)
  fix k assume k: "k < n"
  have "fbyte f (a + k) = buf_get bs (a - off) n ! k" using a(3) k by simp
  also have "\<dots> = bs ! (a + k - off)" using a(1,2) k by (simp add: buf_get_def)
  finally have "fbyte f (a + k) = bs ! (a + k - off)" .
  moreover have "fbyte g (a + k) = fbyte f (a + k) \<or> fbyte g (a + k) = bs ! (a + k - off)"
    using t unfolding torn_def by blast
  ultimately show "fbyte g (a + k) = fbyte f (a + k)" by auto
qed

lemma header_out_fields:
  assumes "hdr_fields_ok L h"
  shows "buf_get (batmap_header_bytes (vhd_batmap_header_out h)) 8 12 = disk_fields L"
    "length (batmap_header_bytes (vhd_batmap_header_out h)) = 512"
  using assms
  by (auto simp: hdr_fields_ok_def batmap_header_wf_def batmap_header_bytes_def vhd_batmap_header_out_def disk_fields_def buf_get_def)

lemma img_batmap_header:
  assumes i: "img L s f B" "has_bm s" and w: "wrote s t" and h: "hdr_fields_ok L h"
    and t: "torn f (bm_hoff s) (batmap_header_bytes (vhd_batmap_header_out h)) (file_of t)"
  shows "img L t (file_of t) B" "blocks_same (spb s) (entries (ctx_bat s)) B f (file_of t)"
proof -
  note hf = header_out_fields [OF h] and g = imgD(1) [OF i(1)]
  have "fread (file_of t) (bm_hoff s + 8) 12 = disk_fields L"
    using torn_keep [OF t, of "bm_hoff s + 8" 12] hf stored_bm(1) [OF i] by simp
  moreover have "fread (file_of t) (l_map L) (batmap_map_size (footer s)) = fread f (l_map L) (batmap_map_size (footer s))"
    using torn_apart [OF t] hf geom_bmD(2) [OF g i(2)] by (simp add: apart_def)
  ultimately show "img L t (file_of t) B" "blocks_same (spb s) (entries (ctx_bat s)) B f (file_of t)"
    using img_meta [OF i(1) w t] stored_bm [OF i] hf(2) geom_bmD(2,3) [OF g i(2)] by auto
qed

lemma img_batmap_map:
  assumes i: "img L s f B" "has_bm s" and w: "wrote s t"
    and m: "length m = batmap_map_size (footer s)" "sound (spb s) (entries (ctx_bat s)) B f m"
    and t: "torn f (l_map L) m (file_of t)"
  shows "img L t (file_of t) B" "blocks_same (spb s) (entries (ctx_bat s)) B f (file_of t)"
proof -
  note g = imgD(1) [OF i(1)]
  have "fread (file_of t) (bm_hoff s + 8) 12 = disk_fields L"
    using torn_apart [OF t] stored_bm(1) [OF i] geom_bmD(2) [OF g i(2)] by (simp add: apart_def)
  moreover have "sound (spb s) (entries (ctx_bat s)) B f (fread (file_of t) (l_map L) (batmap_map_size (footer s)))"
    using stored_bm(2) [OF i] m torn_test_bit [OF t m(1)] unfolding sound_def by blast
  ultimately show "img L t (file_of t) B" "blocks_same (spb s) (entries (ctx_bat s)) B f (file_of t)"
    using img_meta [OF i(1) w t] geom_bmD(3) [OF g i(2)] m(1) by auto
qed

text \<open>The image is still well-formed with the same table, and its blocks are untouched.\<close>

definition steady :: "img_layout \<Rightarrow> vhd_context \<Rightarrow> 32 word list \<Rightarrow> vhd_context \<Rightarrow> bool" where
  "steady L s B t \<longleftrightarrow> img L t (file_of t) B \<and> kept s t \<and> ctx_bat t = ctx_bat s \<and> lasting s t \<and>
     blocks_same (spb s) (entries (ctx_bat s)) B (file_of s) (file_of t)"

lemma blocks_same_refl [simp]: "blocks_same p n B f f"
  by (simp add: blocks_same_def same_on_def)

lemma blocks_same_trans: "blocks_same p n B f g \<Longrightarrow> blocks_same p n B g h \<Longrightarrow> blocks_same p n B f h"
  by (simp add: blocks_same_def same_on_def)

lemma steady_refl: "img L s f B \<Longrightarrow> steady L s B s"
  using file_of_img by (fastforce simp: steady_def)

lemma steady_trans: "steady L s B t \<Longrightarrow> steady L t B u \<Longrightarrow> steady L s B u"
  using kept_static [of s t] by (auto simp: steady_def intro: kept_trans blocks_same_trans lasting_trans)

lemma steadyD:
  assumes "steady L s B t"
  shows "img L t (file_of t) B" "kept s t" "ctx_bat t = ctx_bat s"
    "blocks_same (spb s) (entries (ctx_bat s)) B (file_of s) (file_of t)" "lasting s t"
  using assms by (simp_all add: steady_def)

lemma steady_wrote:
  assumes "img L s f B" "wrote s t" "torn f off bs (file_of t)" "img L t (file_of t) B" "blocks_same (spb s) (entries (ctx_bat s)) B f (file_of t)"
  shows "steady L s B t"
  using assms wroteD [OF assms(2) imgD(3) [OF assms(1)]] lasting_wrote [OF assms(2) imgD(3) [OF assms(1)] assms(3)] file_of_img [OF assms(1)]
  by (simp add: steady_def)

lemma steady_moved:
  assumes "img L s f B" "moved s t"
  shows "steady L s B t"
  using moved_img [OF assms(2,1)] movedD [OF assms(2)] lasting_moved [OF lasting_refl assms(2)] file_of_img [OF assms(1)]
    file_of_img [OF moved_img [OF assms(2,1)]]
  by (simp add: steady_def)

lemma steady_same:
  assumes "img L s f B" "img L t f B" "kept s t" "ctx_bat t = ctx_bat s"
  shows "steady L s B t"
  using assms file_of_img [OF assms(1)] file_of_img [OF assms(2)] lastingI [of s t] by (simp add: steady_def)

lemma wp_write_batmap:
  assumes i: "img L s f B" "has_bm s"
    and Q: "\<And>t. steady L s B t \<Longrightarrow> batmap t = batmap s \<Longrightarrow> Q 0 t"
  shows "wp (vhd_write_batmap (batmap s)) Q s"
proof (cases "bm_map (batmap s)")
  case None
  then show ?thesis
    using Q [OF steady_refl [OF i(1)]] by (simp add: vhd_write_batmap_def wp_simps wp_has_batmap [OF imgD(1) [OF i(1)]] i(2) Let_def)
next
  case (Some m)
  note g = imgD(1) [OF i(1)] and ok = imgD(6) [OF i]
  let ?h = "bm_header ((batmap s)\<lparr>bm_header := (bm_header (batmap s))\<lparr>bmh_checksum := vhd_checksum_batmap (footer s) (batmap s)\<rparr>\<rparr>)"
  have m: "length m = batmap_map_size (footer s)" "sound (spb s) (entries (ctx_bat s)) B f m" and h: "hdr_fields_ok L ?h"
    using ok Some by (auto simp: bm_ok_def hdr_fields_ok_def batmap_header_wf_def)
  note fl = bm_ok_fields [OF g i(2) ok]
  have sz: "batmap_map_size (footer s) \<le> vhd_sectors_to_bytes (l_msecs L)" using geom_bmD(4,5) [OF g i(2)] by simp
  have hdr: "wp (do { err \<leftarrow> vhd_seek (vhd_batmap_header_offset (header s)) SEEK_SET;
      if err \<noteq> 0 then ret 0 else do { err \<leftarrow> posix_memalign; if err \<noteq> 0 then ret 0
      else do { vhd_write (batmap_header_bytes (vhd_batmap_header_out ?h)); ret 0 } } }) Q u"
    if u: "steady L s B u" "batmap u = batmap s" for u
  proof -
    note iu = steadyD(1) [OF u(1)] and ku = kept_static [OF steadyD(2) [OF u(1)]]
    have hu: "has_bm u" using ku i(2) by simp
    have Q': "Q 0 v" if "wrote u v" "torn (file_of u) (bm_hoff s) (batmap_header_bytes (vhd_batmap_header_out ?h)) (file_of v)" for v
    proof (rule Q)
      have "img L v (file_of v) B" "blocks_same (spb u) (entries (ctx_bat u)) B (file_of u) (file_of v)"
        using img_batmap_header [OF iu hu that(1) h] that(2) ku(3) by simp_all
      then show "steady L s B v" using steady_trans [OF u(1) steady_wrote [OF iu that]] by blast
      show "batmap v = batmap s" using wroteD(4) [OF that(1) imgD(3) [OF iu]] u(2) by simp
    qed
    show ?thesis
      using imgD [OF iu]
      by (auto simp: wp_simps bm_hoff_off [OF g i(2)] file_of_put [OF imgD(3) [OF iu]] wrote_put [OF imgD(3) [OF iu]] wrote_refl [OF imgD(3) [OF iu]] split: if_splits
        intro!: wp_seek_set [of _ "file_of u"] wp_posix_memalign wp_vhd_write [of _ "file_of u"] Q')
  qed
  have wr: "wp (do { err \<leftarrow> vhd_write m; if err \<noteq> 0 then ret 0 else do { err \<leftarrow> vhd_seek (vhd_batmap_header_offset (header s)) SEEK_SET;
      if err \<noteq> 0 then ret 0 else do { err \<leftarrow> posix_memalign; if err \<noteq> 0 then ret 0
      else do { vhd_write (batmap_header_bytes (vhd_batmap_header_out ?h)); ret 0 } } } }) Q u"
    if u: "moved s u" "offset u = l_map L" for u
  proof -
    note mu = movedD [OF u(1)]
    have st: "steady L s B v" "batmap v = batmap s" if v: "wrote u v" "torn f (l_map L) m (file_of v)" for v
    proof -
      have iu: "img L u f B" by (rule moved_img [OF u(1) i(1)])
      have "img L v (file_of v) B" "blocks_same (spb u) (entries (ctx_bat u)) B f (file_of v)"
        using img_batmap_map [OF iu _ v(1) _ _ v(2)] m i(2) kept_static [OF mu(1)] by simp_all
      then show "steady L s B v" using steady_trans [OF steady_moved [OF i(1) u(1)] steady_wrote [OF iu v]] by blast
      show "batmap v = batmap s" using wroteD(4) [OF v(1) imgD(3) [OF iu]] mu(4) by simp
    qed
    have fu: "cur_file u = Some f" "\<not> panicked u" using mu imgD [OF i(1)] by simp_all
    show ?thesis
      unfolding wp_bind [of "vhd_write m"]
      by (rule wp_vhd_write [OF fu])
        (use Q hdr st u(2) in \<open>auto simp: wp_simps file_of_put [OF fu(1)] wrote_put [OF fu(1)] split: if_splits\<close>)
  qed
  have Q0: "Q 0 u" if "moved s u" for u using Q steady_moved [OF i(1) that] movedD(4) [OF that] by blast
  show ?thesis
    unfolding vhd_write_batmap_def
    using imgD [OF i(1)] m sz wr Q0
    by (auto simp: wp_has_batmap [OF g] wp_simps i(2) Let_def Some fl split: if_splits
        intro!: wp_seek_set [of _ f] wp_posix_memalign)
qed

lemma wp_batmap_test:
  assumes i: "img L s f B" "has_bm s" and b: "blk < entries (ctx_bat s)"
    and Q: "\<And>r. (r \<Longrightarrow> B ! blk \<noteq> DD_BLK_UNUSED \<and> full (spb s) f (B ! blk)) \<Longrightarrow> Q r s"
  shows "wp (vhd_batmap_test blk) Q s"
proof -
  note g = imgD(1) [OF i(1)] and ok = imgD(6) [OF i]
  have len: "blk div 8 < batmap_map_size (footer s)" using b geom_bmD(6) [OF g i(2)] by auto
  show ?thesis
    unfolding vhd_batmap_test_def
    using ok len b
    by (auto simp: wp_simps wp_has_batmap [OF g] i(2) bm_ok_def sound_def split: option.splits if_splits intro!: Q)
qed

lemma sound_set_bit:
  assumes "sound p n B f m" "blk div 8 < length m" "B ! blk \<noteq> DD_BLK_UNUSED" "full p f (B ! blk)"
  shows "sound p n B f (set_bit m blk)"
proof -
  have "blk < 8 * length m" using assms(2) by (simp add: less_mult_imp_div_less div_less_iff_less_mult mult.commute)
  then show ?thesis using assms by (auto simp: sound_def test_set_bit)
qed

lemma wp_mark_full:
  assumes i: "img L s f B" "has_bm s" and b: "blk < entries (ctx_bat s)" "B ! blk \<noteq> DD_BLK_UNUSED" "full (spb s) f (B ! blk)"
    and Q: "\<And>t. steady L s B t \<Longrightarrow> Q 0 t"
  shows "wp (do { vhd_batmap_set blk; bm \<leftarrow> gets batmap; vhd_write_batmap bm }) Q s"
proof -
  note g = imgD(1) [OF i(1)] and ok = imgD(6) [OF i]
  have wr: "wp (vhd_write_batmap (batmap u)) Q u" if u: "img L u f B" "kept s u" "ctx_bat u = ctx_bat s" for u
  proof (rule wp_write_batmap [OF u(1)])
    show "has_bm u" using kept_static [OF u(2)] i(2) by simp
    have "steady L s B u" by (rule steady_same [OF i(1) u])
    then show "\<And>t. steady L u B t \<Longrightarrow> Q 0 t" using Q steady_trans by blast
  qed
  show ?thesis
  proof (cases "bm_map (batmap s)")
    case None
    then show ?thesis using wr [OF i(1)]
      by (simp add: vhd_batmap_set_def wp_simps wp_has_batmap [OF g])
  next
    case (Some m)
    let ?u = "s\<lparr>batmap := (batmap s)\<lparr>bm_map := Some (set_bit m blk)\<rparr>\<rparr>"
    have len: "blk div 8 < length m" using ok Some b(1) geom_bmD(6) [OF g i(2)] by (auto simp: bm_ok_def)
    have "img L ?u f B"
      by (rule imgI [OF i(1)]) (use imgD [OF i(1)] ok Some sound_set_bit [OF _ len b(2,3)] in \<open>auto simp: bm_ok_def\<close>)
    with Some wr [OF this] wr [OF i(1)] len show ?thesis
      by (simp add: vhd_batmap_set_def wp_simps wp_has_batmap [OF g] i(2))
  qed
qed

subsection \<open>The bitmap and the data of a block\<close>

lemma block_at:
  assumes i: "img L s f B" and b: "blk < entries (ctx_bat s)" "B ! blk \<noteq> DD_BLK_UNUSED"
  shows "bat_entry s blk = Some (B ! blk)" "unat (B ! blk) + 1 + spb s < 4294967296" "l_lo L \<le> unat (B ! blk)"
    "unat (B ! blk) + 1 + spb s \<le> room_limit f"
proof -
  have "blocks_ok (l_lo L) (room_limit f) (spb s + 1) (entries (ctx_bat s)) B" "entries (ctx_bat s) \<le> length B"
    using imgD(5) [OF i] by (simp_all add: stored_def)
  then show "bat_entry s blk = Some (B ! blk)" "unat (B ! blk) + 1 + spb s < 4294967296" "l_lo L \<le> unat (B ! blk)"
    "unat (B ! blk) + 1 + spb s \<le> room_limit f"
    using b imgD(4) [OF i] room_limit_le [of f] by (auto simp: blocks_ok_def bat_entry_def)
qed

lemma bitmap_size: "geom L s \<Longrightarrow> vhd_bytes_padded (spb s div 8) = 512"
  using geomD(2) [of L s] by (simp add: vhd_bytes_padded_eq secs_round_up_no_zero_eq)

lemma nat_uint_512: "nat (uint e * 512) = unat e * 512"
  by (simp add: nat_mult_distrib)

lemma wp_read_bitmap:
  assumes i: "img L s f B" and b: "blk < entries (ctx_bat s)" "B ! blk \<noteq> DD_BLK_UNUSED"
    and Q: "\<And>r t. moved s t \<Longrightarrow> r \<noteq> 0 \<Longrightarrow> Q (r, None) t"
      "\<And>t. moved s t \<Longrightarrow> Q (0, Some (fread f (unat (B ! blk) * 512) 512)) t"
  shows "wp (vhd_read_bitmap blk) Q s"
  unfolding vhd_read_bitmap_def
  using imgD [OF i] block_at [OF i b] b
  by (auto simp: wp_simps wp_get_bat [OF i] bitmap_size nat_uint_512 split: if_splits
      intro!: wp_seek_set [of _ f] wp_posix_memalign wp_vhd_read [of _ f] Q)

lemma wp_write_bitmap:
  assumes i: "img L s f B" and b: "blk < entries (ctx_bat s)" "B ! blk \<noteq> DD_BLK_UNUSED" and m: "length m = 512"
    and Q: "\<And>r t. wrote s t \<Longrightarrow> torn f (unat (B ! blk) * 512) m (file_of t) \<Longrightarrow>
      (r = 0 \<Longrightarrow> fread (file_of t) (unat (B ! blk) * 512) 512 = m) \<Longrightarrow> Q r t"
  shows "wp (vhd_write_bitmap blk True m) Q s"
  unfolding vhd_write_bitmap_def
  using imgD [OF i] block_at [OF i b] b m geomD(3) [OF imgD(1) [OF i]]
  by (auto simp: wp_simps vhd_validate_bat_def nat_uint_512 file_of_put [OF imgD(3) [OF i]] file_of_img [OF i] wrote_put [OF imgD(3) [OF i]] wrote_refl [OF imgD(3) [OF i]] split: if_splits
      intro!: wp_seek_set [of _ f] wp_posix_memalign wp_vhd_write [of _ f] Q)

subsection \<open>Sectors of an image\<close>

text \<open>What the open image itself holds for a sector, and the relation of two states between which only
  sectors of a set may have changed.\<close>

definition sector_of :: "vhd_context \<Rightarrow> nat \<Rightarrow> byte list option" where
  "sector_of s k = view (spb s) (entries (ctx_bat s)) (the (bat (ctx_bat s))) (file_of s) k"

definition altered :: "img_layout \<Rightarrow> vhd_context \<Rightarrow> nat set \<Rightarrow> vhd_context \<Rightarrow> bool" where
  "altered L s A t \<longleftrightarrow> (\<exists>C. img L t (file_of t) C) \<and> kept s t \<and> lasting s t \<and> (\<forall>k. k \<notin> A \<longrightarrow> sector_of t k = sector_of s k)"

lemma altered_trans: "altered L s A t \<Longrightarrow> altered L t A' u \<Longrightarrow> altered L s (A \<union> A') u"
  by (auto simp: altered_def intro: kept_trans lasting_trans)

lemma altered_mono: "altered L s A t \<Longrightarrow> A \<subseteq> A' \<Longrightarrow> altered L s A' t"
  by (auto simp: altered_def)

lemma alteredD:
  assumes "altered L s A t"
  shows "\<exists>C. img L t (file_of t) C" "kept s t" "\<And>k. k \<notin> A \<Longrightarrow> sector_of t k = sector_of s k" "lasting s t"
  using assms by (simp_all add: altered_def)

lemma sector_of_img: "img L s f B \<Longrightarrow> sector_of s k = view (spb s) (entries (ctx_bat s)) B f k"
  using imgD(4) [of L s f B] file_of_img [of L s f B] by (simp add: sector_of_def)

lemma alteredI:
  assumes "img L s f B" "img L t (file_of t) C" "kept s t" "lasting s t"
    and "\<And>k. k \<notin> A \<Longrightarrow> view (spb s) (entries (ctx_bat s)) C (file_of t) k = view (spb s) (entries (ctx_bat s)) B f k"
  shows "altered L s A t"
  using assms kept_static [OF assms(3)] sector_of_img [OF assms(1)] sector_of_img [OF assms(2)]
  by (auto simp: altered_def)

lemma altered_steady:
  assumes "img L s f B" "steady L s B t"
  shows "altered L s {} t"
  by (rule alteredI [OF assms(1) steadyD(1,2,5) [OF assms(2)]])
     (use view_same [OF steadyD(4) [OF assms(2)] geomD(1) [OF imgD(1) [OF assms(1)]]] file_of_img [OF assms(1)] in simp)

lemma altered_allocated:
  assumes "img L s f B" "allocated L s blk zero r t C"
  shows "altered L s (if zero then {} else {k. k div spb s = blk}) t"
  by (rule alteredI [OF assms(1)])
     (use assms(2) imgD(4) [OF assms(1)] file_of_img [OF assms(1)] in \<open>auto simp: allocated_def\<close>)

lemma steady_sector: "img L s f B \<Longrightarrow> steady L s B t \<Longrightarrow> sector_of t k = sector_of s k"
  using altered_steady [of L s f B t] by (simp add: altered_def)

subsection \<open>Writing within an allocated block\<close>

lemma view_in_block:
  "k div p = blk \<Longrightarrow> blk < n \<Longrightarrow> B ! blk \<noteq> DD_BLK_UNUSED \<Longrightarrow>
   view p n B f k = (if blk_bit f (B ! blk) (k mod p) then Some (blk_sec f (B ! blk) (k mod p)) else None)"
  by (simp add: view_def)

definition block_range :: "nat \<Rightarrow> nat \<Rightarrow> nat \<Rightarrow> nat \<Rightarrow> nat set" where
  "block_range p blk sec cnt = {blk * p + sec ..< blk * p + sec + cnt}"

lemma not_block_range:
  assumes "k \<notin> block_range p blk sec cnt" "k div p = blk"
  shows "k mod p < sec \<or> sec + cnt \<le> k mod p"
proof -
  have "k = blk * p + k mod p" using assms(2) by (metis div_mult_mod_eq)
  with assms(1) show ?thesis by (auto simp: block_range_def)
qed

lemma block_range_sec:
  assumes "sec + cnt \<le> p" "i < cnt"
  shows "(blk * p + sec + i) div p = blk" "(blk * p + sec + i) mod p = sec + i" "blk * p + sec + i \<in> block_range p blk sec cnt"
  using assms by (auto simp: block_range_def add.assoc)

lemma length_fold_range [simp]: "length (fold (\<lambda>i m. set_bit m (sec + i)) [0..<cnt] m) = length m"
  by (induction cnt) simp_all

lemma test_bit_fold:
  assumes "sec + cnt \<le> 8 * length m"
  shows "test_bit (fold (\<lambda>i m. set_bit m (sec + i)) [0..<cnt] m) j \<longleftrightarrow> sec \<le> j \<and> j < sec + cnt \<or> test_bit m j"
  using assms
proof (induction cnt)
  case (Suc n)
  then have "test_bit (fold (\<lambda>i m. set_bit m (sec + i)) [0..<Suc n] m) j \<longleftrightarrow>
      j = sec + n \<or> test_bit (fold (\<lambda>i m. set_bit m (sec + i)) [0..<n] m) j"
    by (simp add: test_set_bit)
  with Suc show ?case by auto
qed auto

lemma wp_block_data:
  assumes i: "img L s f B" and b: "blk < entries (ctx_bat s)" "B ! blk \<noteq> DD_BLK_UNUSED"
    and d: "length data = cnt * 512" "sec + cnt \<le> spb s" and o: "offset s = (unat (B ! blk) + 1 + sec) * 512"
    and Q: "\<And>r t. img L t (file_of t) B \<Longrightarrow> altered L s (block_range (spb s) blk sec cnt) t \<Longrightarrow> ctx_bat t = ctx_bat s \<Longrightarrow>
      (r = 0 \<Longrightarrow> \<forall>i<cnt. blk_sec (file_of t) (B ! blk) (sec + i) = take 512 (drop (i * 512) data)) \<Longrightarrow> Q r t"
  shows "wp (vhd_write data) Q s"
proof (rule wp_vhd_write [OF imgD(3,2) [OF i]])
  fix r :: int and g fl k
  assume t: "torn f (offset s) data g"
    and z: "r = 0 \<Longrightarrow> k = length data \<and> fread g (offset s) (length data) = data \<and> (data \<noteq> [] \<longrightarrow> offset s + length data \<le> fsize g)"
  let ?t = "put_file g (s\<lparr>faults := fl\<rparr>)\<lparr>offset := offset s + k\<rparr>" and ?e = "B ! blk" and ?p = "spb s" and ?n = "entries (ctx_bat s)"
  have cf: "cur_file (s\<lparr>faults := fl\<rparr>) = Some f" using imgD(3) [OF i] by simp
  have w: "wrote s ?t" "file_of ?t = g" using wrote_put [OF imgD(3) [OF i]] file_of_put [OF imgD(3) [OF i]] by simp_all
  have bits: "blk_bit g ?e j = blk_bit f ?e j" for j
    using same_on_fread [OF torn_same_on [OF t, of "(unat ?e + 1) * 512" "unat ?e * 512"], of "unat ?e * 512" 512] o
    by (simp add: blk_bit_def)
  have secs: "blk_sec g ?e j = blk_sec f ?e j" if "j < sec \<or> sec + cnt \<le> j" for j
    using same_on_fread [OF torn_same_on [OF t, of "(unat ?e + 1 + j + 1) * 512" "(unat ?e + 1 + j) * 512"], of "(unat ?e + 1 + j) * 512" 512]
      o d that unfolding blk_sec_def by auto
  have ins: "unat ?e * 512 \<le> offset s" "offset s + length data \<le> (unat ?e + 1 + spb s) * 512" using o d by auto
  note im = img_inside [OF i b w(1), unfolded w(2), OF t ins]
  have it: "img L ?t g B" using im(1) bits by blast
  have "view ?p ?n B g k = view ?p ?n B f k" if "k \<notin> block_range ?p blk sec cnt" for k
  proof (cases "k div ?p = blk")
    case True
    with not_block_range [OF that] show ?thesis by (simp add: view_in_block [OF True b] bits secs)
  qed (use im(2) bits in blast)
  then have al: "altered L s (block_range ?p blk sec cnt) ?t"
    using it w t lasting_wrote [OF w(1) imgD(3) [OF i], of "offset s" data] by (intro alteredI [OF i, of _ B]) (auto intro: wroteD(1) [OF w(1) imgD(3) [OF i]])
  have "\<forall>i<cnt. blk_sec g ?e (sec + i) = take 512 (drop (i * 512) data)" if "r = 0"
  proof (intro allI impI)
    fix i assume i: "i < cnt"
    have "blk_sec g ?e (sec + i) = buf_get (fread g (offset s) (length data)) (i * 512) 512"
      using d o i by (subst buf_get_fread) (auto simp: blk_sec_def algebra_simps)
    also have "\<dots> = take 512 (drop (i * 512) data)" using z [OF that] by (simp add: buf_get_def)
    finally show "blk_sec g ?e (sec + i) = take 512 (drop (i * 512) data)" .
  qed
  then show "Q r ?t" using it al w by (intro Q) simp_all
qed

lemma wp_bind_fun: "wp (State_Monad.bind m f) Q = wp m (\<lambda>x. wp (f x) Q)"
  by (rule ext) (rule wp_bind)

lemma wp_put_bits:
  assumes i: "img L s f B" and b: "blk < entries (ctx_bat s)" "B ! blk \<noteq> DD_BLK_UNUSED" and c: "sec + cnt \<le> spb s"
    and m: "m = fold (\<lambda>i m. set_bit m (sec + i)) [0..<cnt] (fread f (unat (B ! blk) * 512) 512)"
    and Q: "\<And>r t. img L t (file_of t) B \<Longrightarrow> altered L s (block_range (spb s) blk sec cnt) t \<Longrightarrow> ctx_bat t = ctx_bat s \<Longrightarrow>
      (\<And>j. blk_sec (file_of t) (B ! blk) j = blk_sec f (B ! blk) j) \<Longrightarrow>
      (r = 0 \<Longrightarrow> \<forall>j. blk_bit (file_of t) (B ! blk) j = test_bit m j) \<Longrightarrow> Q r t"
  shows "wp (vhd_write_bitmap blk True m) Q s"
proof -
  let ?e = "B ! blk" and ?p = "spb s" and ?n = "entries (ctx_bat s)"
  have len: "length m = 512" by (simp add: m)
  have mj: "test_bit m j \<longleftrightarrow> sec \<le> j \<and> j < sec + cnt \<or> blk_bit f ?e j" for j
    using c geomD(2) [OF imgD(1) [OF i]] by (simp add: m test_bit_fold blk_bit_def)
  show ?thesis
  proof (rule wp_write_bitmap [OF i b len])
    fix r :: int and t assume w: "wrote s t" and t: "torn f (unat ?e * 512) m (file_of t)"
      and z: "r = 0 \<Longrightarrow> fread (file_of t) (unat ?e * 512) 512 = m"
    have old: "blk_bit (file_of t) ?e j = blk_bit f ?e j \<or> blk_bit (file_of t) ?e j = test_bit m j" for j
      using torn_test_bit [OF t len, of j] unfolding blk_bit_def .
    have bits: "blk_bit f ?e j \<Longrightarrow> blk_bit (file_of t) ?e j" for j using old [of j] mj [of j] by blast
    have secs: "blk_sec (file_of t) ?e j = blk_sec f ?e j" for j
      using same_on_fread [OF torn_same_on [OF t, of "(unat ?e + 1 + j + 1) * 512" "(unat ?e + 1 + j) * 512"], of "(unat ?e + 1 + j) * 512" 512] len
      unfolding blk_sec_def by auto
    have it: "img L t (file_of t) B"
      by (rule img_inside(1) [OF i b w t _ _ bits]) (use len in auto)
    have "view ?p ?n B (file_of t) k = view ?p ?n B f k" if "k \<notin> block_range ?p blk sec cnt" for k
    proof (cases "k div ?p = blk")
      case True
      with not_block_range [OF that] mj [of "k mod ?p"] old [of "k mod ?p"] show ?thesis
        by (auto simp: view_in_block [OF True b] secs)
    next
      case False
      show ?thesis by (rule img_inside(2) [OF i b w t _ _ bits False]) (use len in auto)
    qed
    then have al: "altered L s (block_range ?p blk sec cnt) t"
      by (intro alteredI [OF i it]) (auto intro: wroteD(1) [OF w imgD(3) [OF i]] lasting_wrote [OF w imgD(3) [OF i] t])
    show "Q r t"
      by (rule Q [OF it al _ secs]) (use wroteD(3) [OF w imgD(3) [OF i]] z in \<open>auto simp: blk_bit_def\<close>)
  qed
qed

text \<open>The outcome of marking the sectors of a range: on success their bits are set.\<close>

definition marked :: "img_layout \<Rightarrow> vhd_context \<Rightarrow> nat \<Rightarrow> nat \<Rightarrow> nat \<Rightarrow> int \<Rightarrow> vhd_context \<Rightarrow> bool" where
  "marked L s blk sec cnt r t \<longleftrightarrow> altered L s (block_range (spb s) blk sec cnt) t \<and> ctx_bat t = ctx_bat s \<and>
     (let e = the (bat (ctx_bat s)) ! blk in
      (\<forall>j < spb s. blk_sec (file_of t) e j = blk_sec (file_of s) e j) \<and>
      (r = 0 \<longrightarrow> (\<forall>j<cnt. blk_bit (file_of t) e (sec + j))))"

lemma marked_steady:
  assumes "marked L s blk sec cnt 0 t" "img L t (file_of t) B" "steady L t B v"
    and "blk < entries (ctx_bat s)" "B ! blk \<noteq> DD_BLK_UNUSED"
  shows "marked L s blk sec cnt 0 v"
proof -
  have al: "altered L s (block_range (spb s) blk sec cnt) t" and cb: "ctx_bat t = ctx_bat s" using assms(1) by (simp_all add: marked_def)
  note k = kept_static [OF alteredD(2) [OF al]]
  have so: "same_on (file_of t) (file_of v) (unat (B ! blk) * 512) ((unat (B ! blk) + 1 + spb s) * 512)"
    using steadyD(4) [OF assms(3)] k assms(4,5) by (simp add: blocks_same_def)
  have B: "the (bat (ctx_bat s)) = B" using imgD(4) [OF assms(2)] cb by simp
  have "altered L s (block_range (spb s) blk sec cnt) v"
    using altered_trans [OF al altered_steady [OF assms(2,3)]] by simp
  then show ?thesis
    using assms(1) blk_same [OF so] steadyD(3) [OF assms(3)] cb by (simp add: marked_def B)
qed

lemma wp_set_block_bits:
  assumes i: "img L s f B" and b: "blk < entries (ctx_bat s)" "B ! blk \<noteq> DD_BLK_UNUSED" and c: "sec + cnt \<le> spb s"
    and Q: "\<And>r d t. marked L s blk sec cnt r t \<Longrightarrow> Q (r, d) t"
  shows "wp (set_block_bits blk sec cnt) Q s"
proof -
  let ?e = "B ! blk"
  note g = imgD(1) [OF i] and sf = file_of_img [OF i] imgD(4) [OF i]
  have quiet: "marked L s blk sec cnt r t" if "moved s t" "r = 0 \<Longrightarrow> \<forall>j < spb s. blk_bit f ?e j" for r t
  proof -
    have it: "img L t f B" by (rule moved_img [OF that(1) i])
    have "altered L s (block_range (spb s) blk sec cnt) t"
      by (rule altered_mono [OF altered_steady [OF i steady_moved [OF i that(1)]]]) simp
    then show ?thesis
      using movedD [OF that(1)] that(2) c by (simp add: marked_def sf file_of_img [OF it])
  qed
  have bits: "wp (do { err \<leftarrow> vhd_write_bitmap blk True m;
       if err \<noteq> 0 then ret (err, False)
       else do { has \<leftarrow> vhd_has_batmap;
         if \<not> has then ret (0, False)
         else if \<not> list_all (test_bit m) [0..<spb s] then ret (0, False)
         else do { err \<leftarrow> do { vhd_batmap_set blk; bm \<leftarrow> gets batmap; vhd_write_batmap bm }; ret (err, False) } } }) Q u"
    if u: "moved s u" and m: "m = fold (\<lambda>i m. set_bit m (sec + i)) [0..<cnt] (fread f (unat ?e * 512) 512)" for u m
  proof -
    have iu: "img L u f B" by (rule moved_img [OF u i])
    note ku = kept_static [OF movedD(1) [OF u]]
    have su: "altered L s {} u" by (rule altered_steady [OF i steady_moved [OF i u]])
    show ?thesis
      unfolding wp_bind [of "vhd_write_bitmap blk True m"]
    proof (rule wp_put_bits [OF iu _ b(2) _ m])
      show "blk < entries (ctx_bat u)" "sec + cnt \<le> spb u" using b c ku by simp_all
      fix r :: int and t assume t: "img L t (file_of t) B" "altered L u (block_range (spb u) blk sec cnt) t" "ctx_bat t = ctx_bat u"
        and sec: "\<And>j. blk_sec (file_of t) ?e j = blk_sec f ?e j"
        and z: "r = 0 \<Longrightarrow> \<forall>j. blk_bit (file_of t) ?e j = test_bit m j"
      have mk: "marked L s blk sec cnt r t"
        using altered_trans [OF su t(2)] t(3) movedD(3) [OF u] sec z c ku geomD(2) [OF g]
        by (auto simp: marked_def sf m test_bit_fold)
      have kt: "kept s t" using alteredD(2) [OF altered_trans [OF su t(2)]] .
      have full: "full (spb t) (file_of t) ?e" if "r = 0" "list_all (test_bit m) [0..<spb s]"
        using that z kept_static [OF kt] by (auto simp: full_def list_all_iff)
      have bt: "blk < entries (ctx_bat t)" using b kept_static [OF kt] by simp
      have mark: "wp (do { vhd_batmap_set blk; bm \<leftarrow> gets batmap; vhd_write_batmap bm }) (\<lambda>err. wp (ret (err, False)) Q) t"
        if "r = 0" "list_all (test_bit m) [0..<spb s]" "has_bm t"
        by (rule wp_mark_full [OF t(1) that(3) bt b(2) full [OF that(1,2)]])
          (use marked_steady [OF _ t(1) _ b] mk that(1) in \<open>auto simp: wp_simps intro: Q\<close>)
      show "wp (if r \<noteq> 0 then ret (r, False)
         else do { has \<leftarrow> vhd_has_batmap;
           if \<not> has then ret (0, False)
           else if \<not> list_all (test_bit m) [0..<spb s] then ret (0, False)
           else do { err \<leftarrow> do { vhd_batmap_set blk; bm \<leftarrow> gets batmap; vhd_write_batmap bm }; ret (err, False) } }) Q t"
        using Q [OF mk] mark
        by (auto simp: wp_simps wp_bind_fun wp_has_batmap [OF imgD(1) [OF t(1)]])
    qed
  qed
  have rd: "wp (vhd_read_bitmap blk) (\<lambda>x. wp (case x of (err, mp) \<Rightarrow> (case mp of
          None \<Rightarrow> ret (err, True)
        | Some m0 \<Rightarrow>
            (let m = fold (\<lambda>i m. set_bit m (sec + i)) [0..<cnt] m0 in do {
               err \<leftarrow> vhd_write_bitmap blk True m;
               if err \<noteq> 0 then ret (err, False)
               else do {
                 has \<leftarrow> vhd_has_batmap;
                 if \<not> has then ret (0, False)
                 else if \<not> list_all (test_bit m) [0..<spb s] then ret (0, False)
                 else do {
                   err \<leftarrow> do { vhd_batmap_set blk; bm \<leftarrow> gets batmap; vhd_write_batmap bm };
                   ret (err, False)
                 }
               }
             }))) Q) s"
    by (rule wp_read_bitmap [OF i b]) (use quiet bits Q in \<open>simp_all add: wp_ret Let_def\<close>)
  show ?thesis
  proof (cases "has_bm s")
    case True
    show ?thesis
      unfolding set_block_bits_def wp_bind wp_get wp_has_batmap [OF g] if_P [OF True]
      by (rule wp_batmap_test [OF i True b(1)])
        (use quiet [OF moved_refl] Q rd in \<open>auto simp: wp_ret wp_bind [of "vhd_read_bitmap blk"] full_def\<close>)
  next
    case False
    with rd show ?thesis
      by (simp add: set_block_bits_def wp_bind wp_get wp_has_batmap [OF g] wp_ret)
  qed
qed

text \<open>The outcome of writing a range of sectors.\<close>

definition written :: "img_layout \<Rightarrow> vhd_context \<Rightarrow> nat set \<Rightarrow> nat \<Rightarrow> byte list \<Rightarrow> int \<Rightarrow> vhd_context \<Rightarrow> bool" where
  "written L s A k0 data r t \<longleftrightarrow> altered L s A t \<and>
     (r = 0 \<longrightarrow> (\<forall>i<length data div 512. sector_of t (k0 + i) = Some (take 512 (drop (i * 512) data))))"

lemma written_after: "altered L s A t \<Longrightarrow> written L t A k0 data r u \<Longrightarrow> written L s A k0 data r u"
  using altered_trans [of L s A t A u] by (simp add: written_def)

lemma sector_of_block:
  assumes "img L s f B" "blk < entries (ctx_bat s)" "B ! blk \<noteq> DD_BLK_UNUSED" "j < spb s"
  shows "sector_of s (blk * spb s + j) = (if blk_bit f (B ! blk) j then Some (blk_sec f (B ! blk) j) else None)"
  using assms(2-4) by (subst sector_of_img [OF assms(1)], subst view_in_block [of _ _ blk]) auto

lemma written_block:
  assumes s: "img L s f B" and b: "blk < entries (ctx_bat s)" "B ! blk \<noteq> DD_BLK_UNUSED"
    and d: "length data = cnt * 512" "sec + cnt \<le> spb s"
    and t: "img L t (file_of t) B" "altered L s (block_range (spb s) blk sec cnt) t" "ctx_bat t = ctx_bat s"
      "\<forall>i<cnt. blk_sec (file_of t) (B ! blk) (sec + i) = take 512 (drop (i * 512) data)"
    and v: "marked L t blk sec cnt r v"
  shows "written L s (block_range (spb s) blk sec cnt) (blk * spb s + sec) data r v"
proof -
  note kt = kept_static [OF alteredD(2) [OF t(2)]]
  have av: "altered L t (block_range (spb s) blk sec cnt) v" and cv: "ctx_bat v = ctx_bat t"
    using v kt by (simp_all add: marked_def)
  have al: "altered L s (block_range (spb s) blk sec cnt) v" using altered_trans [OF t(2) av] by simp
  note kv = kept_static [OF alteredD(2) [OF al]]
  have B: "the (bat (ctx_bat t)) = B" using imgD(4) [OF t(1)] by simp
  obtain C where C: "img L v (file_of v) C" using alteredD(1) [OF al] by blast
  have "C = B" using imgD(4) [OF C] imgD(4) [OF t(1)] cv by simp
  with C have iv: "img L v (file_of v) B" by simp
  have "sector_of v (blk * spb s + sec + i) = Some (take 512 (drop (i * 512) data))" if "r = 0" "i < cnt" for i
    using sector_of_block [OF iv, of blk "sec + i"] v t(4) that b d(2) kt kv by (simp add: marked_def B add.assoc Let_def)
  with al d show ?thesis by (simp add: written_def)
qed

lemma wp_write_allocated:
  assumes i: "img L s f B" and b: "blk < entries (ctx_bat s)" "B ! blk \<noteq> DD_BLK_UNUSED"
    and d: "length data = cnt * 512" "sec + cnt \<le> spb s"
    and Q: "\<And>r d t. written L s (block_range (spb s) blk sec cnt) (blk * spb s + sec) data r t \<Longrightarrow> Q (r, d) t"
  shows "wp (do { err \<leftarrow> vhd_seek (int (vhd_sectors_to_bytes (unat (B ! blk) + bm_secs s + sec))) SEEK_SET;
      if err \<noteq> 0 then ret (err, True)
      else do { err \<leftarrow> vhd_write data; if err \<noteq> 0 then ret (err, True) else set_block_bits blk sec cnt } }) Q s"
proof -
  let ?o = "(unat (B ! blk) + 1 + sec) * 512"
  let ?s = "s\<lparr>offset := ?o\<rparr>"
  have m: "moved s ?s" by simp
  have i': "img L ?s f B" by (rule moved_img [OF m i])
  have so: "int (vhd_sectors_to_bytes (unat (B ! blk) + bm_secs s + sec)) = int ?o" "int ?o < 9223372036854775808"
    using block_at(2) [OF i b] geomD(2,3) [OF imgD(1) [OF i]] d(2) by (auto simp del: of_nat_mult of_nat_add)
  have sk: "wp (vhd_seek (int ?o) SEEK_SET) P s = P 0 ?s" for P
    using wp_seek_set_ok [OF imgD(3) [OF i], of "int ?o" P] so(2) unfolding nat_int by simp
  have "wp (do { err \<leftarrow> vhd_write data; if err \<noteq> 0 then ret (err, True) else set_block_bits blk sec cnt }) Q ?s"
    unfolding wp_bind
  proof (rule wp_block_data [OF i' _ b(2) d(1)])
    show "blk < entries (ctx_bat ?s)" "sec + cnt \<le> spb ?s" "offset ?s = ?o" using b d by simp_all
    fix r :: int and t assume t: "img L t (file_of t) B" "altered L ?s (block_range (spb ?s) blk sec cnt) t" "ctx_bat t = ctx_bat ?s"
      and z: "r = 0 \<Longrightarrow> \<forall>i<cnt. blk_sec (file_of t) (B ! blk) (sec + i) = take 512 (drop (i * 512) data)"
    have al: "altered L s (block_range (spb s) blk sec cnt) t"
      using altered_trans [OF altered_steady [OF i steady_moved [OF i m]] t(2)] by simp
    note kt = kept_static [OF alteredD(2) [OF al]]
    have bits: "wp (set_block_bits blk sec cnt) Q t" if "r = 0"
      by (rule wp_set_block_bits [OF t(1) _ b(2)])
        (use b d kt written_block [OF i b d t(1) al _ z [OF that]] t(3) Q in auto)
    show "wp (if r \<noteq> 0 then ret (r, True) else set_block_bits blk sec cnt) Q t"
      using bits al by (auto simp: wp_ret written_def intro!: Q)
  qed
  then show ?thesis by (simp only: so(1) wp_bind sk simp_thms if_False)
qed

lemma wp_write_one_block:
  assumes i: "img L s f B" and b: "blk < entries (ctx_bat s)"
    and d: "length data = cnt * 512" "sec + cnt \<le> spb s"
    and Q: "\<And>r d t. written L s (block_range (spb s) blk sec cnt) (blk * spb s + sec) data r t \<Longrightarrow> Q (r, d) t"
  shows "wp (write_one_block data blk sec cnt) Q s"
proof -
  let ?A = "block_range (spb s) blk sec cnt"
  have len: "blk < length B" using imgD(5) [OF i] b by (simp add: stored_def)
  have e: "bat_entry s blk = Some (B ! blk)" using len imgD(4) [OF i] by (simp add: bat_entry_def)
  show ?thesis
  proof (cases "B ! blk = DD_BLK_UNUSED")
    case False
    with wp_write_allocated [where Q = Q, OF i b False d Q] e show ?thesis
      unfolding write_one_block_def by (simp add: wp_bind wp_get wp_ret)
  next
    case True
    let ?z = "cnt < spb s"
    have sub: "(if ?z then {} else {k. k div spb s = blk}) \<subseteq> ?A"
    proof (cases ?z)
      case False
      have "k \<in> ?A" if "k div spb s = blk" for k
        using not_block_range [of k "spb s" blk sec cnt] that False d(2) geomD(1) [OF imgD(1) [OF i]] mod_less_divisor [of "spb s" k] by linarith
      then show ?thesis by auto
    qed simp
    have "wp (vhd_io_allocate_block blk ?z) (\<lambda>err. wp (if err \<noteq> 0 then ret (err, True) else do {
        s \<leftarrow> State_Monad.get;
        (case bat_entry s blk of None \<Rightarrow> do { panic; ret (- EINVAL, True) }
         | Some e \<Rightarrow> do {
             err \<leftarrow> vhd_seek (int (vhd_sectors_to_bytes (unat e + bm_secs s + sec))) SEEK_SET;
             if err \<noteq> 0 then ret (err, True)
             else do { err \<leftarrow> vhd_write data; if err \<noteq> 0 then ret (err, True) else set_block_bits blk sec cnt } }) }) Q) s"
    proof (rule wp_allocate_block [OF i b True])
      fix r t C assume al: "allocated L s blk ?z r t C"
      have alt: "altered L s ?A t" using altered_mono [OF altered_allocated [OF i al] sub] .
      note kt = kept_static [OF alteredD(2) [OF alt]]
      have it: "img L t (file_of t) C" and ne: "r = 0 \<Longrightarrow> C ! blk \<noteq> DD_BLK_UNUSED" using al by (simp_all add: allocated_def)
      have bt: "blk < entries (ctx_bat t)" "sec + cnt \<le> spb t" using b d(2) kt by simp_all
      have Q': "Q (r, d) u" if "written L t (block_range (spb t) blk sec cnt) (blk * spb t + sec) data r u" for r d u
        using that by (intro Q written_after [OF alt]) (simp add: kt(8))
      show "wp (if r \<noteq> 0 then ret (r, True) else do {
        s \<leftarrow> State_Monad.get;
        (case bat_entry s blk of None \<Rightarrow> do { panic; ret (- EINVAL, True) }
         | Some e \<Rightarrow> do {
             err \<leftarrow> vhd_seek (int (vhd_sectors_to_bytes (unat e + bm_secs s + sec))) SEEK_SET;
             if err \<noteq> 0 then ret (err, True)
             else do { err \<leftarrow> vhd_write data; if err \<noteq> 0 then ret (err, True) else set_block_bits blk sec cnt } }) }) Q t"
        using wp_write_allocated [where Q = Q, OF it bt(1) ne d(1) bt(2) Q'] block_at(1) [OF it bt(1) ne] Q alt
        by (auto simp: wp_ret wp_bind wp_get written_def)
    qed
    then show ?thesis
      unfolding write_one_block_def wp_bind wp_get e option.case if_P [OF True] .
  qed
qed

subsection \<open>The write loop\<close>

lemma written_append:
  assumes 1: "written L s {k ..< k + c} k (take (c * 512) buf) 0 t" and 2: "written L t {k + c ..< k + n} (k + c) (drop (c * 512) buf) r u"
    and l: "c \<le> n" "length buf = n * 512"
  shows "written L s {k ..< k + n} k buf r u"
proof -
  have a: "altered L s {k ..< k + c} t" "altered L t {k + c ..< k + n} u" using 1 2 by (simp_all add: written_def)
  have al: "altered L s {k ..< k + n} u" by (rule altered_mono [OF altered_trans [OF a]]) (use l in auto)
  have "sector_of u (k + i) = Some (take 512 (drop (i * 512) buf))" if "r = 0" "i < n" for i
  proof (cases "i < c")
    case True
    then have "take 512 (drop (i * 512) (take (c * 512) buf)) = take 512 (drop (i * 512) buf)"
      using l by (simp add: drop_take min_def)
    moreover have "sector_of u (k + i) = sector_of t (k + i)" by (rule alteredD(3) [OF a(2)]) (use True in simp)
    ultimately show ?thesis using 1 True l by (simp add: written_def min_absorb1)
  next
    case False
    then obtain j where j: "i = c + j" using le_Suc_ex not_less by blast
    then have "j < (n - c)" using that(2) l by simp
    then have "j < length (drop (c * 512) buf) div 512" using l by (simp add: diff_mult_distrib [symmetric])
    moreover have "drop (j * 512) (drop (c * 512) buf) = drop (i * 512) buf" by (simp add: j distrib_right add.commute)
    ultimately show ?thesis using 2 that(1) by (simp add: written_def j add.assoc)
  qed
  with al l show ?thesis by (simp add: written_def)
qed

lemma wp_write_loop:
  assumes "img L s f B" "length buf = secs * 512" "sector + secs \<le> entries (ctx_bat s) * spb s" "0 < secs" "secs \<le> fuel"
    and "\<And>r d t. written L s {sector ..< sector + secs} sector buf r t \<Longrightarrow> Q (r, d) t"
  shows "wp (dynamic_write_loop fuel buf sector secs) Q s"
  using assms
proof (induction fuel arbitrary: s f B buf sector secs Q)
  case (Suc fuel)
  note i = Suc.prems(1) and Q = Suc.prems(6)
  let ?p = "spb s" and ?blk = "sector div spb s" and ?sec = "sector mod spb s"
  let ?c = "min secs (spb s - sector mod spb s)"
  note g = imgD(1) [OF i]
  have p: "0 < ?p" "?p \<le> 4096" by (rule geomD(1) [OF g], rule geomD(2) [OF g])
  have blk: "?blk < entries (ctx_bat s)"
    using Suc.prems(3,4) p by (simp add: div_less_iff_less_mult)
  then have u: "u32 ?blk = ?blk" using geomD(11) [OF g] by (simp add: u32_def)
  have c: "0 < ?c" "?c \<le> secs" "?sec + ?c \<le> ?p" using Suc.prems(4) p mod_less_divisor [OF p(1), of sector] by auto
  have vc: "vhd_sectors_to_bytes ?c = ?c * 512" using c p by simp
  have rng: "block_range ?p ?blk ?sec n = {sector ..< sector + n}" "?blk * ?p + ?sec = sector" for n
    by (simp_all add: block_range_def)
  show ?case
    unfolding dynamic_write_loop.simps wp_bind wp_get Let_def u vc if_not_P [OF p(1) [THEN less_imp_neq, symmetric]]
  proof (rule wp_write_one_block [OF i blk])
    show "length (take (?c * 512) buf) = ?c * 512" "?sec + ?c \<le> ?p" using c Suc.prems(2) by (simp_all add: min_absorb2)
    fix r d t assume "written L s (block_range ?p ?blk ?sec ?c) (?blk * ?p + ?sec) (take (?c * 512) buf) r t"
    then have w: "written L s {sector ..< sector + ?c} sector (take (?c * 512) buf) r t" by (simp add: rng)
    then have al: "altered L s {sector ..< sector + ?c} t" by (simp add: written_def)
    note kt = kept_static [OF alteredD(2) [OF al]]
    obtain C where it: "img L t (file_of t) C" using alteredD(1) [OF al] by blast
    have fin: "Q (r, d') t" if "r \<noteq> 0 \<or> secs - ?c = 0" for d'
    proof (rule Q)
      show "written L s {sector ..< sector + secs} sector buf r t"
        using w that c(2) Suc.prems(2) altered_mono [OF al, of "{sector ..< sector + secs}"] by (auto simp: written_def)
    qed
    have rest: "wp (dynamic_write_loop fuel (drop (?c * 512) buf) (sector + ?c) (secs - ?c)) Q t"
      if "r = 0" "secs - ?c \<noteq> 0"
    proof (rule Suc.IH [OF it])
      show "length (drop (?c * 512) buf) = (secs - ?c) * 512" using Suc.prems(2) by (simp add: diff_mult_distrib)
      show "sector + ?c + (secs - ?c) \<le> entries (ctx_bat t) * spb t" using Suc.prems(3) c kt by simp
      show "0 < secs - ?c" "secs - ?c \<le> fuel" using that c Suc.prems(5) by linarith+
      fix r' d u assume "written L t {sector + ?c ..< sector + ?c + (secs - ?c)} (sector + ?c) (drop (?c * 512) buf) r' u"
      then show "Q (r', d) u"
        using written_append [OF w [unfolded that(1)], of secs r' u] c(2) Suc.prems(2) Q by simp
    qed
    show "wp (case (r, d) of (err, direct) \<Rightarrow> if err \<noteq> 0 then ret (err, direct)
       else if secs - ?c = 0 then ret (0, False)
       else dynamic_write_loop fuel (drop (?c * 512) buf) (sector + ?c) (secs - ?c)) Q t"
    proof (cases "r = 0")
      case True
      with fin [of False] rest show ?thesis by (cases "secs - ?c = 0") (simp_all only: prod.case wp_ret simp_thms if_True if_False)
    next
      case False
      with fin [of d] show ?thesis by (simp only: prod.case wp_ret simp_thms if_True)
    qed
  qed
qed simp

subsection \<open>The footer\<close>

lemma fbyte_ftrunc: "i < n \<Longrightarrow> fbyte (ftrunc f n) i = fbyte f i"
  by (simp add: ftrunc_def fbyte_def)

lemma block_le_end:
  assumes "img L s f B" "blk < entries (ctx_bat s)" "B ! blk \<noteq> DD_BLK_UNUSED"
  shows "unat (B ! blk) + 1 + spb s \<le> blocks_end L s B"
proof -
  have "B ! blk \<in> set (take (entries (ctx_bat s)) B)"
    using assms(2) imgD(5) [OF assms(1)] by (auto simp: stored_def in_set_conv_nth intro!: exI [of _ blk])
  from data_end_mem [OF this assms(3), of "spb s + 1" "l_lo L"] show ?thesis by (simp add: blocks_end_def)
qed

lemma steady_ftrunc:
  assumes i: "img L s f B" and n: "blocks_end L s B * 512 + 512 \<le> n" and blk: "\<not> fblk f"
  shows "steady L s B (put_file (ftrunc f n) s)"
proof -
  let ?g = "ftrunc f n" and ?t = "put_file (ftrunc f n) s"
  note g = imgD(1) [OF i] and cf = imgD(3) [OF i]
  have lo: "l_lo L * 512 \<le> n" using n data_end_ge [of "l_lo L" "spb s + 1" "take (entries (ctx_bat s)) B"] by (simp add: blocks_end_def)
  have sm: "same_on f ?g 0 n" by (simp add: same_on_def fbyte_ftrunc)
  have rd: "fread ?g a m = fread f a m" if "a + m \<le> n" for a m using same_on_fread [OF sm _ that] by simp
  have bs: "blocks_same (spb s) (entries (ctx_bat s)) B f ?g"
    using imgD(5) [OF i] n same_on_mono [OF sm, of "l_lo L * 512" "blocks_end L s B * 512"]
    by (intro blocks_sameI [of "l_lo L" "room_limit f"]) (auto simp: stored_def blocks_end_def)
  have "room_limit ?g = room_limit f" "fblk ?g = fblk f" using blk by (simp_all add: room_limit_def ftrunc_def)
  moreover have "fread ?g (bm_hoff s + 8) 12 = fread f (bm_hoff s + 8) 12"
    "fread ?g (l_map L) (batmap_map_size (footer s)) = fread f (l_map L) (batmap_map_size (footer s))" if "has_bm s"
    using geom_bmD(2,3) [OF g that] lo by (auto intro!: rd)
  ultimately have "stored L s ?g B" using imgD(5) [OF i] sound_same [OF bs] by (auto simp: stored_def)
  then have "img L ?t (file_of ?t) B"
    using imgD [OF i] bm_ok_same [OF bs] by (intro imgI [OF i]) (simp_all add: file_of_put [OF cf] cur_file_put_file [OF cf])
  moreover have "lasting s ?t"
    using imgD(4) [OF i] n block_le_end [OF i] by (fastforce simp: lasting_def blk_fits_def file_of_put [OF cf] ftrunc_def)
  ultimately show ?thesis using bs by (simp add: steady_def file_of_put [OF cf] file_of_img [OF i])
qed

lemma wp_write_footer_at:
  assumes i: "img L s f B" and w: "footer_wf h"
    and out: "off + 512 \<le> l_lo L * 512 \<and> off + 512 \<le> tbl s \<or> blocks_end L s B * 512 \<le> off"
    and Q: "\<And>r t. steady L s B t \<Longrightarrow> batmap t = batmap s \<Longrightarrow> fsize f \<le> fsize (file_of t) \<Longrightarrow>
      fsize (file_of t) \<le> max (fsize f) (off + 512) \<Longrightarrow> (r = 0 \<Longrightarrow> off + 512 \<le> fsize (file_of t)) \<Longrightarrow> Q r t"
  shows "wp (vhd_write_footer_at h (int off)) Q s"
proof -
  let ?b = "footer_bytes (vhd_footer_out (h\<lparr>ftr_checksum := vhd_checksum_footer h\<rparr>))"
  note g = imgD(1) [OF i] and cf = imgD(3) [OF i]
  have len: "length ?b = 512" using w by (simp add: length_footer_bytes footer_wf_def vhd_footer_out_def)
  have lo: "l_lo L \<le> blocks_end L s B" using data_end_ge [of "l_lo L" "spb s + 1" "take (entries (ctx_bat s)) B"] by (simp add: blocks_end_def)
  have Q1: "Q r t" if t: "wrote s t" "torn f off ?b (file_of t)" "r = 0 \<Longrightarrow> off + 512 \<le> fsize (file_of t)" for r t
  proof (rule Q)
    have ap: "apart off (length ?b) (bm_hoff s + 8) 12 \<and> apart off (length ?b) (l_map L) (batmap_map_size (footer s))" if "has_bm s"
      using out len lo geom_bmD(1,2,3) [OF g that] unfolding apart_def by auto
    have "off + length ?b \<le> l_lo L * 512 \<or> blocks_end L s B * 512 \<le> off" using out len by auto
    from img_outside [OF i t(1,2) this ap] show "steady L s B t" by (rule steady_wrote [OF i t(1,2)])
    show "batmap t = batmap s" by (rule wroteD(4) [OF t(1) cf])
    show "fsize f \<le> fsize (file_of t)" by (rule torn_fsize [OF t(2)])
    show "fsize (file_of t) \<le> max (fsize f) (off + 512)" using t(2) len by (simp add: torn_def)
    show "r = 0 \<Longrightarrow> off + 512 \<le> fsize (file_of t)" by (rule t(3))
  qed
  show ?thesis
    unfolding vhd_write_footer_at_def
    using imgD [OF i] len
    by (auto simp: wp_simps Let_def file_of_put [OF cf] wrote_put [OF cf] wrote_refl [OF cf] file_of_img [OF i] split: if_splits
        intro!: wp_seek_set [of _ f] wp_posix_memalign wp_vhd_write [of _ f] Q1)
qed

lemma wp_ftruncate:
  assumes "cur_file s = Some f" "\<not> panicked s"
    and "\<And>fl. \<not> fblk f \<Longrightarrow> Q 0 (put_file (ftrunc f n) (s\<lparr>faults := fl\<rparr>))" "\<And>r fl. r \<noteq> 0 \<Longrightarrow> Q r (s\<lparr>faults := fl\<rparr>)"
  shows "wp (sys_ftruncate n) Q s"
proof -
  obtain x fl where "pop_fault s = (x, s\<lparr>faults := fl\<rparr>)" using pop_fault_eq [of s] by (metis surj_pair)
  then show ?thesis using assms by (auto simp: sys_ftruncate_def wp_def split: fault.splits)
qed

text \<open>The file reaches beyond the end of the last block by at least a footer.\<close>

definition tail_ok :: "img_layout \<Rightarrow> vhd_context \<Rightarrow> bool" where
  "tail_ok L s \<longleftrightarrow> blocks_end L s (the (bat (ctx_bat s))) * 512 + 512 \<le> fsize (file_of s)"

lemma tail_ok_steady:
  assumes "img L s f B" "steady L s B t"
  shows "tail_ok L t \<longleftrightarrow> blocks_end L s B * 512 + 512 \<le> fsize (file_of t)"
  using kept_static [OF steadyD(2) [OF assms(2)]] imgD(4) [OF assms(1)] steadyD(3) [OF assms(2)]
  by (simp add: tail_ok_def blocks_end_def)

definition tail_exact :: "img_layout \<Rightarrow> vhd_context \<Rightarrow> bool" where
  "tail_exact L s \<longleftrightarrow> tail_ok L s \<and>
     (\<not> is_block s \<longrightarrow> fsize (file_of s) = blocks_end L s (the (bat (ctx_bat s))) * 512 + 512)"

lemma tail_exact_steady:
  assumes "img L s f B" "steady L s B t"
  shows "tail_exact L t \<longleftrightarrow> blocks_end L s B * 512 + 512 \<le> fsize (file_of t) \<and>
    (\<not> is_block s \<longrightarrow> fsize (file_of t) = blocks_end L s B * 512 + 512)"
  using kept_static [OF steadyD(2) [OF assms(2)]] imgD(4) [OF assms(1)] steadyD(3) [OF assms(2)]
  by (simp add: tail_exact_def tail_ok_def blocks_end_def)

lemma wp_write_footer:
  assumes i: "img L s f B" and Q: "\<And>r t. altered L s {} t \<Longrightarrow> (r = 0 \<Longrightarrow> tail_exact L t) \<Longrightarrow> Q r t"
  shows "wp (vhd_write_footer (footer s)) Q s"
proof -
  note g = imgD(1) [OF i]
  have wf: "footer_wf (footer s)" by (rule geomD(4) [OF g])
  define T where "T h \<longleftrightarrow> blocks_end L s B * 512 + 512 \<le> fsize h \<and> (\<not> is_block s \<longrightarrow> fsize h = blocks_end L s B * 512 + 512)" for h :: vfile
  have Q': "Q r t" if "steady L s B t" "r = 0 \<Longrightarrow> T (file_of t)" for r t
    using Q altered_steady [OF i that(1)] that tail_exact_steady [OF i] by (auto simp: T_def)
  have fin: "wp (do { dyn \<leftarrow> gets vhd_type_dynamic; if \<not> dyn then ret 0 else vhd_write_footer_at (footer s) 0 }) Q u"
    if u: "steady L s B u" "T (file_of u)" for u
  proof -
    note iu = steadyD(1) [OF u(1)] and ku = kept_static [OF steadyD(2) [OF u(1)]]
    have "wp (vhd_write_footer_at (footer s) (int 0)) Q u"
      by (rule wp_write_footer_at [OF iu wf]) (use geomD(6,7) [OF g] ku Q' steady_trans [OF u(1)] u(2) in \<open>auto simp: T_def\<close>)
    then show ?thesis using imgD(7) [OF iu] by (simp add: wp_simps)
  qed
  have main: "wp (do { err \<leftarrow> vhd_write_footer_at (footer s) (int off);
      if err \<noteq> 0 then ret err
       else do {
         err \<leftarrow> (if \<not> blk then sys_ftruncate (nat (int off + 512)) else ret 0);
         if err \<noteq> 0 then ret err
         else do { dyn \<leftarrow> gets vhd_type_dynamic; if \<not> dyn then ret 0 else vhd_write_footer_at (footer s) 0 } } }) Q u"
    if u: "steady L s B u" and off: "blocks_end L s B * 512 \<le> off" and blk: "blk = is_block s" "\<not> is_block s \<Longrightarrow> off = blocks_end L s B * 512" for u blk off
  proof -
    note ku = kept_static [OF steadyD(2) [OF u]]
    have "blocks_end L u B = blocks_end L s B" using ku by (simp add: blocks_end_def)
    then have off': "blocks_end L u B * 512 \<le> off" using off by simp
    show ?thesis
      unfolding wp_bind
    proof (rule wp_write_footer_at [OF steadyD(1) [OF u] wf disjI2 [OF off']])
      fix r :: int and t assume "steady L u B t" and fs: "r = 0 \<Longrightarrow> off + 512 \<le> fsize (file_of t)"
      then have st: "steady L s B t" using steady_trans [OF u] by blast
      note it = steadyD(1) [OF st]
      have tr: "wp (sys_ftruncate (nat (int off + 512))) (\<lambda>err. wp (if err \<noteq> 0 then ret err
          else do { dyn \<leftarrow> gets vhd_type_dynamic; if \<not> dyn then ret 0 else vhd_write_footer_at (footer s) 0 }) Q) t"
      proof (rule wp_ftruncate [OF imgD(3,2) [OF it]])
        fix fl
        have m: "steady L s B (t\<lparr>faults := fl\<rparr>)" using steady_trans [OF st steady_moved [OF it]] by simp
        have "blocks_end L t B = blocks_end L s B" using kept_static [OF steadyD(2) [OF st]] by (simp add: blocks_end_def)
        then have "steady L (t\<lparr>faults := fl\<rparr>) B (put_file (ftrunc (file_of t) (nat (int off + 512))) (t\<lparr>faults := fl\<rparr>))"
          if "\<not> fblk (file_of t)"
          by (intro steady_ftrunc) (use steadyD(1) [OF m] off that in \<open>auto simp: blocks_end_def\<close>)
        then show "\<not> fblk (file_of t) \<Longrightarrow> wp (if (0::int) \<noteq> 0 then ret 0
          else do { dyn \<leftarrow> gets vhd_type_dynamic; if \<not> dyn then ret 0 else vhd_write_footer_at (footer s) 0 }) Q
             (put_file (ftrunc (file_of t) (nat (int off + 512))) (t\<lparr>faults := fl\<rparr>))"
          using fin steady_trans [OF m] off blk kept_static(14) [OF steadyD(2) [OF st]] imgD(5) [OF it] file_of_put [OF imgD(3) [OF it]]
          by (simp add: ftrunc_def T_def stored_def nat_add_distrib nat_mult_distrib)
        show "\<And>r. r \<noteq> 0 \<Longrightarrow> wp (if r \<noteq> 0 then ret r
          else do { dyn \<leftarrow> gets vhd_type_dynamic; if \<not> dyn then ret 0 else vhd_write_footer_at (footer s) 0 }) Q (t\<lparr>faults := fl\<rparr>)"
          using Q' [OF m] by (simp add: wp_ret)
      qed
      show "wp (if r \<noteq> 0 then ret r else do {
         err \<leftarrow> (if \<not> blk then sys_ftruncate (nat (int off + 512)) else ret 0);
         if err \<noteq> 0 then ret err
         else do { dyn \<leftarrow> gets vhd_type_dynamic; if \<not> dyn then ret 0 else vhd_write_footer_at (footer s) 0 } }) Q t"
        using tr fin [OF st] Q' [OF st] order_trans [OF add_right_mono [OF off] fs] blk(1)
        by (cases "r = 0"; cases blk) (simp_all only: wp_bind wp_ret simp_thms if_True if_False T_def)
    qed
  qed
  show ?thesis
  proof (cases "is_block s")
    case True
    then have fb: "fblk f" using imgD(5) [OF i] by (simp add: stored_def)
    have "l_lo L \<le> blocks_end L s B" using data_end_ge [of "l_lo L" "spb s + 1" "take (entries (ctx_bat s)) B"] by (simp add: blocks_end_def)
    then have E: "0 < blocks_end L s B" "blocks_end L s B \<le> (fsize f - 512) div 512"
      using blocks_end_le [OF i] geomD(10) [OF g] fb by (simp_all add: room_limit_def)
    then have o: "int (fsize f) - 512 = int (fsize f - 512)" "blocks_end L s B * 512 \<le> fsize f - 512" by auto
    have "steady L s B (s\<lparr>offset := fsize f\<rparr>)" by (rule steady_moved [OF i]) simp
    note mn = main [OF this o(2), of True, folded o(1), OF True [THEN eqTrueI, symmetric]]
    have eof: "wp vhd_footer_offset_at_eof P s" if "P (0, int (fsize f) - 512) (s\<lparr>offset := fsize f\<rparr>)" "P (- EINVAL, 0) s" for P
      unfolding vhd_footer_offset_at_eof_def vhd_position_def wp_bind
      by (rule wp_seek_end [OF imgD(3) [OF i]]) (use that in \<open>simp_all add: wp_simps\<close>)
    show ?thesis
      unfolding vhd_write_footer_def wp_bind wp_gets if_P [OF True]
    proof (rule eof, goal_cases)
      case 1
      show ?case using mn by (simp only: prod.case wp_bind True simp_thms if_False)
    next
      case 2
      show ?case using Q' [OF steady_refl [OF i]] by (simp add: wp_ret)
    qed
  next
    case False
    note st = steady_same [OF i]
    show ?thesis
      unfolding vhd_write_footer_def wp_bind wp_gets if_not_P [OF False]
      apply (rule wp_end_of_data [OF i])
      subgoal for r v t
        using main [OF st [of t], of "blocks_end L s B * 512" False] Q' [OF st [of t]]
        by (cases "r = 0") (simp_all only: prod.case wp_bind wp_ret simp_thms if_True if_False False order_refl)
      done
  qed
qed

lemma wp_ret_fun: "wp (ret x) Q = Q x"
  by (rule ext) (rule wp_ret)

subsection \<open>Writing a range of sectors\<close>

lemma io_in_range_small:
  assumes "sec + secs < 36028797018963968" "io_in_range (footer s) sec secs"
  shows "(sec + secs) * 512 \<le> unat (curr_size (footer s))"
  using assms by (simp add: io_in_range_def)

lemma io_in_range_blocks:
  assumes "geom L s" "sec + secs < 36028797018963968" "io_in_range (footer s) sec secs"
  shows "sec + secs \<le> entries (ctx_bat s) * spb s"
proof -
  have "(sec + secs) * 512 \<le> (entries (ctx_bat s) * spb s) * 512"
    using io_in_range_small [OF assms(2,3)] geomD(13) [OF assms(1)] by simp
  then show ?thesis by simp
qed

lemma wp_dynamic_write:
  assumes i: "img L s f B" and d: "length buf = secs * 512" "0 < secs" "sec + secs < 36028797018963968"
    and Q: "\<And>r t. written L s {sec ..< sec + secs} sec buf r t \<Longrightarrow> (r = 0 \<Longrightarrow> tail_exact L t) \<Longrightarrow> Q r t"
  shows "wp (vhd_io_dynamic_write buf sec secs) Q s"
proof -
  let ?A = "{sec ..< sec + secs}"
  have Q0: "Q r t" if "steady L s B t" "r \<noteq> 0" for r t
    using that altered_mono [OF altered_steady [OF i that(1)], of ?A] by (intro Q) (simp_all add: written_def)
  have loop: "wp (do { (err, direct) \<leftarrow> dynamic_write_loop (Suc secs) buf sec secs;
           if err \<noteq> 0 \<and> direct then ret err
           else do { f \<leftarrow> gets footer; r \<leftarrow> vhd_write_footer f; ret (if err \<noteq> 0 then err else r) } }) Q u"
    if u: "steady L s B u" and rg: "io_in_range (footer s) sec secs" for u
  proof -
    note iu = steadyD(1) [OF u] and au = altered_steady [OF i u]
    note ku = kept_static [OF steadyD(2) [OF u]]
    show ?thesis
      unfolding wp_bind
    proof (rule wp_write_loop [OF iu d(1) _ d(2)])
      show "sec + secs \<le> entries (ctx_bat u) * spb u" "secs \<le> Suc secs"
        using io_in_range_blocks [OF imgD(1) [OF i] d(3) rg] ku by simp_all
      fix r :: int and dd t assume "written L u ?A sec buf r t"
      then have w: "written L s ?A sec buf r t" using written_after [of L s ?A u] altered_mono [OF au, of ?A] by auto
      then have al: "altered L s ?A t" by (simp add: written_def)
      obtain C where it: "img L t (file_of t) C" using alteredD(1) [OF al] by blast
      have "wp (vhd_write_footer (footer t)) (\<lambda>x. Q (if r \<noteq> 0 then r else x)) t"
      proof (rule wp_write_footer [OF it])
        fix x :: int and v assume v: "altered L t {} v" "x = 0 \<Longrightarrow> tail_exact L v"
        then show "Q (if r \<noteq> 0 then r else x) v"
          using w altered_trans [OF al v(1)] alteredD(3) [OF v(1)] v(2) by (intro Q) (auto simp: written_def split: if_splits)
      qed
      then show "wp (case (r, dd) of (err, direct) \<Rightarrow> if err \<noteq> 0 \<and> direct then ret err
           else do { f \<leftarrow> gets footer; r \<leftarrow> vhd_write_footer f; ret (if err \<noteq> 0 then err else r) }) Q t"
        using Q [OF w] by (cases "r = 0") (simp_all add: wp_bind wp_gets wp_ret wp_ret_fun)
    qed
  qed
  have "wp (do { has \<leftarrow> vhd_has_batmap; err \<leftarrow> (if has then vhd_get_batmap else ret 0);
     if err \<noteq> 0 then ret err else do { (err, direct) \<leftarrow> dynamic_write_loop (Suc secs) buf sec secs;
           if err \<noteq> 0 \<and> direct then ret err
           else do { f \<leftarrow> gets footer; r \<leftarrow> vhd_write_footer f; ret (if err \<noteq> 0 then err else r) } } }) Q s"
    if rg: "io_in_range (footer s) sec secs"
  proof (cases "has_bm s")
    case True
    show ?thesis
      unfolding wp_bind [of vhd_has_batmap] wp_has_batmap [OF imgD(1) [OF i]] if_P [OF True] wp_bind [of vhd_get_batmap]
    proof (rule wp_get_batmap [OF i True])
      fix r :: int and t assume t: "moved (s\<lparr>batmap := batmap t\<rparr>) t" "bm_ok L s f B (batmap t)"
      note rl = reloaded_img [OF t(1) i t(2)]
      have st: "steady L s B t" using rl by (intro steady_same [OF i])
      show "wp (if r \<noteq> 0 then ret r else do { (err, direct) \<leftarrow> dynamic_write_loop (Suc secs) buf sec secs;
           if err \<noteq> 0 \<and> direct then ret err
           else do { f \<leftarrow> gets footer; r \<leftarrow> vhd_write_footer f; ret (if err \<noteq> 0 then err else r) } }) Q t"
        using loop [OF st rg] Q0 [OF st] by (cases "r = 0") (simp_all add: wp_ret)
    qed
  next
    case False
    then show ?thesis using loop [OF steady_refl [OF i] rg]
      by (simp add: wp_bind [of vhd_has_batmap] wp_has_batmap [OF imgD(1) [OF i]] del: dynamic_write_loop.simps)
  qed
  then show ?thesis
    using Q0 [OF steady_refl [OF i]]
    by (simp add: vhd_io_dynamic_write_def wp_bind [of State_Monad.get] wp_get wp_bind [of vhd_get_bat] wp_get_bat [OF i] wp_ret del: dynamic_write_loop.simps)
qed

lemma wp_io_write:
  assumes "img L s f B" "length buf = secs * 512" "0 < secs" "sec + secs < 36028797018963968"
    and Q: "\<And>r t. written L s {sec ..< sec + secs} sec buf r t \<Longrightarrow> (r = 0 \<Longrightarrow> tail_exact L t) \<Longrightarrow> Q r t"
  shows "wp (vhd_io_write buf sec secs) Q s"
proof -
  have "Q (- ERANGE) s"
    using altered_mono [OF altered_steady [OF assms(1) steady_refl [OF assms(1)]], of "{sec ..< sec + secs}"] by (intro Q) (simp_all add: written_def)
  then show ?thesis
    using wp_dynamic_write [OF assms(1-4) Q] imgD(7) [OF assms(1)] by (simp add: vhd_io_write_def wp_bind wp_get wp_ret)
qed

end
