(* ===== verification/Vhd_Io_Read.thy ===== *)
theory Vhd_Io_Read
  imports Vhd_Io_Write
begin

text \<open>Reading sectors of a dynamic image: what one image of a chain contributes to the buffer, and
  \<^verbatim>\<open>vhd_io_read\<close>.\<close>

subsection \<open>Merging sectors into a buffer\<close>

definition sec_at :: "byte list \<Rightarrow> nat \<Rightarrow> byte list" where
  "sec_at buf i = buf_get buf (i * 512) 512"

text \<open>The sectors \<open>o ..< o + n\<close> that the map does not have yet are taken from \<open>src\<close> where it has one;
  nothing else changes.\<close>

definition merged :: "(nat \<Rightarrow> byte list option) \<Rightarrow> nat \<Rightarrow> nat \<Rightarrow> byte list \<times> byte list \<Rightarrow> byte list \<times> byte list \<Rightarrow> bool" where
  "merged src k n a b \<longleftrightarrow> length (fst b) = length (fst a) \<and> length (snd b) = length (snd a) \<and>
     (\<forall>i. if k \<le> i \<and> i < k + n \<and> \<not> test_bit (fst a) i \<and> src i \<noteq> None
          then test_bit (fst b) i \<and> Some (sec_at (snd b) i) = src i
          else test_bit (fst b) i = test_bit (fst a) i \<and> sec_at (snd b) i = sec_at (snd a) i)"

lemma merged_nothing: "(\<And>i. k \<le> i \<Longrightarrow> i < k + n \<Longrightarrow> src i = None) \<Longrightarrow> merged src k n a a"
  by (auto simp: merged_def)

lemma merged_append:
  assumes "merged src k n a b" "merged src (k + n) m b c"
  shows "merged src k (n + m) a c"
proof -
  have "if k \<le> i \<and> i < k + (n + m) \<and> \<not> test_bit (fst a) i \<and> src i \<noteq> None
          then test_bit (fst c) i \<and> Some (sec_at (snd c) i) = src i
          else test_bit (fst c) i = test_bit (fst a) i \<and> sec_at (snd c) i = sec_at (snd a) i" for i
  proof -
    have 1: "if k \<le> i \<and> i < k + n \<and> \<not> test_bit (fst a) i \<and> src i \<noteq> None
          then test_bit (fst b) i \<and> Some (sec_at (snd b) i) = src i
          else test_bit (fst b) i = test_bit (fst a) i \<and> sec_at (snd b) i = sec_at (snd a) i"
      using assms(1) unfolding merged_def by blast
    have 2: "if k + n \<le> i \<and> i < k + n + m \<and> \<not> test_bit (fst b) i \<and> src i \<noteq> None
          then test_bit (fst c) i \<and> Some (sec_at (snd c) i) = src i
          else test_bit (fst c) i = test_bit (fst b) i \<and> sec_at (snd c) i = sec_at (snd b) i"
      using assms(2) unfolding merged_def by blast
    show ?thesis using 1 2 by (auto split: if_splits)
  qed
  then show ?thesis using assms by (simp add: merged_def)
qed

lemma sec_at_put:
  assumes "length d = 512" "(i + 1) * 512 \<le> length buf"
  shows "sec_at (buf_put buf (i * 512) d) j = (if j = i then d else sec_at buf j)"
proof -
  have "j < i \<or> j = i \<or> i < j" by linarith
  then show ?thesis
  proof (elim disjE)
    assume "j < i"
    then have "j * 512 + 512 \<le> i * 512" by simp
    then show ?thesis using assms by (auto simp: sec_at_def buf_get_def buf_put_def drop_take min_def)
  next
    assume "i < j"
    then have "i * 512 + 512 \<le> j * 512" by simp
    then show ?thesis using assms by (auto simp: sec_at_def buf_get_def buf_put_def)
  qed (use assms in \<open>simp add: sec_at_def buf_get_def buf_put_def\<close>)
qed

lemma merged_copy:
  assumes "k + n \<le> 8 * length mp" "(k + n) * 512 \<le> length dst" "n * 512 \<le> length src"
  shows "merged (\<lambda>i. if want (i - k) then Some (sec_at src (i - k)) else None) k n (mp, dst)
    (dynamic_copy_data want mp k dst (k * 512) src n)"
  using assms
proof (induction n)
  case 0
  show ?case by (simp add: dynamic_copy_data_def merged_def)
next
  case (Suc n)
  let ?s = "\<lambda>i. if want (i - k) then Some (sec_at src (i - k)) else None"
  obtain mp' dst' where r: "dynamic_copy_data want mp k dst (k * 512) src n = (mp', dst')" by force
  have m: "merged ?s k n (mp, dst) (mp', dst')" using Suc r by simp
  then have len: "length mp' = length mp" "length dst' = length dst" by (simp_all add: merged_def)
  have "merged ?s (k + n) 1 (mp', dst') (dynamic_copy_data want mp k dst (k * 512) src (Suc n))"
  proof -
    have step: "dynamic_copy_data want mp k dst (k * 512) src (Suc n) =
        (if test_bit mp' (k + n) \<or> \<not> want n then (mp', dst')
         else (set_bit mp' (k + n), buf_put dst' ((k + n) * 512) (sec_at src n)))"
      using r by (simp add: dynamic_copy_data_def sec_at_def add_mult_distrib)
    have d: "length (sec_at src n) = 512" using Suc.prems(3) by (simp add: sec_at_def buf_get_def)
    have b: "(k + n + 1) * 512 \<le> length dst'" using Suc.prems(2) len by simp
    have "test_bit (set_bit mp' (k + n)) i \<longleftrightarrow> i = k + n \<or> test_bit mp' i" for i
      using Suc.prems(1) len by (simp add: test_set_bit)
    with sec_at_put [OF d b] d b show ?thesis
      unfolding step by (auto simp: merged_def length_buf_put less_Suc_eq)
  qed
  with m show ?case using merged_append by fastforce
qed

subsection \<open>Blocks\<close>

lemma tail_ok_img: "img L s f B \<Longrightarrow> tail_ok L s \<longleftrightarrow> blocks_end L s B * 512 + 512 \<le> fsize f"
  using imgD(4) [of L s f B] file_of_img [of L s f B] by (simp add: tail_ok_def)

lemma moved_sector: "img L s f B \<Longrightarrow> moved s t \<Longrightarrow> sector_of t k = sector_of s k"
  using steady_sector [of L s f B t k] steady_moved by blast

lemma moved_tail:
  assumes "img L s f B" "moved s t"
  shows "tail_ok L t = tail_ok L s"
  using tail_ok_steady [OF assms(1) steady_moved [OF assms]] tail_ok_img [OF assms(1)] file_of_img [OF moved_img [OF assms(2,1)]] by simp

text \<open>After a failed write the file may end inside a block.  \<open>stubs\<close> says that such blocks hold sectors of
  a given set only; reading one may run the process into an access outside its buffer.\<close>

definition whole :: "vhd_context \<Rightarrow> bool" where
  "whole s \<longleftrightarrow> (\<forall>blk < entries (ctx_bat s). the (bat (ctx_bat s)) ! blk \<noteq> DD_BLK_UNUSED \<longrightarrow>
     blk_fits (spb s) (file_of s) (the (bat (ctx_bat s)) ! blk))"

definition stubs :: "vhd_context \<Rightarrow> nat set \<Rightarrow> bool" where
  "stubs s X \<longleftrightarrow> (\<forall>blk < entries (ctx_bat s). the (bat (ctx_bat s)) ! blk \<noteq> DD_BLK_UNUSED \<longrightarrow>
     blk_fits (spb s) (file_of s) (the (bat (ctx_bat s)) ! blk) \<or>
     (\<forall>k. k div spb s = blk \<longrightarrow> k \<notin> X \<longrightarrow> sector_of s k = None))"

lemma tail_whole: "img L s f B \<Longrightarrow> tail_ok L s \<Longrightarrow> whole s"
  using tail_ok_img [of L s f B] block_le_end [of L s f B] imgD(4) [of L s f B] file_of_img [of L s f B]
  by (fastforce simp: whole_def blk_fits_def)

lemma whole_stubs: "whole s \<Longrightarrow> stubs s X"
  by (simp add: whole_def stubs_def)

lemma moved_stubs:
  assumes "img L s f B" "moved s t"
  shows "whole t = whole s" "stubs t X = stubs s X"
  using movedD [OF assms(2)] kept_static(9) [OF movedD(1) [OF assms(2)]] moved_sector [OF assms]
  by (simp_all add: whole_def stubs_def file_of_def)

lemma altered_stubs:
  assumes "img L s f B" "altered L s A t" "stubs s X"
  shows "stubs t (X \<union> A)"
proof -
  note k = kept_static(8,9) [OF alteredD(2) [OF assms(2)]]
  obtain C where C: "img L t (file_of t) C" using alteredD(1) [OF assms(2)] by blast
  have B: "the (bat (ctx_bat s)) = B" "the (bat (ctx_bat t)) = C" using imgD(4) [OF assms(1)] imgD(4) [OF C] by simp_all
  have "blk_fits (spb s) (file_of t) (C ! blk) \<or> (\<forall>k. k div spb s = blk \<longrightarrow> k \<notin> X \<union> A \<longrightarrow> sector_of t k = None)"
    if blk: "blk < entries (ctx_bat s)" for blk
  proof (cases "B ! blk = DD_BLK_UNUSED")
    case True
    then have "sector_of s k = None" if "k div spb s = blk" for k
      using that by (simp add: sector_of_img [OF assms(1)] view_unset)
    then show ?thesis using alteredD(3) [OF assms(2)] by simp
  next
    case False
    then have "C ! blk = B ! blk" "blk_fits (spb s) (file_of s) (B ! blk) \<Longrightarrow> blk_fits (spb s) (file_of t) (B ! blk)"
      using alteredD(4) [OF assms(2)] blk by (auto simp: lasting_def B)
    with False assms(3) blk alteredD(3) [OF assms(2)] show ?thesis by (auto simp: stubs_def B)
  qed
  then show ?thesis by (simp add: stubs_def k B)
qed

lemma wp_read_at:
  assumes i: "img L s f B" and b: "blk < entries (ctx_bat s)" "B ! blk \<noteq> DD_BLK_UNUSED"
    and buf: "length buf = spb s * 512"
    and Q: "\<And>r d t. moved s t \<Longrightarrow> (r = 0 \<Longrightarrow> length d = spb s * 512 \<and>
        (blk_fits (spb s) f (B ! blk) \<longrightarrow> d = fread f ((unat (B ! blk) + 1) * 512) (spb s * 512))) \<Longrightarrow> Q (r, d) t"
      "\<And>r d t. \<not> blk_fits (spb s) f (B ! blk) \<Longrightarrow> panicked t \<Longrightarrow> r \<noteq> 0 \<Longrightarrow> Q (r, d) t"
  shows "wp (vhd_read_at blk 0 (spb s * 512) buf) Q s"
proof -
  note g = imgD(1) [OF i]
  define off where "off = (unat (B ! blk) + 1) * 512"
  have len: "vhd_sectors_to_bytes 0 = 0" "vhd_sectors_to_bytes (unat (B ! blk) + bm_secs s) = off" "unat (block_size (header s)) = spb s * 512"
    using geomD(2,3,14) [OF g] block_at(2) [OF i b] by (simp_all add: off_def)
  have fit: "blk_fits (spb s) f (B ! blk) \<longleftrightarrow> off + spb s * 512 + 512 \<le> fsize f" by (simp add: off_def blk_fits_def)
  have small: "off < 9223372036854775808" using block_at(2) [OF i b] by (simp add: off_def)
  have n512: "nat (int (spb s) * 512) = spb s * 512" by (simp add: nat_mult_distrib)
  have put: "length (buf_put buf m (replicate (spb s * 512 - m) (0 :: byte))) = spb s * 512" if "m \<le> spb s * 512" for m
    using that buf by (simp add: length_buf_put)
  have ne: "buf_put buf m (replicate (spb s * 512 - m) (0 :: byte)) \<noteq> []" if "m \<le> spb s * 512" for m
    using put [OF that] geomD(1) [OF g] by auto
  show ?thesis
  proof (cases "off + spb s * 512 + 512 \<le> fsize f")
    case True
    then show ?thesis
      unfolding vhd_read_at_def vhd_footer_offset_at_eof_def vhd_position_def
      using imgD [OF i] block_at(1) [OF i b] b small buf
      by (auto simp: wp_simps Let_def wp_get_bat [OF i] len n512 fit off_def [symmetric] split: if_splits
          intro!: wp_seek_end [of _ f] wp_seek_set [of _ f] wp_vhd_read [of _ f] Q(1) [unfolded fit, folded off_def])
  next
    case False
    note Q1 = Q(1) [unfolded fit, folded off_def, simplified False, simplified]
    have Q2: "Q (r, d) (t\<lparr>panicked := True\<rparr>)" if "r \<noteq> 0" for r d t using Q(2) False fit that by simp
    have short: "int (fsize f) - 512 < int off + int (spb s * 512)" using False by linarith
    have m: "nat (int (fsize f) - 512 - int off) \<le> spb s * 512" using False by linarith
    show ?thesis
    proof (cases "int (fsize f) - 512 < int off")
      case True
      then show ?thesis
        unfolding vhd_read_at_def vhd_footer_offset_at_eof_def vhd_position_def
        using imgD [OF i] block_at(1) [OF i b] b buf
        by (auto simp: wp_simps Let_def wp_get_bat [OF i] len short [simplified] split: if_splits intro!: wp_seek_end [of _ f] Q1 Q2)
    next
      case False
      with m show ?thesis
        unfolding vhd_read_at_def vhd_footer_offset_at_eof_def vhd_position_def
        using imgD [OF i] block_at(1) [OF i b] b small buf
        by (auto simp: wp_simps Let_def wp_get_bat [OF i] len short [simplified] put ne split: if_splits
            intro!: wp_seek_end [of _ f] wp_seek_set [of _ f] wp_vhd_read [of _ f] Q1)
    qed
  qed
qed

lemma wp_read_block:
  assumes i: "img L s f B" and b: "blk < entries (ctx_bat s)" "B ! blk \<noteq> DD_BLK_UNUSED"
    and Q: "\<And>r t. moved s t \<Longrightarrow> r \<noteq> 0 \<Longrightarrow> Q (r, None) t"
      "\<And>d t. moved s t \<Longrightarrow> length d = spb s * 512 \<Longrightarrow>
        (blk_fits (spb s) f (B ! blk) \<Longrightarrow> d = fread f ((unat (B ! blk) + 1) * 512) (spb s * 512)) \<Longrightarrow> Q (0, Some d) t"
      "\<And>r t. \<not> blk_fits (spb s) f (B ! blk) \<Longrightarrow> panicked t \<Longrightarrow> r \<noteq> 0 \<Longrightarrow> Q (r, None) t"
  shows "wp (vhd_read_block blk) Q s"
proof -
  have len: "vhd_sectors_to_bytes (spb s) = spb s * 512" using geomD(2) [OF imgD(1) [OF i]] by simp
  have at: "wp (vhd_read_at blk 0 (spb s * 512) (replicate (spb s * 512) 0))
      (\<lambda>x. wp (case x of (err, buf) \<Rightarrow> if err \<noteq> 0 then ret (err, None) else ret (0, Some buf)) Q) u" if u: "moved s u" for u
  proof -
    note m = movedD [OF u] and iu = moved_img [OF u i]
    have "wp (vhd_read_at blk 0 (spb u * 512) (replicate (spb u * 512) 0))
      (\<lambda>x. wp (case x of (err, buf) \<Rightarrow> if err \<noteq> 0 then ret (err, None) else ret (0, Some buf)) Q) u"
      by (rule wp_read_at [OF iu _ b(2)])
        (use b m Q moved_trans [OF u] in \<open>auto simp: wp_ret split: if_splits\<close>)
    then show ?thesis using m by simp
  qed
  show ?thesis
    unfolding vhd_read_block_def
    using imgD [OF i] at Q(1)
    by (auto simp: wp_simps len intro!: wp_posix_memalign split: if_splits)
qed

subsection \<open>One image of a chain\<close>

lemma merged_cong: "(\<And>i. k \<le> i \<Longrightarrow> i < k + n \<Longrightarrow> src i = src' i) \<Longrightarrow> merged src k n a b = merged src' k n a b"
  unfolding merged_def by (intro conj_cong refl all_cong1) auto

lemma sec_at_block:
  assumes "sec + j < p"
  shows "sec_at (drop (sec * 512) (fread f ((unat e + 1) * 512) (p * 512))) j = blk_sec f e (sec + j)"
proof -
  have "(sec + j + 1) * 512 \<le> p * 512" using assms by (intro mult_le_mono1) simp
  then have "buf_get (fread f ((unat e + 1) * 512) (p * 512)) (sec * 512 + j * 512) 512 = fread f ((unat e + 1) * 512 + (sec * 512 + j * 512)) 512"
    by (intro buf_get_fread) simp
  then show ?thesis by (simp add: sec_at_def buf_get_def blk_sec_def algebra_simps)
qed

lemma wp_read_link_block:
  assumes i: "img L s f B" "stubs s X" and b: "blk < entries (ctx_bat s)" "B ! blk \<noteq> DD_BLK_UNUSED"
    and c: "sec + cnt \<le> spb s" "k + cnt \<le> 8 * length mp" "(k + cnt) * 512 \<le> length buf"
    and Q: "\<And>r mp' buf' t. moved s t \<Longrightarrow>
      (r = 0 \<Longrightarrow> \<exists>src. (\<forall>j < cnt. blk * spb s + sec + j \<notin> X \<longrightarrow> src (k + j) = sector_of s (blk * spb s + sec + j)) \<and>
        merged src k cnt (mp, buf) (mp', buf')) \<Longrightarrow> Q (r, mp', buf') t"
      "\<And>r mp' buf' t. \<not> whole s \<Longrightarrow> panicked t \<Longrightarrow> r \<noteq> 0 \<Longrightarrow> Q (r, mp', buf') t"
  shows "wp (read_link_block blk sec cnt mp buf k) Q s"
proof -
  let ?bm = "fread f (unat (B ! blk) * 512) 512" and ?d = "fread f ((unat (B ! blk) + 1) * 512) (spb s * 512)"
  have B: "the (bat (ctx_bat s)) = B" "file_of s = f" using imgD(4) [OF i(1)] file_of_img [OF i(1)] by simp_all
  have copied: "Q (0, dynamic_copy_data (\<lambda>i. test_bit ?bm (sec + i)) mp k buf (k * 512) (drop (sec * 512) d) cnt) t"
    if t: "moved s t" and d: "length d = spb s * 512" "blk_fits (spb s) f (B ! blk) \<Longrightarrow> d = ?d" for d t
  proof -
    let ?src = "\<lambda>i. if test_bit ?bm (sec + (i - k)) then Some (sec_at (drop (sec * 512) d) (i - k)) else None"
    obtain mp' buf' where r: "dynamic_copy_data (\<lambda>i. test_bit ?bm (sec + i)) mp k buf (k * 512) (drop (sec * 512) d) cnt = (mp', buf')" by force
    have len: "cnt * 512 \<le> length (drop (sec * 512) d)" using c(1) d(1) by (simp add: diff_mult_distrib [symmetric])
    have src: "?src (k + j) = sector_of s (blk * spb s + sec + j)" if "j < cnt" "blk * spb s + sec + j \<notin> X" for j
    proof (cases "blk_fits (spb s) f (B ! blk)")
      case True
      show ?thesis
        using that c(1) sector_of_block [OF i(1) b, of "sec + j"] sec_at_block [of sec j "spb s" f "B ! blk"] d(2) [OF True]
        by (simp add: blk_bit_def add.assoc)
    next
      case False
      have "sector_of s (blk * spb s + sec + j) = None"
        using i(2) b False that block_range_sec(1) [OF c(1) that(1), of blk] by (auto simp: stubs_def B)
      with that c(1) sector_of_block [OF i(1) b, of "sec + j"] show ?thesis by (auto simp: blk_bit_def add.assoc split: if_splits)
    qed
    show ?thesis
      unfolding r by (rule Q(1) [OF t], rule exI [of _ ?src]) (use src merged_copy [OF c(2,3) len, of "\<lambda>i. test_bit ?bm (sec + i)", unfolded r] in auto)
  qed
  have blk: "wp (vhd_read_block blk) (\<lambda>x. wp (case x of (err, data) \<Rightarrow> (case data of None \<Rightarrow> ret (err, mp, buf)
           | Some d \<Rightarrow>
               (case dynamic_copy_data (\<lambda>i. test_bit ?bm (sec + i)) mp k buf (k * 512)
                       (drop (sec * 512) d) cnt of
                  (mp, buf) \<Rightarrow> ret (0, mp, buf)))) Q) u" if u: "moved s u" for u
  proof -
    note iu = moved_img [OF u i(1)] and mu = movedD [OF u]
    show ?thesis
    proof (rule wp_read_block [OF iu _ b(2)], goal_cases)
      case 1 show ?case using b(1) mu by simp
    next
      case (2 r t) then show ?case using Q(1) [OF moved_trans [OF u 2(1)], of r] by (simp add: wp_ret)
    next
      case (3 d t) then show ?case using copied [OF moved_trans [OF u 3(1)], of d] mu by (simp add: wp_ret split: prod.splits)
    next
      case (4 r t)
      then have "\<not> whole s" using b mu by (auto simp: whole_def B)
      then show ?case using Q(2) [OF _ 4(2,3)] by (simp add: wp_ret)
    qed
  qed
  show ?thesis
    unfolding read_link_block_def wp_bind
  proof (rule wp_read_bitmap [OF i(1) b], goal_cases)
    case (1 r t)
    then show ?case using Q(1) by (simp add: wp_ret)
  next
    case (2 t)
    show ?case using blk [OF 2] by (simp only: wp_bind prod.case option.case)
  qed
qed

lemma merged_join:
  assumes "merged src k n a b" "merged src' (k + n) m b c"
  shows "merged (\<lambda>i. if i < k + n then src i else src' i) k (n + m) a c"
proof (rule merged_append)
  show "merged (\<lambda>i. if i < k + n then src i else src' i) k n a b"
    by (rule iffD1 [OF merged_cong assms(1)]) simp
  show "merged (\<lambda>i. if i < k + n then src i else src' i) (k + n) m b c"
    by (rule iffD1 [OF merged_cong assms(2)]) simp
qed

text \<open>What a range contributes: outside the doubtful sectors it is what the image holds.\<close>

definition gathered :: "nat set \<Rightarrow> vhd_context \<Rightarrow> nat \<Rightarrow> nat \<Rightarrow> nat \<Rightarrow> byte list \<times> byte list \<Rightarrow> byte list \<times> byte list \<Rightarrow> bool" where
  "gathered X s sector k n a b \<longleftrightarrow> (\<exists>src. (\<forall>i < n. sector + i \<notin> X \<longrightarrow> src (k + i) = sector_of s (sector + i)) \<and> merged src k n a b)"

lemma gathered_append:
  assumes "gathered X s sector k n a b" "gathered X s (sector + n) (k + n) m b c"
  shows "gathered X s sector k (n + m) a c"
proof -
  obtain f where f: "\<And>i. i < n \<Longrightarrow> sector + i \<notin> X \<Longrightarrow> f (k + i) = sector_of s (sector + i)" "merged f k n a b"
    using assms(1) unfolding gathered_def by blast
  obtain h where h: "\<And>i. i < m \<Longrightarrow> sector + n + i \<notin> X \<Longrightarrow> h (k + n + i) = sector_of s (sector + n + i)" "merged h (k + n) m b c"
    using assms(2) unfolding gathered_def by blast
  have "(if k + i < k + n then f (k + i) else h (k + i)) = sector_of s (sector + i)" if "i < n + m" "sector + i \<notin> X" for i
  proof (cases "i < n")
    case False
    then obtain j where "i = n + j" using le_Suc_ex not_less by blast
    then show ?thesis using h(1) [of j] that by (simp add: add.assoc)
  qed (use f(1) [of i] that in simp)
  then show ?thesis
    unfolding gathered_def using merged_join [OF f(2) h(2)] by (intro exI [of _ "\<lambda>i. if i < k + n then f i else h i"] conjI allI impI)
qed

lemma gathered_moved:
  assumes "img L s f B" "moved s t"
  shows "gathered X t = gathered X s"
  by (intro ext) (simp only: gathered_def moved_sector [OF assms])

lemma gathered_len: "gathered X s sector k n (mp, buf) (mp', buf') \<Longrightarrow> length mp' = length mp \<and> length buf' = length buf"
  by (auto simp: gathered_def merged_def)

lemma wp_read_link_loop:
  assumes "img L s f B" "stubs s X" "sector + secs \<le> unat (curr_size (footer s)) div 512" "0 < secs" "secs \<le> fuel"
    "k + secs \<le> 8 * length mp" "(k + secs) * 512 \<le> length buf"
    and "\<And>r mp' buf' t. moved s t \<Longrightarrow> (r = 0 \<Longrightarrow> gathered X s sector k secs (mp, buf) (mp', buf')) \<Longrightarrow> Q (r, mp', buf') t"
    and "\<And>r mp' buf' t. \<not> whole s \<Longrightarrow> panicked t \<Longrightarrow> r \<noteq> 0 \<Longrightarrow> Q (r, mp', buf') t"
  shows "wp (read_link_loop fuel mp buf sector secs k) Q s"
  using assms
proof (induction fuel arbitrary: s mp buf sector secs k Q)
  case (Suc fuel)
  note i = Suc.prems(1,2) and Q = Suc.prems(8) and P = Suc.prems(9)
  let ?p = "spb s" and ?blk = "sector div spb s" and ?sec = "sector mod spb s"
  define c where "c = min secs (spb s - sector mod spb s)"
  note g = imgD(1) [OF i(1)]
  have p: "0 < ?p" "?p \<noteq> 0" "?p \<le> 4096" using geomD(1,2) [OF g] by simp_all
  have "(sector + secs) * 512 \<le> entries (ctx_bat s) * ?p * 512"
    using Suc.prems(3) geomD(13) [OF g] by simp
  then have blk: "?blk < entries (ctx_bat s)" using Suc.prems(4) p by (simp add: div_less_iff_less_mult)
  then have u: "u32 ?blk = ?blk" using geomD(11) [OF g] by (simp add: u32_def)
  have lt: "\<not> unat (curr_size (footer s)) div 512 \<le> sector" using Suc.prems(3,4) by linarith
  have c: "0 < c" "c \<le> secs" "?sec + c \<le> ?p" using Suc.prems(4) p mod_less_divisor [OF p(1), of sector] by (auto simp: c_def)
  have e: "bat_entry s ?blk = Some (B ! ?blk)" using blk imgD(4,5) [OF i(1)] by (simp add: bat_entry_def stored_def)
  have kb: "k + c \<le> 8 * length mp" "(k + c) * 512 \<le> length buf" using Suc.prems(6,7) c(2) by (simp_all add: add_mult_distrib)
  have tail: "wp (if r \<noteq> 0 then ret (r, mp', buf') else if secs - c = 0 then ret (0, mp', buf')
       else read_link_loop fuel mp' buf' (sector + c) (secs - c) (k + c)) Q t"
    if t: "moved s t" "r = 0 \<Longrightarrow> gathered X s sector k c (mp, buf) (mp', buf')" for r mp' buf' t
  proof -
    note it = moved_img [OF t(1) i(1)] and mt = movedD [OF t(1)] and ms = moved_stubs [OF i(1) t(1)]
    have fin: "Q (r, mp', buf') t" if "r \<noteq> 0 \<or> secs - c = 0"
      using that t c(2) by (intro Q) (auto simp: le_antisym)
    have rest: "wp (read_link_loop fuel mp' buf' (sector + c) (secs - c) (k + c)) Q t" if z: "r = 0" "secs - c \<noteq> 0"
    proof (rule Suc.IH [OF it])
      have m: "gathered X s sector k c (mp, buf) (mp', buf')" using t(2) z(1) .
      note len = gathered_len [OF m]
      show "stubs t X" using ms i(2) by simp
      show "sector + c + (secs - c) \<le> unat (curr_size (footer t)) div 512" using Suc.prems(3) mt c by simp
      show "0 < secs - c" "secs - c \<le> fuel" using z c Suc.prems(5) by linarith+
      show "k + c + (secs - c) \<le> 8 * length mp'" "(k + c + (secs - c)) * 512 \<le> length buf'" using Suc.prems(6,7) len c by simp_all
      show "Q (r', mp2, buf2) v"
        if v: "moved t v" "r' = 0 \<Longrightarrow> gathered X t (sector + c) (k + c) (secs - c) (mp', buf') (mp2, buf2)" for r' mp2 buf2 v
        by (rule Q [OF moved_trans [OF t(1) v(1)]])
          (use gathered_append [OF m v(2) [unfolded gathered_moved [OF i(1) t(1)]]] c(2) in simp)
      show "Q (r', mp2, buf2) v" if "\<not> whole t" "panicked v" "r' \<noteq> 0" for r' mp2 buf2 v
        using P that ms by simp
    qed
    show ?thesis using fin rest by (cases "r = 0"; cases "secs - c = 0") (simp_all only: wp_ret simp_thms if_True if_False)
  qed
  show ?case
  proof (cases "B ! ?blk = DD_BLK_UNUSED")
    case True
    have "sector_of s (sector + j) = None" if "j < c" for j
      using that c True block_range_sec(1) [of ?sec c ?p j ?blk] by (simp add: sector_of_img [OF i(1)] view_unset)
    then have "gathered X s sector k c (mp, buf) (mp, buf)"
      unfolding gathered_def by (intro exI [of _ "\<lambda>_. None"]) (simp add: merged_nothing)
    with tail [of s 0 mp buf] show ?thesis
      unfolding read_link_loop.simps wp_bind wp_get Let_def u c_def [symmetric] if_not_P [OF p(2)] if_not_P [OF lt] e option.case if_P [OF True]
      by (simp add: wp_ret)
  next
    case False
    show ?thesis
      unfolding read_link_loop.simps wp_bind wp_get Let_def u c_def [symmetric] if_not_P [OF p(2)] if_not_P [OF lt] e option.case if_not_P [OF False]
      by (rule wp_read_link_block [OF i blk False c(3) kb]) (use tail P in \<open>simp_all add: gathered_def wp_ret\<close>)
  qed
qed simp

subsection \<open>Reading a range of sectors\<close>

text \<open>What a reader sees of the image itself: sectors it does not hold are zero.\<close>

definition seen :: "vhd_context \<Rightarrow> nat \<Rightarrow> byte list" where
  "seen s k = (case sector_of s k of None \<Rightarrow> replicate 512 0 | Some d \<Rightarrow> d)"

definition complete :: "vhd_context \<Rightarrow> nat \<Rightarrow> nat \<Rightarrow> bool" where
  "complete s sec secs \<longleftrightarrow> ftr_type (footer s) \<noteq> HD_TYPE_DIFF \<or> (\<forall>i < secs. sector_of s (sec + i) \<noteq> None)"

lemma sec_at_zero: "i < n \<Longrightarrow> sec_at (replicate (n * 512) 0) i = replicate 512 0"
proof -
  assume "i < n"
  then have "(i + 1) * 512 \<le> n * 512" by (intro mult_le_mono1) simp
  then show "sec_at (replicate (n * 512) 0) i = replicate 512 0" by (simp add: sec_at_def buf_get_def)
qed

lemma gathered_seen:
  assumes m: "gathered X s sec 0 secs (replicate l 0, replicate (secs * 512) 0) (mp, buf)"
  shows "length buf = secs * 512" "i < secs \<Longrightarrow> sec + i \<notin> X \<Longrightarrow> sec_at buf i = seen s (sec + i)"
    "i < secs \<Longrightarrow> sec + i \<notin> X \<Longrightarrow> test_bit mp i \<longleftrightarrow> sector_of s (sec + i) \<noteq> None"
proof -
  obtain src where src: "\<And>i. i < secs \<Longrightarrow> sec + i \<notin> X \<Longrightarrow> src i = sector_of s (sec + i)"
    and g: "merged src 0 secs (replicate l 0, replicate (secs * 512) 0) (mp, buf)" using m by (auto simp: gathered_def)
  show "length buf = secs * 512" using g by (simp add: merged_def)
  assume i: "i < secs" "sec + i \<notin> X"
  then have "if sector_of s (sec + i) \<noteq> None then test_bit mp i \<and> Some (sec_at buf i) = sector_of s (sec + i)
      else \<not> test_bit mp i \<and> sec_at buf i = replicate 512 0"
    using g sec_at_zero [of i secs] src [OF i] unfolding merged_def by (auto split: if_splits dest!: spec [of _ i])
  then show "sec_at buf i = seen s (sec + i)" "test_bit mp i \<longleftrightarrow> sector_of s (sec + i) \<noteq> None"
    unfolding seen_def by (auto split: if_splits option.splits)
qed

text \<open>A read when sectors of a set are in doubt; it can only go wrong when some block does not fit into the file.\<close>

lemma wp_io_read_doubt:
  assumes i: "img L s f B" "stubs s X" and d: "length buf = secs * 512" "0 < secs" "secs < 67108864" "sec + secs < 36028797018963968"
    and c: "ftr_type (footer s) \<noteq> HD_TYPE_DIFF \<or> (\<forall>i < secs. sec + i \<notin> X \<and> sector_of s (sec + i) \<noteq> None)" and fuel: "0 < fuel"
    and Q: "\<And>r b t. moved s t \<Longrightarrow>
        (r = 0 \<Longrightarrow> length b = secs * 512 \<and> (\<forall>i < secs. sec + i \<notin> X \<longrightarrow> sec_at b i = seen s (sec + i))) \<Longrightarrow> Q (Some (r, b)) t"
      "\<And>r b t. \<not> whole s \<Longrightarrow> panicked t \<Longrightarrow> r \<noteq> 0 \<Longrightarrow> Q (Some (r, b)) t"
  shows "wp (vhd_io_read fuel buf sec secs) Q s"
proof -
  have u: "u32 (secs * 64) = secs * 64" "vhd_sectors_to_bytes secs = secs * 512" using d by (simp_all add: u32_def)
  have bufz: "replicate (secs * 512) 0 @ drop (secs * 512) buf = replicate (secs * 512) 0" using d(1) by simp
  obtain fl where fl: "fuel = Suc fl" using fuel gr0_implies_Suc by blast
  have loop: "wp (dynamic_read_loop fuel None (replicate (secs * 64) 0) (replicate (secs * 512) 0) sec secs) Q v"
    if v: "moved s v" and rg: "(sec + secs) * 512 \<le> unat (curr_size (footer s))" for v
  proof -
    note iv = moved_img [OF v i(1)] and mv = movedD [OF v] and ms = moved_stubs [OF i(1) v]
    show ?thesis
      unfolding fl dynamic_read_loop.simps on_ctx_def option.case vhd_io_dynamic_read_link_def wp_bind
    proof (rule wp_read_link_loop [OF iv, of X], goal_cases)
      case 1 show ?case using ms i(2) by simp
    next
      case 2 show ?case using rg mv by simp
    next
      case (7 r mp' buf' t)
      note mt = moved_trans [OF v 7(1)]
      have gs: "r = 0 \<Longrightarrow> gathered X s sec 0 secs (replicate (secs * 64) 0, replicate (secs * 512) 0) (mp', buf')"
        using 7(2) gathered_moved [OF i(1) v] by simp
      have ok: "Q (Some (r, buf')) t"
        by (rule Q(1) [OF mt]) (use gathered_seen [OF gs] in blast)
      have "ftr_type (footer t) \<noteq> HD_TYPE_DIFF" if "r = 0" "\<not> list_all (test_bit mp') [0..<secs]"
        using that gathered_seen(3) [OF gs] c movedD(9) [OF mt] by (auto simp: list_all_iff)
      with ok show ?case by (auto simp: wp_simps)
    next
      case (8 r mp' buf' t)
      then show ?case using Q(2) ms by (simp add: wp_simps)
    qed (use d in simp_all)
  qed
  have er: "Q (Some (r, b)) t" if "moved s t" "r \<noteq> 0" for r b t using Q(1) that by blast
  show ?thesis
    unfolding vhd_io_read_def vhd_io_dynamic_read_def u bufz
    using imgD(7) [OF i(1)] er loop io_in_range_small [OF d(4), of s]
    by (auto simp: wp_simps wp_get_bat [OF i(1)] intro!: wp_posix_memalign)
qed

lemma wp_io_read:
  assumes i: "img L s f B" "tail_ok L s" and d: "length buf = secs * 512" "0 < secs" "secs < 67108864" "sec + secs < 36028797018963968"
    and c: "complete s sec secs" and fuel: "0 < fuel"
    and Q: "\<And>r b t. moved s t \<Longrightarrow> (r = 0 \<Longrightarrow> length b = secs * 512 \<and> (\<forall>i < secs. sec_at b i = seen s (sec + i))) \<Longrightarrow> Q (Some (r, b)) t"
  shows "wp (vhd_io_read fuel buf sec secs) Q s"
  by (rule wp_io_read_doubt [OF i(1) whole_stubs [OF tail_whole [OF i]] d _ fuel, of "{}"])
     (use c Q tail_whole [OF i] in \<open>simp_all add: complete_def\<close>)

end
