(* ===== verification/Vhd_Io_Live.thy ===== *)
theory Vhd_Io_Live
  imports Vhd_Io_Read
begin

text \<open>Without faults the writes of an image that has no batmap succeed.  The state facts between the
  steps come from the contracts that hold under any faults.\<close>

text \<open>No fault is pending, the image is a file and has no batmap.\<close>

definition plain :: "vhd_context \<Rightarrow> bool" where
  "plain s \<longleftrightarrow> faults s = [] \<and> \<not> is_block s \<and> \<not> has_bm s"

lemma plain_kept: "plain s \<Longrightarrow> kept s t \<Longrightarrow> faults t = [] \<Longrightarrow> plain t"
  using kept_static [of s t] by (simp add: plain_def)

lemma plain_file: "plain s \<Longrightarrow> img L s f B \<Longrightarrow> \<not> fblk f"
  using imgD(5) [of L s f B] by (simp add: plain_def stored_def)

lemma live_end_of_data:
  assumes i: "img L s f B" and p: "plain s"
  shows "wp vhd_end_of_data (\<lambda>(r, v) t. r = 0 \<and> t = s) s"
  using imgD [OF i] p
  by (auto simp: vhd_end_of_data_def vhd_end_of_headers_def wp_simps Let_def wp_has_batmap plain_def wp_get_bat [OF i])

lemma bytes_of_eq_Nil [simp]: "bytes_of ws = [] \<longleftrightarrow> ws = []"
  using length_bytes_of [of ws] by (metis length_0_conv mult_eq_0_iff zero_neq_numeral)

lemma live_write_bat:
  assumes g: "geom L s" "\<not> panicked s" "cur_file s = Some f" "bat (ctx_bat s) = Some B" "\<not> fblk f" "faults s = []"
    and len: "vhd_bytes_padded (entries (ctx_bat s) * 4) \<le> 4 * length B"
  shows "wp (vhd_write_bat (ctx_bat s)) (\<lambda>r t. r = 0 \<and> faults t = []) s"
proof -
  have off: "int (tbl s) < 9223372036854775808" using geomD(7,8) [OF g(1)] by simp
  have "0 < length (take (vhd_bytes_padded (entries (ctx_bat s) * 4)) (bytes_of (vhd_bat_out (entries (ctx_bat s)) B)))"
    using len by (simp add: vhd_bytes_padded_eq vhd_bat_out_def)
  then show ?thesis
    using g len off geomD(5) [OF g(1)]
    by (simp add: vhd_write_bat_def wp_simps wp_ok Let_def vhd_validate_bat_def tbl_off [OF g(1)])
qed

text \<open>What the writers of metadata need of a state.\<close>

definition ready :: "img_layout \<Rightarrow> vhd_context \<Rightarrow> bool" where
  "ready L s \<longleftrightarrow> geom L s \<and> \<not> panicked s \<and> faults s = [] \<and> (\<exists>f. cur_file s = Some f \<and> \<not> fblk f) \<and>
     (\<exists>B. bat (ctx_bat s) = Some B \<and> entries (ctx_bat s) \<le> length B \<and> vhd_bytes_padded (entries (ctx_bat s) * 4) \<le> 4 * length B)"

lemma ready_img: "img L s f B \<Longrightarrow> plain s \<Longrightarrow> ready L s"
  using imgD [of L s f B] plain_file [of s L f B] by (simp add: ready_def plain_def stored_def)

lemma ready_put:
  assumes "ready L s" "cur_file s = Some f"
  shows "ready L (put_file (fwrite f off buf) s\<lparr>offset := k\<rparr>)"
proof -
  have k: "kept s (put_file (fwrite f off buf) s\<lparr>offset := k\<rparr>)" by simp
  show ?thesis using assms kept_static [OF k] by (auto simp: ready_def cur_file_put_file [OF assms(2)])
qed

lemma live_set_entry:
  assumes r: "ready L s" and b: "blk < entries (ctx_bat s)"
  shows "wp (set_entry blk e) (\<lambda>r t. r = 0 \<and> faults t = []) s"
proof -
  from r obtain f B where f: "cur_file s = Some f" "\<not> fblk f"
    and B: "bat (ctx_bat s) = Some B" "entries (ctx_bat s) \<le> length B" "vhd_bytes_padded (entries (ctx_bat s) * 4) \<le> 4 * length B"
    by (auto simp: ready_def)
  let ?s = "s\<lparr>ctx_bat := (ctx_bat s)\<lparr>bat := Some (B[blk := e])\<rparr>\<rparr>"
  have k: "kept s ?s" by (simp add: kept_def)
  have "wp (vhd_write_bat (ctx_bat ?s)) (\<lambda>r t. r = 0 \<and> faults t = []) ?s"
    by (rule live_write_bat [of L ?s f "B[blk := e]"])
      (use r f B kept_static [OF k] in \<open>auto simp: ready_def\<close>)
  then show ?thesis
    using B b by (simp add: set_entry_def wp_simps)
qed

lemma live_clear_and_enter:
  assumes r: "ready L u" and b: "blk < entries (ctx_bat u)" and m: "0 < m" "m < 8589934592"
  shows "wp (do { err \<leftarrow> (if zero then do { err \<leftarrow> posix_memalign; if err \<noteq> 0 then ret (- err)
                              else vhd_write (replicate (vhd_sectors_to_bytes m) 0) } else ret 0);
                  if err \<noteq> 0 then ret err else set_entry blk e }) (\<lambda>r t. r = 0 \<and> faults t = []) u"
proof -
  from r obtain f where f: "cur_file u = Some f" "\<not> fblk f" "\<not> panicked u" "faults u = []" by (auto simp: ready_def)
  have mb: "vhd_sectors_to_bytes m = m * 512" using m(2) by simp
  have z: "replicate (m * 512) (0 :: byte) \<noteq> []" using m(1) by simp
  let ?w = "put_file (fwrite f (offset u) (replicate (m * 512) 0)) u\<lparr>offset := offset u + m * 512\<rparr>"
  have "wp (set_entry blk e) (\<lambda>r t. r = 0 \<and> faults t = []) ?w"
    by (rule live_set_entry [OF ready_put [OF r f(1)]]) (use b in simp)
  with live_set_entry [OF r b] show ?thesis
    unfolding mb using f z by (simp add: wp_simps wp_ok)
qed

lemma gap_bounds:
  assumes "0 < (n :: int)"
  shows "0 \<le> (if x mod n \<noteq> 0 then n - x mod n else 0)" "(if x mod n \<noteq> 0 then n - x mod n else 0) < n"
  using pos_mod_bound [OF assms, of x] pos_mod_sign [OF assms, of x] assms
  by (cases "x mod n = 0"; simp only: simp_thms if_True if_False; linarith)+

lemma live_allocate_block:
  assumes i: "img L s f B" and p: "plain s" and b: "blk < entries (ctx_bat s)" "B ! blk = DD_BLK_UNUSED"
  shows "wp (vhd_io_allocate_block blk zero) (\<lambda>r t. r = 0 \<and> faults t = []) s"
proof -
  let ?Q = "\<lambda>r t. r = 0 \<and> faults t = []"
  define E where "E = blocks_end L s B"
  define spp where "spp = pagesize s div 512"
  define gap where "gap = (if (int E + 1) mod int spp \<noteq> 0 then int spp - (int E + 1) mod int spp else 0)"
  note g = imgD(1) [OF i]
  have spp: "0 < int spp" using geomD(12) [OF g] by (simp add: spp_def)
  have gap: "0 \<le> gap" "gap < int spp"
    unfolding gap_def by (rule gap_bounds [OF spp])+
  have lim: "E + spp + (spb s + 1) \<le> 4294967295"
    using room_alloc [OF i b] room_limit_le [of f] by (simp add: E_def spp_def)
  have eod: "wp vhd_end_of_data (\<lambda>(r, v) t. r = 0 \<and> t = s \<and> v = int (E * 512)) s"
    using wp_conjI [OF live_end_of_data [OF i p] wp_end_of_data [OF i, of "\<lambda>(r, v) t. r = 0 \<longrightarrow> v = int (E * 512)"]]
    by (rule wp_mono) (auto simp: E_def)
  have eodr: "wp vhd_end_of_data P s = P (0, int (E * 512)) s" for P
    by (rule wp_run) (use eod in \<open>auto simp: wp_def split: prod.splits\<close>)
  have rd: "ready L s" by (rule ready_img [OF i p])
  let ?u = "s\<lparr>offset := E * 512\<rparr>" and ?m = "1 + nat gap + (if vhd_flag_test (oflags s) VHD_OPEN_IO_WRITE_SPARSE then 0 else spb s)"
  have ru: "ready L ?u" using rd kept_static [of s ?u] by (simp add: ready_def)
  have fin: "wp (do { err \<leftarrow> (if zero then do { err \<leftarrow> posix_memalign; if err \<noteq> 0 then ret (- err)
                              else vhd_write (replicate (vhd_sectors_to_bytes ?m) 0) } else ret 0);
                  if err \<noteq> 0 then ret err else set_entry blk (word_of_int (int E + gap)) }) ?Q ?u"
    by (rule live_clear_and_enter [OF ru]) (use b gap lim geomD(2) [OF g] in auto)
  have seek: "wp (vhd_seek (int (E * 512)) SEEK_SET) P s = P 0 ?u" for P
    using lim wp_seek_set_ok [OF imgD(3) [OF i], of "int (E * 512)"] unfolding nat_int by simp
  have max: "\<not> 4294967295 < int E + gap" using lim gap by linarith
  have dv: "int (E * 512) div 512 = int E" "int (bm_secs s) = 1" "bm_secs s = 1" using geomD(3) [OF g] by simp_all
  show ?thesis
    unfolding vhd_io_allocate_block_def wp_bind wp_get Let_def eodr prod.case dv spp_def [symmetric] gap_def [symmetric]
    using fin max by (simp only: seek wp_bind wp_get if_False if_True simp_thms dv of_nat_1 gap_def [symmetric])
qed

lemma wp_seek_entry:
  assumes "cur_file s = Some f"
  shows "wp (vhd_seek (uint (e :: 32 word) * 512) SEEK_SET) Q s = Q 0 (s\<lparr>offset := unat e * 512\<rparr>)"
proof -
  have "uint e * 512 < 9223372036854775808" using unsigned_less [of e, where ?'a = int] by simp
  with wp_seek_set_ok [OF assms, of "uint e * 512"] show ?thesis by (simp add: nat_uint_512)
qed

lemma live_set_block_bits:
  assumes i: "img L s f B" and p: "plain s" and b: "blk < entries (ctx_bat s)" "B ! blk \<noteq> DD_BLK_UNUSED"
    and sz: "(unat (B ! blk) + 1) * 512 \<le> fsize f" and c: "sec + cnt \<le> spb s"
  shows "wp (set_block_bits blk sec cnt) (\<lambda>(r, d) t. r = 0 \<and> faults t = []) s"
proof -
  note g = imgD(1) [OF i] and at = block_at [OF i b]
  have fl: "faults s = []" "\<not> fblk f" "\<not> has_bm s" using p plain_file [OF p i] by (simp_all add: plain_def)
  have rd: "wp (vhd_read_bitmap blk) P s = P (0, Some (fread f (unat (B ! blk) * 512) 512)) (s\<lparr>offset := unat (B ! blk) * 512 + 512\<rparr>)" for P
    using imgD [OF i] at b fl sz
    by (simp add: vhd_read_bitmap_def wp_simps wp_ok wp_seek_entry wp_get_bat [OF i] bitmap_size nat_uint_512 dev_end_def)
  let ?s = "s\<lparr>offset := unat (B ! blk) * 512 + 512\<rparr>"
  have wr: "wp (vhd_write_bitmap blk True m) (\<lambda>r t. r = 0 \<and> faults t = []) ?s" if "length m = 512" for m
  proof -
    have "bat_entry ?s blk = Some (B ! blk)" using at(1) by (simp add: bat_entry_def)
    moreover have "m \<noteq> []" using that by auto
    ultimately show ?thesis
      using imgD [OF i] at(2) b fl that geomD(3) [OF g]
      by (simp add: vhd_write_bitmap_def wp_simps wp_ok wp_seek_entry vhd_validate_bat_def vhd_type_dynamic_def)
  qed
  have "wp (vhd_write_bitmap blk True m) (\<lambda>r t. r = 0 \<and> faults t = [] \<and> kept s t) ?s" if "length m = 512" for m
  proof -
    have m: "moved s ?s" by simp
    have "wp (vhd_write_bitmap blk True m) (\<lambda>r t. kept s t) ?s"
      by (rule wp_write_bitmap [OF moved_img [OF m i] _ b(2) that]) (use b imgD(3) [OF i] wroteD(1) [of ?s _ f] in \<open>auto intro: kept_trans [of s ?s]\<close>)
    from wp_conjI [OF wr [OF that] this] show ?thesis by (rule wp_mono) auto
  qed
  then have "wp (vhd_write_bitmap blk True (fold (\<lambda>i m. set_bit m (sec + i)) [0..<cnt] (fread f (unat (B ! blk) * 512) 512)))
     (\<lambda>r t. r = 0 \<and> faults t = [] \<and> kept s t) ?s" by simp
  moreover have "wp vhd_has_batmap P t = P False t" if "kept s t" for P t
    using wp_has_batmap [of L t P] kept_static [OF that] g fl(3) by simp
  ultimately show ?thesis
    unfolding set_block_bits_def
    by (auto simp: wp_bind wp_get wp_has_batmap [OF g] fl wp_ret rd Let_def wp_bind_fun elim!: wp_mono)
qed

lemma live_write_allocated:
  assumes i: "img L s f B" and p: "plain s" and b: "blk < entries (ctx_bat s)" "B ! blk \<noteq> DD_BLK_UNUSED"
    and d: "length data = cnt * 512" "sec + cnt \<le> spb s" "0 < cnt"
  shows "wp (do { err \<leftarrow> vhd_seek (int (vhd_sectors_to_bytes (unat (B ! blk) + bm_secs s + sec))) SEEK_SET;
      if err \<noteq> 0 then ret (err, True)
      else do { err \<leftarrow> vhd_write data; if err \<noteq> 0 then ret (err, True) else set_block_bits blk sec cnt } })
    (\<lambda>(r, d) t. r = 0 \<and> faults t = []) s"
proof -
  let ?o = "(unat (B ! blk) + 1 + sec) * 512"
  let ?s = "s\<lparr>offset := ?o\<rparr>"
  have i': "img L ?s f B" by (rule moved_img [OF _ i]) simp
  have so: "int (vhd_sectors_to_bytes (unat (B ! blk) + bm_secs s + sec)) = int ?o" "int ?o < 9223372036854775808"
    using block_at(2) [OF i b] geomD(2,3) [OF imgD(1) [OF i]] d(2) by (auto simp del: of_nat_mult of_nat_add)
  have sk: "wp (vhd_seek (int ?o) SEEK_SET) P s = P 0 ?s" for P
    using wp_seek_set_ok [OF imgD(3) [OF i], of "int ?o" P] so(2) unfolding nat_int by simp
  let ?t = "put_file (fwrite f ?o data) ?s\<lparr>offset := ?o + length data\<rparr>"
  have ne: "data \<noteq> []" using d by auto
  have wr: "wp (vhd_write data) P ?s = P 0 ?t" for P
    using wp_vhd_write_ok [OF imgD(3,2) [OF i'], of data P] p plain_file [OF p i] ne by (simp add: plain_def)
  have "wp (vhd_write data) (\<lambda>r t. img L t (file_of t) B \<and> kept ?s t) ?s"
    by (rule wp_block_data [OF i' _ b(2) d(1)]) (use b d in \<open>auto simp: altered_def\<close>)
  then have t: "img L ?t (file_of ?t) B" "kept ?s ?t" using wr by simp_all
  have ft: "file_of ?t = fwrite f ?o data" using file_of_put [OF imgD(3) [OF i']] by simp
  have "wp (set_block_bits blk sec cnt) (\<lambda>(r, d) t. r = 0 \<and> faults t = []) ?t"
  proof (rule live_set_block_bits [OF t(1) _ _ b(2)])
    show "plain ?t" by (rule plain_kept [OF p]) (use p in \<open>simp_all add: plain_def\<close>)
    show "blk < entries (ctx_bat ?t)" "sec + cnt \<le> spb ?t" using b d by simp_all
    show "(unat (B ! blk) + 1) * 512 \<le> fsize (file_of ?t)" unfolding ft using ne by (simp add: fsize_fwrite)
  qed
  then show ?thesis by (simp only: so(1) wp_bind sk wr simp_thms if_False)
qed

lemma live_write_one_block:
  assumes i: "img L s f B" and p: "plain s" and b: "blk < entries (ctx_bat s)"
    and d: "length data = cnt * 512" "sec + cnt \<le> spb s" "0 < cnt"
  shows "wp (write_one_block data blk sec cnt) (\<lambda>(r, d) t. r = 0 \<and> faults t = []) s"
proof -
  have len: "blk < length B" using imgD(5) [OF i] b by (simp add: stored_def)
  have e: "bat_entry s blk = Some (B ! blk)" using len imgD(4) [OF i] by (simp add: bat_entry_def)
  show ?thesis
  proof (cases "B ! blk = DD_BLK_UNUSED")
    case False
    with live_write_allocated [OF i p b False d] e show ?thesis
      unfolding write_one_block_def by (simp add: wp_bind wp_get wp_ret)
  next
    case True
    let ?P = "\<lambda>r t. (r = 0 \<and> faults t = []) \<and> (\<exists>C. allocated L s blk (cnt < spb s) r t C)"
    have al: "wp (vhd_io_allocate_block blk (cnt < spb s)) ?P s"
      by (rule wp_conjI [OF live_allocate_block [OF i p b True] wp_allocate_block [OF i b True]]) blast
    have "wp (vhd_io_allocate_block blk (cnt < spb s)) (\<lambda>err. wp (if err \<noteq> 0 then ret (err, True) else do {
        s \<leftarrow> State_Monad.get;
        (case bat_entry s blk of None \<Rightarrow> do { panic; ret (- EINVAL, True) }
         | Some e \<Rightarrow> do {
             err \<leftarrow> vhd_seek (int (vhd_sectors_to_bytes (unat e + bm_secs s + sec))) SEEK_SET;
             if err \<noteq> 0 then ret (err, True)
             else do { err \<leftarrow> vhd_write data; if err \<noteq> 0 then ret (err, True) else set_block_bits blk sec cnt } }) })
        (\<lambda>(r, d) t. r = 0 \<and> faults t = [])) s"
    proof (rule wp_mono [OF al], elim conjE exE)
      fix r t C assume r: "r = 0" "faults t = []" and al: "allocated L s blk (cnt < spb s) r t C"
      then have it: "img L t (file_of t) C" and k: "kept s t" and ne: "C ! blk \<noteq> DD_BLK_UNUSED" by (simp_all add: allocated_def)
      have bt: "blk < entries (ctx_bat t)" "sec + cnt \<le> spb t" using b d(2) kept_static [OF k] by simp_all
      show "wp (if r \<noteq> 0 then ret (r, True) else do {
        s \<leftarrow> State_Monad.get;
        (case bat_entry s blk of None \<Rightarrow> do { panic; ret (- EINVAL, True) }
         | Some e \<Rightarrow> do {
             err \<leftarrow> vhd_seek (int (vhd_sectors_to_bytes (unat e + bm_secs s + sec))) SEEK_SET;
             if err \<noteq> 0 then ret (err, True)
             else do { err \<leftarrow> vhd_write data; if err \<noteq> 0 then ret (err, True) else set_block_bits blk sec cnt } }) })
        (\<lambda>(r, d) t. r = 0 \<and> faults t = []) t"
        using live_write_allocated [OF it plain_kept [OF p k r(2)] bt(1) ne d(1) bt(2) d(3)] block_at(1) [OF it bt(1) ne] r(1)
        by (simp add: wp_bind wp_get)
    qed
    then show ?thesis
      unfolding write_one_block_def wp_bind wp_get e option.case if_P [OF True] .
  qed
qed

lemma live_write_loop:
  assumes "img L s f B" "plain s" "length buf = secs * 512" "sector + secs \<le> entries (ctx_bat s) * spb s" "0 < secs" "secs \<le> fuel"
  shows "wp (dynamic_write_loop fuel buf sector secs) (\<lambda>(r, d) t. r = 0 \<and> faults t = []) s"
  using assms
proof (induction fuel arbitrary: s f B buf sector secs)
  case (Suc fuel)
  note i = Suc.prems(1) and p = Suc.prems(2)
  define c where "c = min secs (spb s - sector mod spb s)"
  let ?blk = "sector div spb s" and ?sec = "sector mod spb s"
  note g = imgD(1) [OF i]
  have pz: "0 < spb s" "spb s \<noteq> 0" "spb s \<le> 4096" using geomD(1,2) [OF g] by simp_all
  have blk: "?blk < entries (ctx_bat s)"
    using Suc.prems(4,5) pz by (simp add: div_less_iff_less_mult)
  then have u: "u32 ?blk = ?blk" using geomD(11) [OF g] by (simp add: u32_def)
  have c: "0 < c" "c \<le> secs" "?sec + c \<le> spb s" using Suc.prems(5) pz mod_less_divisor [OF pz(1), of sector] by (auto simp: c_def)
  have vc: "vhd_sectors_to_bytes c = c * 512" using c pz by simp
  have len: "length (take (c * 512) buf) = c * 512" using c Suc.prems(3) by (simp add: min_absorb2)
  let ?P = "\<lambda>x t. (case x of (r, d) \<Rightarrow> r = 0 \<and> faults t = []) \<and> altered L s (block_range (spb s) ?blk ?sec c) t"
  have "wp (write_one_block (take (c * 512) buf) ?blk ?sec c) (\<lambda>_. altered L s (block_range (spb s) ?blk ?sec c)) s"
    by (rule wp_write_one_block [OF i blk len c(3)]) (simp add: written_def)
  from wp_conjI [OF live_write_one_block [OF i p blk len c(3,1)] this] have "wp (write_one_block (take (c * 512) buf) ?blk ?sec c) (\<lambda>x. wp (case x of (err, direct) \<Rightarrow>
       if err \<noteq> 0 then ret (err, direct) else if secs - c = 0 then ret (0, False)
       else dynamic_write_loop fuel (drop (c * 512) buf) (sector + c) (secs - c)) (\<lambda>(r, d) t. r = 0 \<and> faults t = [])) s"
  proof (rule wp_mono, goal_cases)
    case (1 x t)
    then obtain d where x: "x = (0, d)" and fl: "faults t = []" and al: "altered L s (block_range (spb s) ?blk ?sec c) t" by auto
    note kt = kept_static [OF alteredD(2) [OF al]]
    obtain C where it: "img L t (file_of t) C" using alteredD(1) [OF al] by blast
    have "wp (dynamic_write_loop fuel (drop (c * 512) buf) (sector + c) (secs - c)) (\<lambda>(r, d) t. r = 0 \<and> faults t = []) t" if "secs - c \<noteq> 0"
      by (rule Suc.IH [OF it plain_kept [OF p alteredD(2) [OF al] fl]])
        (use Suc.prems c kt that in \<open>auto simp: diff_mult_distrib\<close>)
    then show ?case
      using x fl by (cases "secs - c = 0") (simp_all only: prod.case simp_thms if_True if_False wp_ret)
  qed
  then show ?case
    unfolding dynamic_write_loop.simps wp_bind wp_get Let_def u c_def [symmetric] vc if_not_P [OF pz(2)] .
qed simp

definition footer_ok :: "vhd_footer \<Rightarrow> bool" where
  "footer_ok h \<longleftrightarrow> footer_wf h \<and> vhd_validate_footer (h\<lparr>ftr_checksum := vhd_checksum_footer h\<rparr>) = 0"

lemma wp_write_footer_at_ok:
  assumes "footer_ok h" "cur_file s = Some f" "\<not> panicked s" "faults s = []" "\<not> fblk f" "0 \<le> off" "off < 9223372036854775808"
  shows "\<exists>g k. \<not> fblk g \<and> (\<forall>Q. wp (vhd_write_footer_at h off) Q s = Q 0 (put_file g s\<lparr>offset := k\<rparr>))"
proof -
  let ?b = "footer_bytes (vhd_footer_out (h\<lparr>ftr_checksum := vhd_checksum_footer h\<rparr>))"
  have "length ?b = 512" using assms(1) by (simp add: footer_ok_def length_footer_bytes footer_wf_def vhd_footer_out_def)
  then have ne: "?b \<noteq> []" by auto
  let ?s = "s\<lparr>offset := nat off\<rparr>"
  have "wp (vhd_write ?b) Q ?s = Q 0 (put_file (fwrite f (offset ?s) ?b) ?s\<lparr>offset := offset ?s + length ?b\<rparr>)" for Q
    by (rule wp_vhd_write_ok) (use assms ne in simp_all)
  then have "wp (vhd_write_footer_at h off) Q s = Q 0 (put_file (fwrite f (nat off) ?b) s\<lparr>offset := nat off + length ?b\<rparr>)" for Q
    using assms by (simp add: vhd_write_footer_at_def wp_simps wp_ok footer_ok_def Let_def)
  with assms(5) show ?thesis by (intro exI [of _ "fwrite f (nat off) ?b"] exI [of _ "nat off + length ?b"]) simp
qed

lemma wp_ftruncate_ok:
  "cur_file s = Some f \<Longrightarrow> \<not> panicked s \<Longrightarrow> faults s = [] \<Longrightarrow> \<not> fblk f \<Longrightarrow> wp (sys_ftruncate n) Q s = Q 0 (put_file (ftrunc f n) s)"
  by (simp add: sys_ftruncate_def wp_def pop_fault_nil)

lemma live_write_footer:
  assumes i: "img L s f B" and p: "plain s" and fo: "footer_ok (footer s)"
  shows "wp (vhd_write_footer (footer s)) (\<lambda>r t. r = 0 \<and> faults t = []) s"
proof -
  let ?E = "blocks_end L s B * 512" and ?Q = "\<lambda>r t. r = 0 \<and> faults t = []"
  have eod: "wp vhd_end_of_data P s = P (0, int ?E) s" for P
    using wp_conjI [OF live_end_of_data [OF i p] wp_end_of_data [OF i, of "\<lambda>(r, v) t. r = 0 \<longrightarrow> v = int ?E"]]
    by (auto simp: wp_def split: prod.splits)
  have lim: "int ?E < 9223372036854775808" using blocks_end_le [OF i] room_limit_le [of f] by simp
  have ctx: "cur_file s = Some f" "\<not> panicked s" "faults s = []" "\<not> fblk f" "vhd_type_dynamic s"
    using imgD [OF i] p plain_file [OF p i] by (simp_all add: plain_def)
  have fin: "wp (vhd_write_footer_at (footer s) 0) ?Q u" if u: "cur_file u = Some h" "\<not> panicked u" "faults u = []" "\<not> fblk h" for u h
  proof -
    obtain g k where "\<And>Q. wp (vhd_write_footer_at (footer s) 0) Q u = Q 0 (put_file g u\<lparr>offset := k\<rparr>)"
      using wp_write_footer_at_ok [OF fo u, of 0] by auto
    then show ?thesis using u(3) by simp
  qed
  have tr: "wp (do { err \<leftarrow> (if \<not> False then sys_ftruncate n else ret 0); if err \<noteq> 0 then ret err
       else do { dyn \<leftarrow> gets vhd_type_dynamic; if \<not> dyn then ret 0 else vhd_write_footer_at (footer s) 0 } }) ?Q (put_file g s\<lparr>offset := k\<rparr>)"
    if "\<not> fblk g" for g k n
  proof -
    let ?t = "put_file g s\<lparr>offset := k\<rparr>"
    have "cur_file ?t = Some g" by (simp add: cur_file_put_file [OF ctx(1)])
    moreover have "wp (vhd_write_footer_at (footer s) 0) ?Q (put_file (ftrunc g n) ?t)"
      by (rule fin [of _ "ftrunc g n"]) (use that ctx cur_file_put_file [OF calculation] in \<open>simp_all add: ftrunc_def\<close>)
    ultimately show ?thesis
      using that ctx by (simp add: wp_bind wp_gets wp_ftruncate_ok vhd_type_dynamic_def)
  qed
  obtain g k where g: "\<not> fblk g" "\<And>Q. wp (vhd_write_footer_at (footer s) (int ?E)) Q s = Q 0 (put_file g s\<lparr>offset := k\<rparr>)"
    using wp_write_footer_at_ok [OF fo ctx(1-4), of "int ?E"] lim by auto
  show ?thesis
    unfolding vhd_write_footer_def wp_bind wp_gets using tr [OF g(1)] p
    by (simp only: plain_def eod prod.case if_True if_False simp_thms wp_bind g(2))
qed

lemma live_io_write:
  assumes i: "img L s f B" and p: "plain s" and fo: "footer_ok (footer s)"
    and d: "length buf = secs * 512" "0 < secs" "(sec + secs) * 512 \<le> unat (curr_size (footer s))"
  shows "wp (vhd_io_write buf sec secs) (\<lambda>r t. r = 0 \<and> faults t = []) s"
proof -
  note g = imgD(1) [OF i]
  have sm: "(sec + secs) * 512 < 18446744073709551616" using d(3) unat_u64_lt [of "curr_size (footer s)"] by linarith
  then have rg: "io_in_range (footer s) sec secs" using d(3) by (simp add: io_in_range_def u64_def)
  have bl: "sec + secs \<le> entries (ctx_bat s) * spb s" by (rule io_in_range_blocks [OF g _ rg]) (use sm in simp)
  let ?P = "\<lambda>x t. (case x of (r, d) \<Rightarrow> r = 0 \<and> faults t = []) \<and> altered L s {sec ..< sec + secs} t"
  have "wp (dynamic_write_loop (Suc secs) buf sec secs) (\<lambda>_. altered L s {sec ..< sec + secs}) s"
    by (rule wp_write_loop [OF i d(1) bl d(2)]) (simp_all add: written_def)
  from wp_conjI [OF live_write_loop [OF i p d(1) bl d(2)] this]
  have "wp (dynamic_write_loop (Suc secs) buf sec secs) (\<lambda>x. wp (case x of (err, direct) \<Rightarrow>
      if err \<noteq> 0 \<and> direct then ret err
      else do { f \<leftarrow> gets footer; r \<leftarrow> vhd_write_footer f; ret (if err \<noteq> 0 then err else r) }) (\<lambda>r t. r = 0 \<and> faults t = [])) s"
  proof (rule wp_mono, goal_cases)
    case (2 x t)
    then obtain d where x: "x = (0, d)" and fl: "faults t = []" and al: "altered L s {sec ..< sec + secs} t" by auto
    note kt = kept_static [OF alteredD(2) [OF al]]
    obtain C where it: "img L t (file_of t) C" using alteredD(1) [OF al] by blast
    have "wp (vhd_write_footer (footer t)) (\<lambda>r t. r = 0 \<and> faults t = []) t"
      by (rule live_write_footer [OF it plain_kept [OF p alteredD(2) [OF al] fl]]) (use fo kt in simp)
    then show ?case using x by (simp add: wp_bind wp_gets wp_ret_fun)
  qed simp
  then show ?thesis
    using rg imgD(7) [OF i] p
    by (simp add: vhd_io_write_def vhd_io_dynamic_write_def wp_bind wp_get wp_get_bat [OF i] wp_has_batmap [OF g] plain_def wp_ret del: dynamic_write_loop.simps)
qed

subsection \<open>Reading without faults\<close>

lemma run_read_bitmap_ok:
  assumes i: "img L s f B" "faults s = []" "\<not> fblk f" and b: "blk < entries (ctx_bat s)" "B ! blk \<noteq> DD_BLK_UNUSED"
    and sz: "(unat (B ! blk) + 1) * 512 \<le> fsize f"
  shows "wp (vhd_read_bitmap blk) P s = P (0, Some (fread f (unat (B ! blk) * 512) 512)) (s\<lparr>offset := unat (B ! blk) * 512 + 512\<rparr>)"
  using imgD [OF i(1)] block_at [OF i(1) b] b i sz
  by (simp add: vhd_read_bitmap_def wp_simps wp_ok wp_seek_entry wp_get_bat [OF i(1)] bitmap_size nat_uint_512 dev_end_def)

lemma run_read_block_ok:
  assumes i: "img L s f B" "faults s = []" "\<not> fblk f" and t: "tail_ok L s" "fsize f < 9223372036854775808"
    and b: "blk < entries (ctx_bat s)" "B ! blk \<noteq> DD_BLK_UNUSED"
  shows "wp (vhd_read_block blk) (\<lambda>(r, d) t. r = 0 \<and> faults t = []) s"
proof -
  note g = imgD(1) [OF i(1)]
  define off where "off = (unat (B ! blk) + 1) * 512"
  have len: "vhd_sectors_to_bytes 0 = 0" "vhd_sectors_to_bytes (unat (B ! blk) + bm_secs s) = off" "unat (block_size (header s)) = spb s * 512"
    "vhd_sectors_to_bytes (spb s) = spb s * 512"
    using geomD(2,3,14) [OF g] block_at(2) [OF i(1) b] by (simp_all add: off_def)
  have fit: "off + spb s * 512 + 512 \<le> fsize f"
    using t(1) tail_ok_img [OF i(1)] block_le_end [OF i(1) b] by (simp add: off_def)
  have n512: "nat (int (spb s) * 512) = spb s * 512" by (simp add: nat_mult_distrib)
  have ne: "replicate (spb s * 512) (0 :: byte) \<noteq> []" using geomD(1) [OF g] by simp
  show ?thesis
    unfolding vhd_read_block_def vhd_read_at_def vhd_footer_offset_at_eof_def vhd_position_def
    using imgD [OF i(1)] block_at(1) [OF i(1) b] b fit i t ne
    by (simp add: wp_simps wp_ok Let_def wp_get_bat [OF i(1)] len n512 off_def [symmetric] dev_end_def)
qed

lemma live_read_link_block:
  assumes i: "img L s f B" "faults s = []" "\<not> fblk f" and t: "tail_ok L s" "fsize f < 9223372036854775808"
    and b: "blk < entries (ctx_bat s)" "B ! blk \<noteq> DD_BLK_UNUSED"
  shows "wp (read_link_block blk sec cnt mp buf k) (\<lambda>(r, x) t. r = 0 \<and> faults t = []) s"
proof -
  have sz: "(unat (B ! blk) + 1) * 512 \<le> fsize f"
    using t(1) tail_ok_img [OF i(1)] block_le_end [OF i(1) b] by simp
  let ?s = "s\<lparr>offset := unat (B ! blk) * 512 + 512\<rparr>"
  have m: "moved s ?s" by simp
  have a: "wp (vhd_read_block blk) (\<lambda>(r, d) t. r = 0 \<and> faults t = []) ?s"
    by (rule run_read_block_ok [OF moved_img [OF m i(1)]]) (use i t b moved_tail [OF i(1) m] in simp_all)
  have b': "wp (vhd_read_block blk) (\<lambda>(r, d) t. r = 0 \<longrightarrow> d \<noteq> None) ?s"
    by (rule wp_read_block [OF moved_img [OF m i(1)]]) (use t b tail_whole [OF i(1) t(1)] in \<open>auto simp: whole_def file_of_img [OF i(1)] imgD(4) [OF i(1)]\<close>)
  show ?thesis
    unfolding read_link_block_def wp_bind run_read_bitmap_ok [OF i b sz] prod.case option.case
    by (rule wp_mono [OF wp_conjI [OF a b']]) (auto simp: wp_ret split: prod.splits)
qed

lemma live_read_link_loop:
  assumes "img L s f B" "faults s = []" "\<not> fblk f" "tail_ok L s" "fsize f < 9223372036854775808"
    "sector + secs \<le> unat (curr_size (footer s)) div 512" "0 < secs" "secs \<le> fuel"
    "k + secs \<le> 8 * length mp" "(k + secs) * 512 \<le> length buf"
  shows "wp (read_link_loop fuel mp buf sector secs k) (\<lambda>(r, x) t. r = 0 \<and> faults t = []) s"
  using assms
proof (induction fuel arbitrary: s mp buf sector secs k)
  case (Suc fuel)
  note i = Suc.prems(1-3) and t = Suc.prems(4,5)
  let ?p = "spb s" and ?blk = "sector div spb s" and ?sec = "sector mod spb s"
  define c where "c = min secs (spb s - sector mod spb s)"
  note g = imgD(1) [OF i(1)]
  have p: "0 < ?p" "?p \<noteq> 0" "?p \<le> 4096" using geomD(1,2) [OF g] by simp_all
  have "(sector + secs) * 512 \<le> entries (ctx_bat s) * ?p * 512"
    using Suc.prems(6) geomD(13) [OF g] by simp
  then have blk: "?blk < entries (ctx_bat s)" using Suc.prems(7) p by (simp add: div_less_iff_less_mult)
  then have u: "u32 ?blk = ?blk" using geomD(11) [OF g] by (simp add: u32_def)
  have lt: "\<not> unat (curr_size (footer s)) div 512 \<le> sector" using Suc.prems(6,7) by linarith
  have c: "0 < c" "c \<le> secs" "?sec + c \<le> ?p" using Suc.prems(7) p mod_less_divisor [OF p(1), of sector] by (auto simp: c_def)
  have e: "bat_entry s ?blk = Some (B ! ?blk)" using blk imgD(4,5) [OF i(1)] by (simp add: bat_entry_def stored_def)
  have kb: "k + c \<le> 8 * length mp" "(k + c) * 512 \<le> length buf" using Suc.prems(9,10) c(2) by (simp_all add: add_mult_distrib)
  let ?R = "\<lambda>(r, x) t. r = 0 \<and> faults t = []"
  have tail: "wp (if r \<noteq> 0 then ret (r, mp', buf') else if secs - c = 0 then ret (0, mp', buf')
       else read_link_loop fuel mp' buf' (sector + c) (secs - c) (k + c)) ?R v"
    if v: "moved s v" "r = 0" "faults v = []" "length mp' = length mp" "length buf' = length buf" for r mp' buf' v
  proof -
    have "wp (read_link_loop fuel mp' buf' (sector + c) (secs - c) (k + c)) ?R v" if "secs - c \<noteq> 0"
      by (rule Suc.IH [OF moved_img [OF v(1) i(1)] v(3) i(3) _ t(2)])
        (use that Suc.prems c movedD [OF v(1)] moved_tail [OF i(1) v(1)] v in auto)
    then show ?thesis using v by (cases "secs - c = 0") (simp_all only: wp_ret simp_thms if_True if_False prod.case)
  qed
  show ?case
  proof (cases "B ! ?blk = DD_BLK_UNUSED")
    case True
    with tail [OF moved_refl refl, of mp buf] i(2) show ?thesis
      unfolding read_link_loop.simps wp_bind wp_get Let_def u c_def [symmetric] if_not_P [OF p(2)] if_not_P [OF lt] e option.case if_P [OF True]
      by (simp add: wp_ret)
  next
    case False
    have a: "wp (read_link_block ?blk ?sec c mp buf k) (\<lambda>(r, x) t. r = 0 \<and> faults t = []) s"
      by (rule live_read_link_block [OF i t blk False])
    have b: "wp (read_link_block ?blk ?sec c mp buf k) (\<lambda>(r, mp', buf') t. moved s t \<and> (r = 0 \<longrightarrow> length mp' = length mp \<and> length buf' = length buf)) s"
      by (rule wp_read_link_block [OF i(1) whole_stubs [OF tail_whole [OF i(1) t(1)]] blk False c(3) kb, of "{}"])
        (use tail_whole [OF i(1) t(1)] in \<open>auto simp: merged_def\<close>)
    show ?thesis
      unfolding read_link_loop.simps wp_bind wp_get Let_def u c_def [symmetric] if_not_P [OF p(2)] if_not_P [OF lt] e option.case if_not_P [OF False]
      by (rule wp_mono [OF wp_conjI [OF a b]]) (use tail in \<open>auto split: prod.splits\<close>)
  qed
qed simp

lemma live_io_read:
  assumes i: "img L s f B" "faults s = []" "\<not> fblk f" and t: "tail_ok L s" "fsize f < 9223372036854775808"
    and d: "length buf = secs * 512" "0 < secs" "secs < 67108864" "(sec + secs) * 512 \<le> unat (curr_size (footer s))"
    and c: "complete s sec secs" and fuel: "0 < fuel"
  shows "wp (vhd_io_read fuel buf sec secs) (\<lambda>x t. \<exists>b. x = Some (0, b) \<and> faults t = []) s"
proof -
  have sm: "(sec + secs) * 512 < 18446744073709551616" using d(4) unat_u64_lt [of "curr_size (footer s)"] by linarith
  then have rg: "io_in_range (footer s) sec secs" using d(4) by (simp add: io_in_range_def u64_def)
  have u: "u32 (secs * 64) = secs * 64" "vhd_sectors_to_bytes secs = secs * 512" using d by (simp_all add: u32_def)
  obtain fl where fl: "fuel = Suc fl" using fuel gr0_implies_Suc by blast
  let ?mp = "replicate (secs * 64) 0" and ?bf = "replicate (secs * 512) 0 :: byte list"
  have a: "wp (read_link_loop (Suc secs) ?mp ?bf sec secs 0) (\<lambda>(r, x) t. r = 0 \<and> faults t = []) s"
    by (rule live_read_link_loop [OF i t]) (use d in simp_all)
  have b: "wp (read_link_loop (Suc secs) ?mp ?bf sec secs 0) (\<lambda>(r, mp', buf') t. moved s t \<and> (r = 0 \<longrightarrow>
      gathered {} s sec 0 secs (?mp, ?bf) (mp', buf'))) s"
    by (rule wp_read_link_loop [OF i(1) whole_stubs [OF tail_whole [OF i(1) t(1)]], where X = "{}"]) (use d tail_whole [OF i(1) t(1)] in auto)
  have loop: "wp (dynamic_read_loop fuel None ?mp ?bf sec secs) (\<lambda>x t. \<exists>b. x = Some (0, b) \<and> faults t = []) s"
    unfolding fl dynamic_read_loop.simps on_ctx_def option.case vhd_io_dynamic_read_link_def wp_bind
  proof (rule wp_mono [OF wp_conjI [OF a b]], goal_cases)
    case (1 x v)
    then obtain mp' buf' where x: "x = (0, mp', buf')" and v: "faults v = []" "moved s v"
      and m: "gathered {} s sec 0 secs (?mp, ?bf) (mp', buf')" by auto
    have "ftr_type (footer v) \<noteq> HD_TYPE_DIFF" if "\<not> list_all (test_bit mp') [0..<secs]"
      using that gathered_seen(3) [OF m] c movedD(9) [OF v(2)] by (auto simp: complete_def list_all_iff)
    then show ?case using v(1) by (auto simp: x wp_simps)
  qed
  have "replicate (secs * 512) 0 @ drop (secs * 512) buf = ?bf" using d(1) by simp
  with loop show ?thesis
    unfolding vhd_io_read_def vhd_io_dynamic_read_def u
    using imgD(7) [OF i(1)] rg i(2)
    by (simp add: wp_simps wp_ok wp_get_bat [OF i(1)] del: dynamic_read_loop.simps)
qed

end
