(* ===== verification/Vhd_Image.thy ===== *)
theory Vhd_Image
  imports Vhd_Io_Live Vhd_Samples
begin

text \<open>What reading and writing sectors of a dynamic image does, for every sequence of faults.\<close>

subsection \<open>A concrete image\<close>

text \<open>A six megabyte image with a batmap, as a fresh creation lays it out: no block is allocated.\<close>

definition fresh_layout :: img_layout where
  "fresh_layout = \<lparr> l_map = 2560, l_msecs = 1, l_lo = 6 \<rparr>"

definition fresh_file :: vfile where
  "fresh_file = \<lparr> fdata = (\<lambda>i. if 2056 \<le> i \<and> i < 2068 then disk_fields fresh_layout ! (i - 2056) else 0), fsize = 3584, fblk = False \<rparr>"

definition fresh_image :: vhd_context where
  "fresh_image = blank_ctx\<lparr>files := [''/sr/a.vhd'' \<mapsto> fresh_file], fd := Some ''/sr/a.vhd'', file_name := ''/sr/a.vhd'',
     spb := 4096, bm_secs := 1, footer := sample_footer,
     header := zero_header\<lparr>table_offset := 1536, max_bat_size := 3, block_size := 0x200000\<rparr>,
     ctx_bat := \<lparr> bat_spb = 4096, entries = 3, bat = Some (replicate 128 DD_BLK_UNUSED) \<rparr>\<rparr>"

lemma fresh_sel [simp]:
  "spb fresh_image = 4096" "bm_secs fresh_image = 1" "footer fresh_image = sample_footer" "pagesize fresh_image = 4096"
  "header fresh_image = zero_header\<lparr>table_offset := 1536, max_bat_size := 3, block_size := 0x200000\<rparr>"
  "entries (ctx_bat fresh_image) = 3" "bat (ctx_bat fresh_image) = Some (replicate 128 DD_BLK_UNUSED)"
  "cur_file fresh_image = Some fresh_file" "\<not> panicked fresh_image" "\<not> is_block fresh_image" "faults fresh_image = []"
  "batmap fresh_image = zero_batmap"
  by (simp_all add: fresh_image_def blank_ctx_def cur_file_def)

lemma sample_footer_sel [simp]:
  "curr_size sample_footer = 0x600000" "ftr_type sample_footer = HD_TYPE_DYNAMIC" "ftr_data_offset sample_footer = 512"
  "crtr_ver sample_footer = VHD_VERSION 1 3" "crtr_app sample_footer = str_bytes ''tap'' @ [0]"
  by (simp_all add: sample_footer_def)

lemma le_word_replicate_0 [simp]: "le_word (replicate n 0) = 0"
  by (induction n) simp_all

lemma buf_get_replicate [simp]: "buf_get (replicate n x) i m = replicate (min m (n - i)) x"
  by (simp add: buf_get_def)

lemma zero_header_loc: "l \<in> set (loc zero_header) \<Longrightarrow> code l = PLAT_CODE_NONE"
  by (auto simp: zero_header_def bytes_header_def bytes_loc_def)

lemma fresh_has_bm: "has_bm fresh_image"
  by (simp add: has_bm_def vhd_creator_tapdisk_def str_bytes_def VHD_VERSION_def)

lemma fresh_map_size: "batmap_map_size sample_footer = 512"
  by (simp add: batmap_map_size_def secs_round_up_no_zero_eq)

lemma fresh_offsets: "tbl fresh_image = 1536" "bm_hoff fresh_image = 2048" "vhd_bytes_padded 12 = 512"
  by (simp_all add: tbl_def bm_hoff_def vhd_bytes_padded_eq secs_round_up_no_zero_eq)

lemma locators_end_none: "(\<And>l. l \<in> set ls \<Longrightarrow> code l = PLAT_CODE_NONE) \<Longrightarrow> locators_end ls e = e"
  by (induction ls) (simp_all add: locators_end_def)

lemma fresh_geom: "geom fresh_layout fresh_image"
proof -
  have "hdr_end fresh_layout fresh_image = 3072"
    unfolding hdr_end_def Let_def using locators_end_none [OF zero_header_loc]
    by (simp add: fresh_has_bm vhd_batmap_header_offset_def fresh_layout_def off_add_def to_off64_def secs_round_up_no_zero_eq vhd_bytes_padded_eq)
  then show ?thesis
    using sample_footer_wf by (simp add: geom_def fresh_has_bm fresh_offsets fresh_map_size fresh_layout_def vhd_type_dynamic_def VHD_VERSION_def)
qed

lemma data_end_fresh: "data_end lo sz (replicate n DD_BLK_UNUSED) = lo"
  by (induction n) (simp_all add: data_end_def)

lemma unused_fresh: "unused 3 (replicate 128 DD_BLK_UNUSED) = 3"
proof -
  have "{i. i < 3 \<and> replicate 128 DD_BLK_UNUSED ! i = DD_BLK_UNUSED} = {..<3::nat}" by auto
  then show ?thesis by (simp add: unused_def)
qed

lemma fresh_img: "img fresh_layout fresh_image fresh_file (replicate 128 DD_BLK_UNUSED)"
proof -
  have "fread fresh_file 2056 12 = disk_fields fresh_layout"
    by (rule nth_equalityI) (auto simp: fresh_file_def fbyte_def disk_fields_def)
  moreover have "fread fresh_file 2560 512 = replicate 512 0"
    by (rule nth_equalityI) (auto simp: fresh_file_def fbyte_def)
  moreover have "fblk fresh_file = False" by (simp add: fresh_file_def)
  ultimately have "stored fresh_layout fresh_image fresh_file (replicate 128 DD_BLK_UNUSED)"
    by (simp add: stored_def blocks_ok_def sound_def fresh_offsets fresh_map_size fresh_layout_def room_limit_def unused_fresh data_end_fresh)
  then show ?thesis
    using fresh_geom by (simp add: img_def bm_ok_def zero_batmap_def)
qed

text \<open>The same image from another creator: it has no batmap.\<close>

definition plain_layout :: img_layout where
  "plain_layout = \<lparr> l_map = 0, l_msecs = 0, l_lo = 4 \<rparr>"

definition plain_image :: vhd_context where
  "plain_image = fresh_image\<lparr>footer := sample_footer\<lparr>crtr_app := str_bytes ''win ''\<rparr>\<rparr>"

lemma plain_sel [simp]:
  "spb plain_image = 4096" "bm_secs plain_image = 1" "footer plain_image = sample_footer\<lparr>crtr_app := str_bytes ''win ''\<rparr>"
  "pagesize plain_image = 4096" "header plain_image = zero_header\<lparr>table_offset := 1536, max_bat_size := 3, block_size := 0x200000\<rparr>"
  "entries (ctx_bat plain_image) = 3" "bat (ctx_bat plain_image) = Some (replicate 128 DD_BLK_UNUSED)"
  "cur_file plain_image = Some fresh_file" "\<not> panicked plain_image" "\<not> is_block plain_image" "faults plain_image = []"
  "batmap plain_image = zero_batmap"
  by (simp_all add: plain_image_def)

lemma plain_has_bm: "\<not> has_bm plain_image"
  by (simp add: has_bm_def vhd_creator_tapdisk_def str_bytes_def)

lemma plain_img: "img plain_layout plain_image fresh_file (replicate 128 DD_BLK_UNUSED)"
proof -
  have "hdr_end plain_layout plain_image = 2048"
    unfolding hdr_end_def Let_def using locators_end_none [OF zero_header_loc]
    by (simp add: plain_has_bm off_add_def to_off64_def secs_round_up_no_zero_eq vhd_bytes_padded_eq)
  then have "geom plain_layout plain_image"
    using sample_footer_wf by (simp add: geom_def plain_has_bm plain_layout_def tbl_def vhd_type_dynamic_def fresh_offsets footer_wf_def str_bytes_def)
  moreover have "stored plain_layout plain_image fresh_file (replicate 128 DD_BLK_UNUSED)"
    by (simp add: stored_def blocks_ok_def fresh_offsets plain_layout_def room_limit_def plain_has_bm unused_fresh data_end_fresh fresh_file_def)
  ultimately show ?thesis by (simp add: img_def plain_has_bm)
qed

lemma plain_plain: "plain plain_image"
  by (simp add: plain_def plain_has_bm)

lemma plain_footer_ok: "footer_ok (footer plain_image)"
  using sample_footer_wf validate_footer_sealed [of "footer plain_image"]
  by (simp add: footer_ok_def footer_wf_def str_bytes_def sample_footer_def)

subsection \<open>Writing and reading\<close>

lemma sec_at_ext:
  assumes "length a = n * 512" "length b = n * 512" "\<And>i. i < n \<Longrightarrow> sec_at a i = sec_at b i"
  shows "a = b"
proof (rule nth_equalityI)
  fix k assume k: "k < length a"
  then have i: "k div 512 < n" using assms(1) by (simp add: div_less_iff_less_mult)
  have "a ! k = sec_at a (k div 512) ! (k mod 512)" "b ! k = sec_at b (k div 512) ! (k mod 512)"
    using k assms(1,2) by (simp_all add: sec_at_def buf_get_def)
  with assms(3) [OF i] show "a ! k = b ! k" by simp
qed (use assms in simp)

lemma written_sec_at:
  assumes "written L s A k0 buf r t" "length buf = n * 512"
  shows "r = 0 \<Longrightarrow> i < n \<Longrightarrow> sector_of t (k0 + i) = Some (sec_at buf i)"
  using assms by (simp add: written_def sec_at_def buf_get_def)

lemma tail_exact_ok: "tail_exact L s \<Longrightarrow> tail_ok L s"
  by (simp add: tail_exact_def)

lemma io_write_outcome:
  assumes "img L s f B" "length buf = secs * 512" "0 < secs" "sec + secs < 36028797018963968"
    and "run_state (vhd_io_write buf sec secs) s = (r, t)"
  shows "written L s {sec ..< sec + secs} sec buf r t" "r = 0 \<Longrightarrow> tail_exact L t"
proof -
  have "(\<lambda>r t. written L s {sec ..< sec + secs} sec buf r t \<and> (r = 0 \<longrightarrow> tail_exact L t)) r t"
    by (rule wp_runD [OF _ assms(5)], rule wp_io_write [OF assms(1-4)]) blast
  then show "written L s {sec ..< sec + secs} sec buf r t" "r = 0 \<Longrightarrow> tail_exact L t" by auto
qed

text \<open>C1: writing sectors of a dynamic image.  Whatever transfers, allocations and metadata updates
  fail or are cut short on the way, \<^verbatim>\<open>vhd_io_write\<close> leaves a well-formed image (blocks that do not
  overlap each other or the metadata, a batmap that marks full blocks only, in memory and on disk), it
  changes no sector outside the range, and when it returns zero every sector of the range is held by
  the image with the contents of the buffer and the file ends with the footer directly behind the last block.\<close>

theorem io_write_sectors:
  assumes "img L s f B" "length buf = secs * 512" "0 < secs" "sec + secs < 2 ^ 55"
    and "run_state (vhd_io_write buf sec secs) s = (r, t)"
  shows "(\<exists>C. img L t (file_of t) C) \<and> (\<forall>k. k \<notin> {sec ..< sec + secs} \<longrightarrow> sector_of t k = sector_of s k) \<and>
    (r = 0 \<longrightarrow> (\<forall>i < secs. sector_of t (sec + i) = Some (sec_at buf i)) \<and> tail_exact L t)"
proof -
  have sm: "sec + secs < 36028797018963968" using assms(4) by simp
  note w = io_write_outcome [OF assms(1-3) sm assms(5)]
  show ?thesis using w written_sec_at [OF w(1) assms(2)] by (auto simp: written_def altered_def)
qed

theorem io_write_sectors_witness:
  "\<exists>t C. run_state (vhd_io_write (replicate 512 1) 7 1) plain_image = (0, t) \<and> img plain_layout t (file_of t) C \<and>
     sector_of t 8 = sector_of plain_image 8 \<and> sector_of t 7 = Some (replicate 512 1)"
proof -
  obtain r t where rt: "run_state (vhd_io_write (replicate 512 1) 7 1) plain_image = (r, t)" by force
  have l: "length (replicate 512 (1 :: byte)) = 1 * 512" "(0::nat) < 1" "(7::nat) + 1 < 2 ^ 55" by simp_all
  have "r = 0 \<and> faults t = []"
    by (rule wp_runD [OF _ rt], rule live_io_write [OF plain_img plain_plain plain_footer_ok l(1,2)]) simp
  moreover have "sec_at (replicate 512 1) 0 = replicate 512 1" by (simp add: sec_at_def)
  ultimately show ?thesis using io_write_sectors [OF plain_img l rt] rt by auto
qed

text \<open>C4: what was written is read back.  After a successful \<^verbatim>\<open>vhd_io_write\<close>, a successful
  \<^verbatim>\<open>vhd_io_read\<close> of the same sectors returns the buffer, for any number of images that may be visited;
  the image may be a differencing one.\<close>

theorem io_read_back:
  assumes "img L s f B" "length buf = secs * 512" "0 < secs" "secs < 2 ^ 26" "sec + secs < 2 ^ 55"
    and "run_state (vhd_io_write buf sec secs) s = (0, t)"
    and "length old = secs * 512" "0 < fuel" "run_state (vhd_io_read fuel old sec secs) t = (x, u)"
  shows "\<exists>r d. x = Some (r, d) \<and> (r = 0 \<longrightarrow> d = buf)"
proof -
  have sm: "sec + secs < 36028797018963968" "secs < 67108864" using assms(4,5) by simp_all
  note w = io_write_outcome [OF assms(1-3) sm(1) assms(6)]
  then obtain C where C: "img L t (file_of t) C" by (auto simp: written_def altered_def)
  have sec: "sector_of t (sec + i) = Some (sec_at buf i)" if "i < secs" for i
    using written_sec_at [OF w(1) assms(2) refl that] .
  have "complete t sec secs" using sec by (simp add: complete_def)
  note rd = wp_io_read [OF C tail_exact_ok [OF w(2) [OF refl]] assms(7,3) sm(2,1) this assms(8)]
  show ?thesis
  proof (rule wp_runD [OF _ assms(9)], rule rd)
    fix r :: int and d v assume d: "r = 0 \<Longrightarrow> length d = secs * 512 \<and> (\<forall>i < secs. sec_at d i = seen t (sec + i))"
    have "d = buf" if "r = 0"
      by (rule sec_at_ext [of _ secs]) (use d [OF that] sec assms(2) in \<open>auto simp: seen_def\<close>)
    then show "\<exists>r' d'. Some (r, d) = Some (r', d') \<and> (r' = 0 \<longrightarrow> d' = buf)" by blast
  qed
qed

theorem io_read_back_witness:
  "\<exists>t u. run_state (vhd_io_write (replicate 512 1) 7 1) plain_image = (0, t) \<and>
     run_state (vhd_io_read 1 (replicate 512 0) 7 1) t = (Some (0, replicate 512 1), u)"
proof -
  obtain r t where rt: "run_state (vhd_io_write (replicate 512 1) 7 1) plain_image = (r, t)" by force
  obtain x u where xu: "run_state (vhd_io_read 1 (replicate 512 0) 7 1) t = (x, u)" by force
  have l: "length (replicate 512 (1 :: byte)) = 1 * 512" "(0::nat) < 1" "(1::nat) < 2 ^ 26" "(7::nat) + 1 < 2 ^ 55"
    "length (replicate 512 (0 :: byte)) = 1 * 512" by simp_all
  have r: "r = 0 \<and> faults t = []"
    by (rule wp_runD [OF _ rt], rule live_io_write [OF plain_img plain_plain plain_footer_ok l(1,2)]) simp
  with rt have rt0: "run_state (vhd_io_write (replicate 512 1) 7 1) plain_image = (0, t)" by simp
  have sm: "(7::nat) + 1 < 36028797018963968" by simp
  note w = io_write_outcome [OF plain_img l(1,2) sm rt0]
  then obtain C where C: "img plain_layout t (file_of t) C" and k: "kept plain_image t" by (auto simp: written_def altered_def)
  note ks = kept_static [OF k]
  have nb: "\<not> is_block t" "\<not> fblk (file_of t)" using ks imgD(5) [OF C] by (simp_all add: stored_def)
  have te: "tail_exact plain_layout t" using w(2) by simp
  then have sz: "fsize (file_of t) < 9223372036854775808"
    using nb(1) blocks_end_le [OF C] room_limit_le [of "file_of t"] imgD(4) [OF C] by (simp add: tail_exact_def)
  have "sector_of t (7 + 0) \<noteq> None" using written_sec_at [OF w(1) l(1)] by simp
  then have c: "complete t 7 1" by (simp add: complete_def)
  have "\<exists>b. x = Some (0, b) \<and> faults u = []"
    by (rule wp_runD [OF _ xu], rule live_io_read [OF C conjunct2 [OF r] nb(2) tail_exact_ok [OF te] sz l(5,2)]) (use c ks in simp_all)
  with io_read_back [OF plain_img l(1-4) rt0 l(5,2) xu] rt0 xu show ?thesis by auto
qed







text \<open>Beyond that the check wraps: sector \<^verbatim>\<open>2^55\<close> counts as the start of the disk.\<close>

theorem io_range_wraps: "512 \<le> unat (curr_size f) \<Longrightarrow> io_in_range f (2 ^ 55) 1"
  by (simp add: io_in_range_def vhd_sectors_to_bytes_def u64_def)

subsection \<open>A disk as a function\<close>

text \<open>The abstract disk: the contents of its sectors, and the sectors in doubt: the ranges of the writes that
  failed since the last write that succeeded, if there are any.  A failed write may leave the file ending
  inside a block.  Until a write succeeds again, a read may then run into an access outside its
  buffer, and what it returns for sectors in doubt is not determined.\<close>

datatype io_op = Rd nat nat | Wr nat "byte list"

datatype io_res = RdRes "(int \<times> byte list) option" | WrRes int

fun op_range :: "io_op \<Rightarrow> nat \<times> nat" where
  "op_range (Rd sec secs) = (sec, secs)"
| "op_range (Wr sec buf) = (sec, length buf div 512)"

definition op_ok :: "io_op \<Rightarrow> bool" where
  "op_ok p \<longleftrightarrow> (case op_range p of (sec, secs) \<Rightarrow> 0 < secs \<and> secs < 67108864 \<and> sec + secs < 36028797018963968) \<and>
     (case p of Wr _ buf \<Rightarrow> length buf mod 512 = 0 | Rd _ _ \<Rightarrow> True)"

fun do_op :: "io_op \<Rightarrow> io_res vhd" where
  "do_op (Rd sec secs) = do { r \<leftarrow> vhd_io_read 1 (replicate (secs * 512) 0) sec secs; ret (RdRes r) }"
| "do_op (Wr sec buf) = do { r \<leftarrow> vhd_io_write buf sec (length buf div 512); ret (WrRes r) }"

text \<open>A process that went wrong delivers no further results.\<close>

primrec do_ops :: "io_op list \<Rightarrow> io_res list vhd" where
  "do_ops [] = ret []"
| "do_ops (p # ps) = do { r \<leftarrow> do_op p; b \<leftarrow> gets panicked; if b then ret [] else do { rs \<leftarrow> do_ops ps; ret (r # rs) } }"

definition disk_write :: "(nat \<Rightarrow> byte list) \<Rightarrow> nat \<Rightarrow> byte list \<Rightarrow> nat \<Rightarrow> byte list" where
  "disk_write D sec buf k = (if sec \<le> k \<and> k < sec + length buf div 512 then sec_at buf (k - sec) else D k)"

type_synonym disk = "(nat \<Rightarrow> byte list) \<times> nat set option"

definition doubted :: "nat set option \<Rightarrow> nat set" where
  "doubted x = (case x of None \<Rightarrow> {} | Some X \<Rightarrow> X)"

inductive disk_step :: "disk \<Rightarrow> io_op \<Rightarrow> io_res \<Rightarrow> disk \<Rightarrow> bool" where
  write_ok: "disk_step (D, x) (Wr sec buf) (WrRes 0) (disk_write D sec buf, None)"
| write_fail: "r \<noteq> 0 \<Longrightarrow> (\<forall>k. k \<notin> {sec ..< sec + length buf div 512} \<longrightarrow> D' k = D k) \<Longrightarrow>
    disk_step (D, x) (Wr sec buf) (WrRes r) (D', Some (doubted x \<union> {sec ..< sec + length buf div 512}))"
| read_ok: "length d = secs * 512 \<Longrightarrow> (\<forall>i < secs. sec + i \<notin> doubted x \<longrightarrow> sec_at d i = D (sec + i)) \<Longrightarrow>
    disk_step (D, x) (Rd sec secs) (RdRes (Some (0, d))) (D, x)"
| read_fail: "r \<noteq> 0 \<Longrightarrow> disk_step (D, x) (Rd sec secs) (RdRes (Some (r, d))) (D, x)"

inductive disk_run :: "disk \<Rightarrow> io_op list \<Rightarrow> io_res list \<Rightarrow> bool" where
  finished: "disk_run A [] []"
| step: "disk_step A p r A' \<Longrightarrow> disk_run A' ps rs \<Longrightarrow> disk_run A (p # ps) (r # rs)"
| crashed: "disk_run (D, Some X) (Rd sec secs # ps) []"

text \<open>The image represents the disk.\<close>

definition represents :: "img_layout \<Rightarrow> vhd_context \<Rightarrow> disk \<Rightarrow> bool" where
  "represents L s A \<longleftrightarrow> (\<exists>B. img L s (file_of s) B) \<and> ftr_type (footer s) \<noteq> HD_TYPE_DIFF \<and>
     (case snd A of None \<Rightarrow> tail_ok L s | Some X \<Rightarrow> stubs s X) \<and> (\<forall>k. fst A k = seen s k)"

lemma represents_stubs:
  assumes "represents L s (D, x)"
  shows "stubs s (doubted x)" "x = None \<Longrightarrow> whole s"
  using assms tail_whole whole_stubs by (auto simp: represents_def doubted_def split: option.splits)

lemma represents_moved:
  assumes "represents L s A" "moved s t"
  shows "represents L t A"
proof -
  obtain B where i: "img L s (file_of s) B" using assms(1) by (auto simp: represents_def)
  show ?thesis
    using moved_img [OF assms(2) i] movedD [OF assms(2)] assms(1) moved_tail [OF i assms(2)] moved_stubs [OF i assms(2)] moved_sector [OF i assms(2)]
    by (auto simp: represents_def seen_def file_of_def split: option.splits)
qed

lemma write_represents:
  assumes "represents L s (D, x)" "op_ok (Wr sec buf)" "run_state (do_op (Wr sec buf)) s = (w, t)"
  shows "\<exists>A'. disk_step (D, x) (Wr sec buf) w A' \<and> represents L t A' \<and> \<not> panicked t"
proof -
  let ?n = "length buf div 512"
  from assms(1) obtain B where i: "img L s (file_of s) B" and ty: "ftr_type (footer s) \<noteq> HD_TYPE_DIFF"
    and D: "\<And>k. D k = seen s k" by (auto simp: represents_def)
  have l: "length buf = ?n * 512" "0 < ?n" "sec + ?n < 36028797018963968" using assms(2) by (auto simp: op_ok_def)
  from assms(3) obtain r where r: "run_state (vhd_io_write buf sec ?n) s = (r, t)" "w = WrRes r"
    by (auto split: prod.splits)
  note w = io_write_outcome [OF i l r(1)]
  then have al: "altered L s {sec ..< sec + ?n} t" by (simp add: written_def)
  obtain C where C: "img L t (file_of t) C" using alteredD(1) [OF al] by blast
  have ty': "ftr_type (footer t) \<noteq> HD_TYPE_DIFF" using ty kept_static [OF alteredD(2) [OF al]] by simp
  have out: "seen t k = D k" if "k \<notin> {sec ..< sec + ?n}" for k using alteredD(3) [OF al that] D by (simp add: seen_def)
  show ?thesis
  proof (cases "r = 0")
    case True
    have "disk_write D sec buf k = seen t k" for k
      using out [of k] written_sec_at [OF w(1) l(1) True, of "k - sec"] by (auto simp: disk_write_def seen_def)
    then show ?thesis
      using C imgD(2) [OF C] ty' tail_exact_ok [OF w(2) [OF True]] r(2) True disk_step.write_ok [of D x sec buf]
      by (intro exI [of _ "(disk_write D sec buf, None)"]) (auto simp: represents_def)
  next
    case False
    have "represents L t (seen t, Some (doubted x \<union> {sec ..< sec + ?n}))"
      using C ty' altered_stubs [OF i al represents_stubs(1) [OF assms(1)]] by (auto simp: represents_def)
    then show ?thesis
      using imgD(2) [OF C] r(2) disk_step.write_fail [OF False, of sec buf "seen t" D x] out by auto
  qed
qed

lemma read_represents:
  assumes "represents L s (D, x)" "op_ok (Rd sec secs)" "run_state (do_op (Rd sec secs)) s = (w, t)"
  shows "disk_step (D, x) (Rd sec secs) w (D, x) \<and> represents L t (D, x) \<and> \<not> panicked t \<or> x \<noteq> None \<and> panicked t"
proof -
  from assms(1) obtain B where i: "img L s (file_of s) B" and ty: "ftr_type (footer s) \<noteq> HD_TYPE_DIFF"
    and D: "\<And>k. D k = seen s k" by (auto simp: represents_def)
  note st = represents_stubs [OF assms(1)]
  have l: "length (replicate (secs * 512) (0 :: byte)) = secs * 512" "0 < secs" "secs < 67108864" "sec + secs < 36028797018963968"
    using assms(2) by (auto simp: op_ok_def)
  from assms(3) obtain r where r: "run_state (vhd_io_read 1 (replicate (secs * 512) 0) sec secs) s = (r, t)" "w = RdRes r"
    by (auto split: prod.splits)
  have "(\<lambda>w t. disk_step (D, x) (Rd sec secs) (RdRes w) (D, x) \<and> represents L t (D, x) \<and> \<not> panicked t \<or> x \<noteq> None \<and> panicked t) r t"
  proof (rule wp_runD [OF _ r(1)], rule wp_io_read_doubt [OF i st(1) l], goal_cases)
    case (3 e d v)
    have "\<not> panicked v" using movedD(5) [OF 3(1)] imgD(2) [OF i] by simp
    moreover have "sec_at d i = D (sec + i)" if "e = 0" "i < secs" "sec + i \<notin> doubted x" for i using 3(2) that unfolding D by blast
    then have "disk_step (D, x) (Rd sec secs) (RdRes (Some (e, d))) (D, x)"
      using 3(2) disk_step.read_ok [of d secs sec x D] disk_step.read_fail [of e D x sec secs d] by (cases "e = 0") blast+
    ultimately show ?case using represents_moved [OF assms(1) 3(1)] by blast
  next
    case (4 e d v)
    then show ?case using st(2) by blast
  qed (use ty in simp_all)
  with r(2) show ?thesis by simp
qed

lemma ops_represent:
  assumes "represents L s A" "list_all op_ok ps" "run_state (do_ops ps) s = (rs, t)"
  shows "disk_run A ps rs"
  using assms
proof (induction ps arbitrary: s A rs)
  case Nil
  then show ?case by (auto intro: disk_run.finished simp: State_Monad.return_def)
next
  case (Cons p ps)
  obtain D x where A: "A = (D, x)" by force
  obtain r u where r: "run_state (do_op p) s = (r, u)" by force
  have ok: "op_ok p" "list_all op_ok ps" using Cons.prems(2) by simp_all
  have go: "disk_run A (p # ps) rs" if st: "disk_step A p r A'" "represents L u A'" "\<not> panicked u" for A'
  proof -
    obtain rs' where "run_state (do_ops ps) u = (rs', t)" "rs = r # rs'"
      using Cons.prems(3) r st(3) by (auto simp: State_Monad.return_def gets_def State_Monad.get_def split: prod.splits)
    with Cons.IH [OF st(2) ok(2)] st(1) show ?thesis by (auto intro: disk_run.step)
  qed
  have stop: "rs = []" if "panicked u"
    using Cons.prems(3) r that by (auto simp: State_Monad.return_def gets_def State_Monad.get_def split: prod.splits)
  show ?case
  proof (cases p)
    case (Wr sec buf)
    from write_represents [OF Cons.prems(1) [unfolded A] ok(1) [unfolded Wr] r [unfolded Wr]] go show ?thesis
      unfolding A Wr by blast
  next
    case (Rd sec secs)
    from read_represents [OF Cons.prems(1) [unfolded A] ok(1) [unfolded Rd] r [unfolded Rd]] go stop show ?thesis
      unfolding A Rd by (auto intro: disk_run.crashed)
  qed
qed



end
