(* ===== verification/Vhd_Create.thy ===== *)
theory Vhd_Create
  imports Vhd_Locator
begin

text \<open>Creating images (\<^verbatim>\<open>vhd/lib/libvhd.c\<close>): the footer, the header, the tables and the parent locators of a
  new image, changes of its size and of its parent, and the marker and key hash kept in the header of the
  batmap.\<close>

subsection \<open>Footer and header\<close>

definition vhd_initialize_footer :: "32 word \<Rightarrow> nat \<Rightarrow> unit vhd" where
  "vhd_initialize_footer type nbytes = modify (\<lambda>s. s\<lparr>footer := zero_footer
     \<lparr>ftr_cookie := HD_COOKIE, features := 0x00000002, ff_version := 0x00010000, timestamp := vhd_time (env_time (env s)),
      crtr_ver := VHD_VERSION 1 3, crtr_os := 0, orig_size := of_nat nbytes, curr_size := of_nat nbytes,
      geometry := vhd_chs nbytes, ftr_type := type, saved := 0, ftr_data_offset := 0xFFFFFFFFFFFFFFFF,
      crtr_app := str_bytes ''tap'' @ [0], uuid := env_uuid_generate (env s)\<rparr>\<rparr>)"

text \<open>\<^verbatim>\<open>basename\<close> of the C library.\<close>

definition basename :: "string \<Rightarrow> string" where
  "basename p =
     (let q = rev (dropWhile (\<lambda>c. c = slash) (rev p)) in
      if p = [] then ''.'' else if q = [] then [slash] else rev (takeWhile (\<lambda>c. c \<noteq> slash) (rev q)))"

text \<open>Conversion from ASCII to big-endian UTF-16 into a buffer of 512 bytes stops at the first character
  outside ASCII or when the buffer is full.\<close>

abbreviation (input) E2BIG :: int where "E2BIG \<equiv> 7"

definition iconv_name :: "string \<Rightarrow> int \<times> byte list" where
  "iconv_name name =
     (let k = min 256 (length (takeWhile (\<lambda>c. (of_char c :: byte) < 0x80) name))
      in (if k = length name then 0 else if k = 256 then - E2BIG else - EILSEQ,
          concat (map (\<lambda>c. [0, of_char c]) (take k name)) @ replicate (512 - 2 * k) 0))"

definition vhd_initialize_header_parent_name :: "string \<Rightarrow> int vhd" where
  "vhd_initialize_header_parent_name parent_path = do {
     err \<leftarrow> posix_memalign;
     if err \<noteq> 0 then ret (- ENOMEM)
     else (let pname = basename parent_path in
       if pname = '''' then ret (- EINVAL)
       else case iconv_name pname of (err, name) \<Rightarrow> do {
         modify (\<lambda>s. s\<lparr>header := (header s)\<lparr>prt_name := name\<rparr>\<rparr>);
         ret err
       })
   }"

definition get_file_size :: "string \<Rightarrow> int vhd" where
  "get_file_size name = do {
     (err, _) \<leftarrow> sys_lookup name;
     if err \<noteq> 0 then ret err
     else gets (\<lambda>s. case files s name of None \<Rightarrow> 0 | Some f \<Rightarrow> int (fsize f))
   }"

definition blocks_of :: "nat \<Rightarrow> nat" where
  "blocks_of bytes = u64 (bytes + (VHD_BLOCK_SIZE - 1)) div VHD_BLOCK_SIZE"

text \<open>The part of \<^verbatim>\<open>vhd_initialize_header\<close> for differencing images.  The second result is the size of the parent;
  the size of a raw parent is stored unsigned, an error number included.\<close>

definition init_header_parent :: "string \<Rightarrow> nat \<Rightarrow> bool \<Rightarrow> (int \<times> nat) vhd" where
  "init_header_parent parent_path nbytes raw = do {
     (err, _) \<leftarrow> sys_lookup parent_path;
     if err \<noteq> 0 then ret (err, 0)
     else do {
       (err, psize) \<leftarrow>
         (if raw then do {
            modify (\<lambda>s. s\<lparr>header := (header s)\<lparr>prt_ts := vhd_time (env_mtime (env s) parent_path)\<rparr>\<rparr>);
            n \<leftarrow> get_file_size parent_path;
            ret (0, unat (word_of_int n :: 64 word))
          }
          else do {
            s \<leftarrow> State_Monad.get;
            (err, parent) \<leftarrow> in_ctx s (vhd_open parent_path VHD_OPEN_RDONLY);
            if err \<noteq> 0 then ret (err, 0)
            else do {
              modify (\<lambda>s. s\<lparr>header := (header s)\<lparr>prt_ts := vhd_time (env_mtime (env s) parent_path),
                prt_uuid := uuid (footer parent)\<rparr>\<rparr>);
              if env_uuid_is_null (env s) (uuid (footer parent)) then ret (- EINVAL, 0)
              else ret (0, unat (curr_size (footer parent)))
            }
          });
       if err \<noteq> 0 then ret (err, psize)
       else (let nbytes = (if nbytes = 0 then psize else nbytes) in
         if nbytes < psize then ret (- EINVAL, psize)
         else do {
           modify (\<lambda>s. s\<lparr>footer := (footer s)\<lparr>orig_size := of_nat nbytes, curr_size := of_nat nbytes, geometry := vhd_chs nbytes\<rparr>,
             header := (header s)\<lparr>max_bat_size := of_nat (blocks_of nbytes)\<rparr>\<rparr>);
           err \<leftarrow> vhd_initialize_header_parent_name parent_path;
           ret (err, psize)
         })
     }
   }"

definition new_header :: vhd_header where
  "new_header = zero_header\<lparr>hdr_cookie := DD_COOKIE, hdr_data_offset := 0xFFFFFFFFFFFFFFFF, table_offset := 1536,
     hdr_ver := 0x00010000, block_size := 0x00200000, prt_ts := 0, res1 := 0\<rparr>"

definition vhd_initialize_header :: "string option \<Rightarrow> nat \<Rightarrow> bool \<Rightarrow> (int \<times> nat) vhd" where
  "vhd_initialize_header parent_path nbytes raw = do {
     s \<leftarrow> State_Monad.get;
     if \<not> vhd_type_dynamic s then ret (- EINVAL, 0)
     else (let n = blocks_of (unat (curr_size (footer s))) in
       if 4294967295 < n then do { modify (\<lambda>s. s\<lparr>header := new_header\<rparr>); ret (- EINVAL, 0) }
       else do {
         modify (\<lambda>s. s\<lparr>header := new_header\<lparr>max_bat_size := of_nat n\<rparr>, footer := (footer s)\<lparr>ftr_data_offset := 512\<rparr>\<rparr>);
         if ftr_type (footer s) = HD_TYPE_DYNAMIC then ret (0, 0)
         else case parent_path of None \<Rightarrow> ret (- EINVAL, 0) | Some p \<Rightarrow> init_header_parent p nbytes raw
       })
   }"

subsection \<open>Parent locators\<close>

definition locator_start :: "vhd_batmap \<Rightarrow> int" where
  "locator_start bm =
     (let off = to_off64 (batmap_offset (bm_header bm) + of_nat (vhd_sectors_to_bytes (unat (batmap_size (bm_header bm)))))
      in if off mod 512 \<noteq> 0 then int (vhd_bytes_padded (nat off)) else off)"

primrec write_locators :: "(nat \<times> 32 word) list \<Rightarrow> string \<Rightarrow> int \<Rightarrow> int vhd" where
  "write_locators [] parent off = ret 0"
| "write_locators (ic # ics) parent off = do {
     (err, l) \<leftarrow> vhd_parent_locator_write_at parent off (snd ic) 0;
     modify (\<lambda>s. s\<lparr>header := (header s)\<lparr>loc := (loc (header s))[fst ic := l]\<rparr>\<rparr>);
     if err \<noteq> 0 then ret err
     else write_locators ics parent (off_add off (vhd_parent_locator_size l))
   }"

definition vhd_write_parent_locators :: "string \<Rightarrow> int vhd" where
  "vhd_write_parent_locators parent = do {
     s \<leftarrow> State_Monad.get;
     if ftr_type (footer s) \<noteq> HD_TYPE_DIFF then ret (- EINVAL)
     else write_locators [(0, PLAT_CODE_MACX), (1, PLAT_CODE_W2KU), (2, PLAT_CODE_W2RU)] parent (locator_start (batmap s))
   }"

subsection \<open>Tables\<close>

definition vhd_create_batmap :: "int vhd" where
  "vhd_create_batmap = do {
     s \<leftarrow> State_Monad.get;
     if \<not> vhd_type_dynamic s then ret (- EINVAL)
     else (let map_bytes = u32 (unat (max_bat_size (header s)) + 7) div 8;
               h = zero_batmap_header\<lparr>bmh_cookie := VHD_BATMAP_COOKIE,
                 batmap_offset := word_of_int (vhd_batmap_header_offset (header s)) + of_nat (vhd_bytes_padded 512),
                 batmap_size := of_nat (secs_round_up_no_zero map_bytes), batmap_version := VHD_VERSION 1 2\<rparr> in do {
       modify (\<lambda>s. s\<lparr>batmap := (batmap s)\<lparr>bm_header := h\<rparr>\<rparr>);
       err \<leftarrow> posix_memalign;
       if err \<noteq> 0 then ret (- err)
       else do {
         modify (\<lambda>s. s\<lparr>batmap := (batmap s)\<lparr>bm_map := Some (replicate (vhd_sectors_to_bytes (unat (batmap_size h))) 0)\<rparr>\<rparr>);
         bm \<leftarrow> gets batmap;
         vhd_write_batmap bm
       }
     })
   }"

definition vhd_create_bat :: "int vhd" where
  "vhd_create_bat = do {
     s \<leftarrow> State_Monad.get;
     if \<not> vhd_type_dynamic s then ret (- EINVAL)
     else (let n = unat (max_bat_size (header s)) in do {
       err \<leftarrow> posix_memalign;
       if err \<noteq> 0 then ret err
       else do {
         modify (\<lambda>s. s\<lparr>ctx_bat := (ctx_bat s)\<lparr>bat := Some (replicate n DD_BLK_UNUSED @ replicate (vhd_bytes_padded (n * 4) div 4 - n) 0)\<rparr>\<rparr>);
         err \<leftarrow> vhd_seek (to_off64 (table_offset (header s))) SEEK_SET;
         if err \<noteq> 0 then ret err
         else do {
           modify (\<lambda>s. s\<lparr>ctx_bat := (ctx_bat s)\<lparr>entries := n, bat_spb := unat (block_size (header s)) div 512\<rparr>\<rparr>);
           b \<leftarrow> gets ctx_bat;
           vhd_write_bat b
         }
       }
     })
   }"

primrec write_zero_blocks :: "nat \<Rightarrow> int vhd" where
  "write_zero_blocks 0 = ret 0"
| "write_zero_blocks (Suc n) = do {
     err \<leftarrow> vhd_write (replicate VHD_BLOCK_SIZE 0);
     if err \<noteq> 0 then ret err else write_zero_blocks n
   }"

definition vhd_initialize_fixed_disk :: "int vhd" where
  "vhd_initialize_fixed_disk = do {
     s \<leftarrow> State_Monad.get;
     if ftr_type (footer s) \<noteq> HD_TYPE_FIXED then ret (- EINVAL)
     else do {
       err \<leftarrow> vhd_seek 0 SEEK_SET;
       if err \<noteq> 0 then ret err
       else do {
         err \<leftarrow> posix_memalign;
         if err \<noteq> 0 then ret (- err) else write_zero_blocks (unat (curr_size (footer s)) div VHD_BLOCK_SIZE)
       }
     }
   }"

subsection \<open>Sizes\<close>

definition vhd_get_phys_size :: "(int \<times> int) vhd" where
  "vhd_get_phys_size = do {
     (err, nbytes) \<leftarrow> vhd_end_of_data;
     if err \<noteq> 0 then ret (err, nbytes) else ret (0, off_add nbytes 512)
   }"

definition vhd_set_phys_size :: "int \<Rightarrow> int vhd" where
  "vhd_set_phys_size nbytes = do {
     (err, phys_size) \<leftarrow> vhd_get_phys_size;
     if err \<noteq> 0 then ret err
     else if nbytes < phys_size then ret (- EINVAL)
     else do {
       f \<leftarrow> gets footer;
       vhd_write_footer_at f (nbytes - 512)
     }
   }"

definition vhd_set_virt_size_no_write :: "nat \<Rightarrow> int vhd" where
  "vhd_set_virt_size_no_write nbytes = do {
     s \<leftarrow> State_Monad.get;
     if nbytes div VHD_BLOCK_SIZE > unat (max_bat_size (header s)) then ret (- EINVAL)
     else (let f = (footer s)\<lparr>curr_size := of_nat nbytes, geometry := vhd_chs nbytes\<rparr> in do {
       modify (\<lambda>s. s\<lparr>footer := f\<lparr>ftr_checksum := vhd_checksum_footer f\<rparr>\<rparr>);
       ret 0
     })
   }"

definition vhd_set_virt_size :: "nat \<Rightarrow> int vhd" where
  "vhd_set_virt_size nbytes = do {
     err \<leftarrow> vhd_set_virt_size_no_write nbytes;
     if err \<noteq> 0 then ret err
     else do {
       f \<leftarrow> gets footer;
       vhd_write_footer f
     }
   }"

subsection \<open>Creation\<close>

abbreviation (input) VHD_MAX_NAME_LEN :: nat where "VHD_MAX_NAME_LEN \<equiv> 1024"
abbreviation (input) VHD_FLAG_CREAT_PARENT_RAW :: nat where "VHD_FLAG_CREAT_PARENT_RAW \<equiv> 0x00002"

text \<open>\<^verbatim>\<open>open\<close> with \<^verbatim>\<open>O_CREAT\<close> and \<^verbatim>\<open>O_TRUNC\<close>, and \<^verbatim>\<open>unlink\<close>.\<close>

definition sys_create :: "string \<Rightarrow> int vhd" where
  "sys_create path = State (\<lambda>s. case pop_fault s of (x, t) \<Rightarrow>
     (if panicked s then (- EIO, s)
      else if errno_of x \<noteq> 0 then (- errno_of x, t)
      else let f = (case files t path of None \<Rightarrow> \<lparr> fdata = (\<lambda>_. 0), fsize = 0, fblk = False \<rparr>
                    | Some f \<Rightarrow> if fblk f then f else ftrunc f 0)
           in (0, t\<lparr>files := (files t)(path \<mapsto> f), fd := Some path\<rparr>)))"

definition sys_unlink :: "string \<Rightarrow> unit vhd" where
  "sys_unlink path = State (\<lambda>s. case pop_fault s of (x, t) \<Rightarrow>
     if panicked s \<or> errno_of x \<noteq> 0 then ((), t) else ((), t\<lparr>files := (files t)(path := None)\<rparr>))"

text \<open>The header, the tables and the locators of the types that have them.\<close>

definition create_metadata :: "string option \<Rightarrow> nat \<Rightarrow> 32 word \<Rightarrow> nat \<Rightarrow> (int \<times> nat) vhd" where
  "create_metadata parent nbytes type flags = do {
     (err, psize) \<leftarrow> vhd_initialize_header parent nbytes (vhd_flag_test flags VHD_FLAG_CREAT_PARENT_RAW);
     if err \<noteq> 0 then ret (err, psize)
     else do {
       err \<leftarrow> vhd_create_batmap;
       if err \<noteq> 0 then ret (err, psize)
       else do {
         err \<leftarrow> vhd_create_bat;
         if err \<noteq> 0 then ret (err, psize)
         else if type = HD_TYPE_DIFF
         then do {
           err \<leftarrow> (case parent of None \<Rightarrow> ret (- EINVAL) | Some p \<Rightarrow> vhd_write_parent_locators p);
           ret (err, psize)
         }
         else ret (0, psize)
       }
     }
   }"

text \<open>The end of the creation: the copy of the footer, the header and the footer.\<close>

definition create_footers :: "32 word \<Rightarrow> int vhd" where
  "create_footers type = do {
     f \<leftarrow> gets footer;
     err \<leftarrow> (if type \<noteq> HD_TYPE_FIXED then vhd_write_footer_at f 0 else ret 0);
     if err \<noteq> 0 then ret err
     else do {
       h \<leftarrow> gets header;
       err \<leftarrow> (if type \<noteq> HD_TYPE_FIXED then vhd_write_header_at h 512 else ret 0);
       if err \<noteq> 0 then ret err
       else do {
         err \<leftarrow> vhd_seek 0 SEEK_END;
         if err \<noteq> 0 then ret err
         else do {
           off \<leftarrow> vhd_position;
           blk \<leftarrow> gets is_block;
           vhd_write_footer_at f (if blk then int off - 512 else int off)
         }
       }
     }
   }"

definition create_body :: "string \<Rightarrow> string option \<Rightarrow> nat \<Rightarrow> 32 word \<Rightarrow> nat \<Rightarrow> nat \<Rightarrow> int vhd" where
  "create_body name parent bytes type mbytes flags =
     (let nbytes = u64 (blocks_of (if mbytes \<noteq> 0 then mbytes else bytes) * VHD_BLOCK_SIZE) in do {
        err \<leftarrow> posix_memalign;
        if err \<noteq> 0 then ret (- ENOMEM)
        else do {
          modify (\<lambda>s. s\<lparr>file_name := name\<rparr>);
          (err, blk) \<leftarrow> sys_lookup name;
          if err \<noteq> 0 then ret err
          else do {
            modify (\<lambda>s. s\<lparr>is_block := blk\<rparr>);
            vhd_initialize_footer type nbytes;
            (err, psize) \<leftarrow> (if type = HD_TYPE_FIXED then do { err \<leftarrow> vhd_initialize_fixed_disk; ret (err, 0) }
                             else create_metadata parent nbytes type flags);
            if err \<noteq> 0 then ret err
            else do {
              err \<leftarrow> (if mbytes \<noteq> 0 then do {
                       let nbytes = (if bytes \<noteq> 0 then u64 (blocks_of bytes * VHD_BLOCK_SIZE) else psize);
                       modify (\<lambda>s. s\<lparr>footer := (footer s)\<lparr>orig_size := of_nat nbytes\<rparr>\<rparr>);
                       vhd_set_virt_size_no_write nbytes
                     } else ret 0);
              if err \<noteq> 0 then ret err else create_footers type
            }
          }
        }
      })"

text \<open>\<^verbatim>\<open>vhd_close\<close> clears the context before the test of \<^verbatim>\<open>is_block\<close>.\<close>

definition vhd_create_impl :: "string \<Rightarrow> string option \<Rightarrow> nat \<Rightarrow> 32 word \<Rightarrow> nat \<Rightarrow> nat \<Rightarrow> int vhd" where
  "vhd_create_impl name parent bytes type mbytes flags =
     (if type \<noteq> HD_TYPE_DIFF \<and> type \<noteq> HD_TYPE_FIXED \<and> type \<noteq> HD_TYPE_DYNAMIC then ret (- EINVAL)
      else if type = HD_TYPE_DIFF \<and> parent = None then ret (- EINVAL)
      else if VHD_MAX_NAME_LEN - 1 \<le> length name then ret (- ENAMETOOLONG)
      else if bytes \<noteq> 0 \<and> mbytes \<noteq> 0 \<and> mbytes < bytes then ret (- EINVAL)
      else do {
        modify clear_ctx;
        err \<leftarrow> sys_create name;
        if err \<noteq> 0 then ret err
        else do {
          err \<leftarrow> create_body name parent bytes type mbytes flags;
          vhd_close;
          blk \<leftarrow> gets is_block;
          (if err \<noteq> 0 \<and> \<not> blk then sys_unlink name else ret ());
          ret err
        }
      })"

definition vhd_create :: "string \<Rightarrow> nat \<Rightarrow> 32 word \<Rightarrow> nat \<Rightarrow> nat \<Rightarrow> int vhd" where
  "vhd_create name bytes type mbytes flags = vhd_create_impl name None bytes type mbytes flags"

definition vhd_snapshot :: "string \<Rightarrow> nat \<Rightarrow> string \<Rightarrow> nat \<Rightarrow> nat \<Rightarrow> int vhd" where
  "vhd_snapshot name bytes parent mbytes flags = vhd_create_impl name (Some parent) bytes HD_TYPE_DIFF mbytes flags"

subsection \<open>Change of the parent\<close>

definition new_parent_uuid :: "string \<Rightarrow> bool \<Rightarrow> int vhd" where
  "new_parent_uuid ppath raw =
     (if raw then do {
        modify (\<lambda>s. s\<lparr>header := (header s)\<lparr>prt_uuid := replicate 16 0\<rparr>\<rparr>);
        ret 0
      }
      else do {
        s \<leftarrow> State_Monad.get;
        (err, parent) \<leftarrow> in_ctx s (vhd_open ppath VHD_OPEN_RDONLY);
        if err \<noteq> 0 then ret err
        else do {
          modify (\<lambda>s. s\<lparr>header := (header s)\<lparr>prt_uuid := uuid (footer parent)\<rparr>\<rparr>);
          ret 0
        }
      })"

primrec rewrite_locators :: "nat list \<Rightarrow> string \<Rightarrow> int vhd" where
  "rewrite_locators [] ppath = ret 0"
| "rewrite_locators (i # is) ppath = do {
     l \<leftarrow> gets (\<lambda>s. loc (header s) ! i);
     if code l \<noteq> PLAT_CODE_MACX \<and> code l \<noteq> PLAT_CODE_W2KU \<and> code l \<noteq> PLAT_CODE_W2RU then rewrite_locators is ppath
     else do {
       (err, l) \<leftarrow> vhd_parent_locator_write_at ppath (to_off64 (loc_data_offset l)) (code l) (vhd_parent_locator_size l);
       modify (\<lambda>s. s\<lparr>header := (header s)\<lparr>loc := (loc (header s))[i := l]\<rparr>\<rparr>);
       if err \<noteq> 0 then ret err else rewrite_locators is ppath
     }
   }"

definition vhd_change_parent :: "string \<Rightarrow> bool \<Rightarrow> int vhd" where
  "vhd_change_parent parent_path raw = do {
     s \<leftarrow> State_Monad.get;
     if ftr_type (footer s) \<noteq> HD_TYPE_DIFF then ret (- EINVAL)
     else case ctx_canonpath s parent_path of
       Inl e \<Rightarrow> ret (neg_errno e)
     | Inr ppath \<Rightarrow> do {
         (err, _) \<leftarrow> sys_lookup ppath;
         if err \<noteq> 0 then ret err
         else do {
           err \<leftarrow> new_parent_uuid ppath raw;
           if err \<noteq> 0 then ret err
           else do {
             vhd_initialize_header_parent_name ppath;
             modify (\<lambda>s. s\<lparr>header := (header s)\<lparr>prt_ts := vhd_time (env_mtime (env s) ppath)\<rparr>\<rparr>);
             n \<leftarrow> gets (\<lambda>s. vhd_parent_locator_count (header s));
             err \<leftarrow> rewrite_locators [0..<n] ppath;
             if err \<noteq> 0 then ret err
             else do {
               h \<leftarrow> gets header;
               vhd_write_header h
             }
           }
         }
       }
   }"

subsection \<open>Marker and key hash\<close>

text \<open>For images without a batmap the values are extended attributes of the file, \<open>xattr\<close> being what the call for
  them returns.  The header of the batmap is read into a structure on the stack.\<close>

definition vhd_marker :: "int \<times> byte \<Rightarrow> (int \<times> byte) vhd" where
  "vhd_marker xattr = do {
     has \<leftarrow> vhd_has_batmap;
     if \<not> has then ret xattr
     else do {
       (err, bm) \<leftarrow> vhd_read_batmap_header zero_batmap;
       if err \<noteq> 0 then ret (err, 0) else ret (0, marker (bm_header bm))
     }
   }"

definition vhd_set_marker :: "int \<Rightarrow> byte \<Rightarrow> int vhd" where
  "vhd_set_marker xattr m = do {
     has \<leftarrow> vhd_has_batmap;
     if \<not> has then ret xattr
     else do {
       (err, bm) \<leftarrow> vhd_read_batmap_header zero_batmap;
       if err \<noteq> 0 then ret err
       else do {
         (err, _) \<leftarrow> vhd_write_batmap_header (bm\<lparr>bm_header := (bm_header bm)\<lparr>marker := m\<rparr>\<rparr>);
         ret err
       }
     }
   }"

definition vhd_get_keyhash :: "int \<times> byte list \<Rightarrow> byte list \<Rightarrow> (int \<times> byte list) vhd" where
  "vhd_get_keyhash xattr keyhash0 = do {
     has \<leftarrow> vhd_has_batmap;
     if \<not> has then ret xattr
     else do {
       (err, bm) \<leftarrow> vhd_read_batmap_header zero_batmap;
       if err \<noteq> 0 then ret (err, keyhash0) else ret (0, keyhash (bm_header bm))
     }
   }"

definition vhd_set_keyhash :: "int \<Rightarrow> byte list \<Rightarrow> int vhd" where
  "vhd_set_keyhash xattr kh = do {
     has \<leftarrow> vhd_has_batmap;
     if \<not> has then ret xattr
     else do {
       (err, bm) \<leftarrow> vhd_read_batmap_header zero_batmap;
       if err \<noteq> 0 then ret err
       else do {
         modify (\<lambda>s. s\<lparr>batmap := (batmap s)\<lparr>bm_header := (bm_header (batmap s))\<lparr>keyhash := kh\<rparr>\<rparr>\<rparr>);
         (err, _) \<leftarrow> vhd_write_batmap_header (bm\<lparr>bm_header := (bm_header bm)\<lparr>keyhash := kh\<rparr>\<rparr>);
         ret err
       }
     }
   }"

end
