(* ===== verification/Vhd_Create_Props.thy ===== *)
theory Vhd_Create_Props
  imports Vhd_Create Vhd_Image
begin

text \<open>A new image opens as a well-formed image that holds no sector.\<close>

subsection \<open>The layout of a new image of \<open>n\<close> blocks\<close>

definition bat_len :: "nat \<Rightarrow> nat" where
  "bat_len n = (n * 4 + 511) div 512 * 512"

definition bm_len :: "nat \<Rightarrow> nat" where
  "bm_len n = max 1 ((n div 8 + 511) div 512) * 512"

text \<open>Numbers of blocks whose batmap has a bit for each block: the code computes the size of the map in memory
  from the number of whole groups of eight blocks.\<close>

definition blocks_ok_for_batmap :: "nat \<Rightarrow> bool" where
  "blocks_ok_for_batmap n \<longleftrightarrow> n \<le> 8 * bm_len n"

definition bm_sectors :: "nat \<Rightarrow> nat" where
  "bm_sectors n = max 1 (((n + 7) div 8 + 511) div 512)"

definition new_layout :: "nat \<Rightarrow> img_layout" where
  "new_layout n = \<lparr> l_map = 2048 + bat_len n, l_msecs = bm_sectors n, l_lo = (2048 + bat_len n) div 512 + bm_sectors n \<rparr>"

lemma bm_len_bits: "blocks_ok_for_batmap n \<Longrightarrow> (n + 7) div 8 \<le> bm_len n"
  by (simp add: blocks_ok_for_batmap_def)

lemma bm_len_secs: "blocks_ok_for_batmap n \<Longrightarrow> bm_sectors n * 512 = bm_len n"
proof -
  assume a: "blocks_ok_for_batmap n"
  let ?q = "(n div 8 + 511) div 512" and ?p = "((n + 7) div 8 + 511) div 512"
  have "?q \<le> ?p" by (intro div_le_mono add_le_mono) simp_all
  moreover have "?p \<le> max 1 ?q"
  proof -
    have "(n + 7) div 8 \<le> max 1 ?q * 512" using a by (simp add: blocks_ok_for_batmap_def bm_len_def)
    then have "(n + 7) div 8 + 511 \<le> max 1 ?q * 512 + 511" by simp
    then have "?p \<le> (max 1 ?q * 512 + 511) div 512" by (rule div_le_mono)
    then show ?thesis by simp
  qed
  ultimately show ?thesis by (auto simp: bm_len_def bm_sectors_def max_def)
qed

lemma bat_len_mod [simp]: "bat_len n mod 512 = 0" "bat_len n div 512 * 512 = bat_len n"
  by (simp_all add: bat_len_def)

lemma bm_len_mod [simp]: "bm_len n mod 512 = 0" "bm_len n div 512 * 512 = bm_len n" "512 \<le> bm_len n"
  by (auto simp: bm_len_def)

lemma bat_len_ge: "n * 4 \<le> bat_len n" "0 < n \<Longrightarrow> 512 \<le> bat_len n" "bat_len n \<le> n * 4 + 511"
  by (auto simp: bat_len_def)

lemma bm_len_le: "bm_len n \<le> n div 8 + 1023"
  by (auto simp: bm_len_def max_def)

lemma padded_bat: "0 < n \<Longrightarrow> n \<le> 1044480 \<Longrightarrow> vhd_bytes_padded (n * 4) = bat_len n"
  by (simp add: vhd_bytes_padded_eq secs_round_up_no_zero_eq bat_len_def max_def)

lemma bm_sectors_ge: "bm_len n \<le> bm_sectors n * 512"
  unfolding bm_len_def bm_sectors_def by (intro mult_le_mono max.mono div_le_mono add_le_mono) simp_all

lemma bm_sectors_le: "n \<le> 1044480 \<Longrightarrow> bm_sectors n \<le> 256" "0 < bm_sectors n"
  by (auto simp: bm_sectors_def)

subsection \<open>The structures of a new image\<close>

definition new_footer :: "os_env \<Rightarrow> nat \<Rightarrow> vhd_footer" where
  "new_footer e n = zero_footer
     \<lparr>ftr_cookie := HD_COOKIE, features := 0x00000002, ff_version := 0x00010000, timestamp := vhd_time (env_time e),
      crtr_ver := VHD_VERSION 1 3, crtr_os := 0, orig_size := of_nat (n * 2097152), curr_size := of_nat (n * 2097152),
      geometry := vhd_chs (n * 2097152), ftr_type := HD_TYPE_DYNAMIC, saved := 0, ftr_data_offset := 512,
      crtr_app := str_bytes ''tap'' @ [0], uuid := env_uuid_generate e\<rparr>"

definition header_for :: "nat \<Rightarrow> vhd_header" where
  "header_for n = new_header\<lparr>max_bat_size := of_nat n\<rparr>"

definition batmap_for :: "nat \<Rightarrow> vhd_batmap" where
  "batmap_for n = \<lparr> bm_header = zero_batmap_header\<lparr>bmh_cookie := VHD_BATMAP_COOKIE, batmap_offset := of_nat (2048 + bat_len n),
     batmap_size := of_nat (bm_sectors n), batmap_version := VHD_VERSION 1 2\<rparr>, bm_map = Some (replicate (bm_sectors n * 512) 0) \<rparr>"

definition bmh_for :: "os_env \<Rightarrow> nat \<Rightarrow> vhd_batmap_header" where
  "bmh_for e n = (bm_header (batmap_for n))\<lparr>bmh_checksum := vhd_checksum_batmap (new_footer e n) (batmap_for n)\<rparr>"

lemma new_footer_sel [simp]:
  "ftr_type (new_footer e n) = HD_TYPE_DYNAMIC" "ftr_data_offset (new_footer e n) = 512"
  "crtr_ver (new_footer e n) = VHD_VERSION 1 3" "crtr_app (new_footer e n) = str_bytes ''tap'' @ [0]"
  "ftr_cookie (new_footer e n) = HD_COOKIE" "curr_size (new_footer e n) = of_nat (n * 2097152)"
  by (simp_all add: new_footer_def)

lemma header_for_sel [simp]:
  "table_offset (header_for n) = 1536" "max_bat_size (header_for n) = of_nat n" "block_size (header_for n) = 0x00200000"
  "loc (header_for n) = loc zero_header"
  by (simp_all add: header_for_def new_header_def)

lemma batmap_for_sel [simp]:
  "bm_map (batmap_for n) = Some (replicate (bm_sectors n * 512) 0)" "batmap_offset (bm_header (batmap_for n)) = of_nat (2048 + bat_len n)"
  "batmap_size (bm_header (batmap_for n)) = of_nat (bm_sectors n)"
  by (simp_all add: batmap_for_def)

text \<open>Sizes up to 2040 gigabytes.\<close>

definition in_reach :: "nat \<Rightarrow> bool" where
  "in_reach n \<longleftrightarrow> 0 < n \<and> n \<le> 1044480"

lemma reach_sizes:
  assumes "in_reach n"
  shows "unat (of_nat (n * 2097152) :: 64 word) = n * 2097152" "unat (of_nat n :: 32 word) = n"
    "unat (of_nat (bm_sectors n) :: 32 word) = bm_sectors n" "unat (of_nat (2048 + bat_len n) :: 64 word) = 2048 + bat_len n"
    "bat_len n \<le> 4178431" "512 \<le> bat_len n" "vhd_bytes_padded (n * 4) = bat_len n" "vhd_bytes_padded 512 = 512"
    "vhd_batmap_header_offset (header_for n) = int (1536 + bat_len n)" "batmap_map_size (new_footer e n) = bm_len n"
    "secs_round_up_no_zero ((n + 7) div 8) = bm_sectors n"
proof -
  have b: "bat_len n \<le> 4178431" using assms bat_len_ge(3) [of n] by (simp add: in_reach_def)
  have l: "n * 2097152 < 18446744073709551616" "n < 4294967296" "bm_sectors n < 4294967296" "2048 + bat_len n < 18446744073709551616"
    using assms bm_sectors_le(1) [of n] b by (simp_all add: in_reach_def)
  show s: "unat (of_nat (n * 2097152) :: 64 word) = n * 2097152" "unat (of_nat n :: 32 word) = n"
    "unat (of_nat (bm_sectors n) :: 32 word) = bm_sectors n" "unat (of_nat (2048 + bat_len n) :: 64 word) = 2048 + bat_len n"
    by (rule unat_of_nat_u64 [OF l(1)], rule unat_of_nat_u32 [OF l(2)], rule unat_of_nat_u32 [OF l(3)], rule unat_of_nat_u64 [OF l(4)])
  show p: "vhd_bytes_padded (n * 4) = bat_len n" using assms padded_bat by (simp add: in_reach_def)
  show "512 \<le> bat_len n" "bat_len n \<le> 4178431" using assms bat_len_ge b by (simp_all add: in_reach_def)
  show "vhd_bytes_padded 512 = 512" by (simp add: vhd_bytes_padded_eq secs_round_up_no_zero_eq)
  have "off_add 1536 (bat_len n) = int (1536 + bat_len n)"
    using b by (simp add: off_add_small)
  then show "vhd_batmap_header_offset (header_for n) = int (1536 + bat_len n)"
    using p s(2) to_off64_small [of 1536] by (simp add: vhd_batmap_header_offset_def)
  have w: "unat (word_of_nat n * 2097152 :: 64 word) = n * 2097152" using s(1) by simp
  have d: "n * 2097152 div 16777216 = n div 8" using div_mult2_eq [of "n * 2097152" 2097152 8] by simp
  have m: "n div 8 \<le> 130560" using assms div_le_mono [of n 1044480 8] by (simp add: in_reach_def)
  then have "secs_round_up_no_zero (n div 8) = max 1 ((n div 8 + 511) div 512)" by (simp add: secs_round_up_no_zero_eq)
  moreover have "max 1 ((n div 8 + 511) div 512) \<le> 256" using m by simp
  ultimately show "batmap_map_size (new_footer e n) = bm_len n"
    unfolding batmap_map_size_def bm_len_def by (simp add: w d)
  show "secs_round_up_no_zero ((n + 7) div 8) = bm_sectors n"
    using assms div_le_mono [of "n + 7" "1044487" 8] by (simp add: secs_round_up_no_zero_eq bm_sectors_def in_reach_def)
qed

subsection \<open>Stages of the creation\<close>

text \<open>A context in a file without pending faults.\<close>

definition quiet :: "vhd_context \<Rightarrow> vfile \<Rightarrow> bool" where
  "quiet s f \<longleftrightarrow> cur_file s = Some f \<and> \<not> panicked s \<and> faults s = [] \<and> \<not> fblk f"

lemma quietD: "quiet s f \<Longrightarrow> cur_file s = Some f" "quiet s f \<Longrightarrow> \<not> panicked s" "quiet s f \<Longrightarrow> faults s = []" "quiet s f \<Longrightarrow> \<not> fblk f"
  by (simp_all add: quiet_def)

lemma quiet_upd [simp]:
  "quiet (s\<lparr>offset := k\<rparr>) f = quiet s f" "quiet (s\<lparr>batmap := b\<rparr>) f = quiet s f" "quiet (s\<lparr>ctx_bat := c\<rparr>) f = quiet s f"
  "quiet (s\<lparr>header := h\<rparr>) f = quiet s f" "quiet (s\<lparr>footer := ft\<rparr>) f = quiet s f"
  by (simp_all add: quiet_def)

lemma put_file_upd [simp]:
  "put_file g (s\<lparr>batmap := b\<rparr>) = (put_file g s)\<lparr>batmap := b\<rparr>" "put_file g (s\<lparr>ctx_bat := c\<rparr>) = (put_file g s)\<lparr>ctx_bat := c\<rparr>"
  by (simp_all add: put_file_def split: option.splits)

lemma quiet_put: "quiet s f \<Longrightarrow> fblk g = fblk f \<Longrightarrow> quiet (put_file g s) g"
  by (simp add: quiet_def cur_file_put_file)

lemma version_1_3: "\<not> VHD_VERSION 1 3 \<le> VHD_VERSION 0 1" "VHD_VERSION 1 2 \<le> VHD_VERSION 1 3"
  by (simp_all add: VHD_VERSION_def word_le_nat_alt)

lemma wp_has_batmap_new: "footer s = new_footer e n \<Longrightarrow> wp vhd_has_batmap Q s = Q True s"
  by (simp add: version_1_3 vhd_has_batmap_def wp_simps vhd_type_dynamic_def vhd_creator_tapdisk_def str_bytes_def)

lemma bmh_for_wf: "batmap_header_wf (bmh_for e n)" "length (batmap_header_bytes (vhd_batmap_header_out (bmh_for e n))) = 512"
proof -
  show "batmap_header_wf (bmh_for e n)"
    using batmap_header_wf_bytes [of "replicate 512 0"]
    by (simp add: bmh_for_def batmap_for_def zero_batmap_header_def batmap_header_wf_def VHD_BATMAP_COOKIE_def str_bytes_def)
  then show "length (batmap_header_bytes (vhd_batmap_header_out (bmh_for e n))) = 512" by (rule bmh.length_store)
qed

lemma wp_write_batmap_new:
  assumes "in_reach n" "quiet s f" "footer s = new_footer e n" "header s = header_for n"
  shows "wp (vhd_write_batmap (batmap_for n)) Q s = Q 0 (put_file (fwrite (fwrite f (2048 + bat_len n) (replicate (bm_len n) 0))
      (1536 + bat_len n) (batmap_header_bytes (vhd_batmap_header_out (bmh_for e n)))) s\<lparr>offset := 2048 + bat_len n\<rparr>)"
proof -
  note r = reach_sizes [OF assms(1)]
  have o: "to_off64 (of_nat (2048 + bat_len n)) = int (2048 + bat_len n)" using r(4,5) by (subst to_off64_small) simp_all
  have h: "(bm_header (batmap_for n))\<lparr>bmh_checksum := vhd_checksum_batmap (new_footer e n) (batmap_for n)\<rparr> = bmh_for e n"
    by (simp add: bmh_for_def)
  have h2: "batmap_offset (bmh_for e n) = of_nat (2048 + bat_len n)" "batmap_size (bmh_for e n) = of_nat (bm_sectors n)"
    by (simp_all add: bmh_for_def)
  have v: "bm_sectors n < 36028797018963968" "0 < bm_len n"
    using bm_sectors_le(1) [of n] assms(1) by (simp add: in_reach_def) (simp add: bm_len_def)
  have ne: "batmap_header_bytes (vhd_batmap_header_out (bmh_for e n)) \<noteq> []" using bmh_for_wf(2) [of e n] by auto
  show ?thesis
    using assms(3,4) quietD [OF assms(2)] r(5) ne v bm_sectors_ge [of n]
    by (simp add: vhd_write_batmap_def wp_simps wp_ok Let_def wp_has_batmap_new h h2 o r(1-4,7-) bmh_for_wf cur_file_put_file del: of_nat_add)
qed

lemma wp_create_batmap_new:
  assumes "in_reach n" "quiet s f" "footer s = new_footer e n" "header s = header_for n"
  shows "wp vhd_create_batmap Q s = Q 0 (put_file (fwrite (fwrite f (2048 + bat_len n) (replicate (bm_len n) 0)) (1536 + bat_len n)
      (batmap_header_bytes (vhd_batmap_header_out (bmh_for e n)))) s\<lparr>batmap := batmap_for n, offset := 2048 + bat_len n\<rparr>)"
proof -
  note r = reach_sizes [OF assms(1)]
  have m: "u32 (n + 7) = n + 7" "bm_sectors n < 36028797018963968"
    using assms(1) bm_sectors_le(1) [of n] by (simp_all add: in_reach_def)
  have b: "bm\<lparr>bm_header := zero_batmap_header\<lparr>bmh_cookie := VHD_BATMAP_COOKIE, batmap_offset := 2048 + word_of_nat (bat_len n),
      batmap_size := word_of_nat (bm_sectors n), batmap_version := VHD_VERSION 1 2\<rparr>,
      bm_map := Some (replicate (bm_sectors n * 512) 0)\<rparr> = batmap_for n" for bm :: vhd_batmap
    by (simp add: batmap_for_def)
  have w: "wp (vhd_write_batmap (batmap_for n)) Q (s\<lparr>batmap := batmap_for n\<rparr>) = Q 0 (put_file (fwrite (fwrite f (2048 + bat_len n) (replicate (bm_len n) 0))
      (1536 + bat_len n) (batmap_header_bytes (vhd_batmap_header_out (bmh_for e n)))) (s\<lparr>batmap := batmap_for n\<rparr>)\<lparr>offset := 2048 + bat_len n\<rparr>)"
    by (rule wp_write_batmap_new) (use assms in simp_all)
  show ?thesis
    using assms(3,4) quietD [OF assms(2)] w
    by (simp add: vhd_create_batmap_def wp_simps wp_ok Let_def vhd_type_dynamic_def r m b)
qed

definition bat_for :: "nat \<Rightarrow> 32 word list" where
  "bat_for n = replicate n DD_BLK_UNUSED @ replicate (bat_len n div 4 - n) 0"

lemma length_bat_for: "4 * length (bat_for n) = bat_len n" "n \<le> length (bat_for n)"
proof -
  have "bat_len n = 4 * (bat_len n div 4)" unfolding bat_len_def by simp
  then show "4 * length (bat_for n) = bat_len n" using bat_len_ge(1) [of n] by (simp add: bat_for_def)
  show "n \<le> length (bat_for n)" by (simp add: bat_for_def)
qed

lemma wp_create_bat_new:
  assumes "in_reach n" "quiet s f" "footer s = new_footer e n" "header s = header_for n"
  shows "wp vhd_create_bat Q s = Q 0 (put_file (fwrite f 1536 (bytes_of (vhd_bat_out n (bat_for n)))) s
    \<lparr>ctx_bat := \<lparr> bat_spb = 4096, entries = n, bat = Some (bat_for n) \<rparr>, offset := 1536 + bat_len n\<rparr>)"
proof -
  note r = reach_sizes [OF assms(1)]
  have l: "length (bytes_of (vhd_bat_out n (bat_for n))) = bat_len n"
    using length_bat_for [of n] by (simp add: vhd_bat_out_def)
  then have ne: "bytes_of (vhd_bat_out n (bat_for n)) \<noteq> []" using r(6) by auto
  have c: "c\<lparr>bat := Some (bat_for n), entries := n, bat_spb := 4096\<rparr> = \<lparr> bat_spb = 4096, entries = n, bat = Some (bat_for n) \<rparr>" for c :: vhd_bat
    by (cases c) simp
  show ?thesis
    using assms(3,4) quietD [OF assms(2)] l ne length_bat_for(1) [of n]
    by (simp add: vhd_create_bat_def vhd_write_bat_def vhd_validate_bat_def wp_simps wp_ok Let_def vhd_type_dynamic_def r to_off64_small
        bat_for_def [symmetric] c)
qed

definition sealed_footer :: "vhd_footer \<Rightarrow> vhd_footer" where
  "sealed_footer f = f\<lparr>ftr_checksum := vhd_checksum_footer f\<rparr>"

definition sealed_header :: "vhd_header \<Rightarrow> vhd_header" where
  "sealed_header h = h\<lparr>hdr_checksum := vhd_checksum_header h\<rparr>"

lemma wp_write_footer_at_new:
  assumes "footer_ok h" "quiet s f" "0 \<le> off" "off < 9223372036854775808"
  shows "wp (vhd_write_footer_at h off) Q s =
    Q 0 (put_file (fwrite f (nat off) (footer_bytes (vhd_footer_out (sealed_footer h)))) s\<lparr>offset := nat off + 512\<rparr>)"
proof -
  have l: "length (footer_bytes (vhd_footer_out (sealed_footer h))) = 512"
    by (rule ftr.length_store) (use assms(1) in \<open>simp add: footer_ok_def footer_wf_def sealed_footer_def\<close>)
  then have ne: "footer_bytes (vhd_footer_out (sealed_footer h)) \<noteq> []" by auto
  show ?thesis
    using assms(1,3,4) quietD [OF assms(2)] l ne
    by (simp add: vhd_write_footer_at_def wp_simps wp_ok Let_def footer_ok_def sealed_footer_def)
qed

lemma header_for_ok: "header_wf (header_for n)" "vhd_validate_header (sealed_header (header_for n)) = 0"
proof -
  show "header_wf (header_for n)"
    using header_wf_bytes_header [of "replicate 1024 0"]
    by (simp add: header_for_def new_header_def zero_header_def header_wf_def DD_COOKIE_def str_bytes_def)
  have "isPowerOf2 0x00200000" by (simp add: isPowerOf2_def)
  then show "vhd_validate_header (sealed_header (header_for n)) = 0"
    unfolding sealed_header_def validate_header_sealed
    using zero_header_loc by (auto simp: header_for_def new_header_def vhd_validate_platform_code_def)
qed

lemma wp_write_header_at_new:
  assumes "quiet s f" "vhd_type_dynamic s" "0 \<le> off" "off < 9223372036854775808"
  shows "wp (vhd_write_header_at (header_for n) off) Q s =
    Q 0 (put_file (fwrite f (nat off) (header_bytes (vhd_header_out (sealed_header (header_for n))))) s\<lparr>offset := nat off + 1024\<rparr>)"
proof -
  have l: "length (header_bytes (vhd_header_out (sealed_header (header_for n)))) = 1024"
    by (rule hdr.length_store) (use header_for_ok(1) [of n] in \<open>simp add: header_wf_def sealed_header_def\<close>)
  then have ne: "header_bytes (vhd_header_out (sealed_header (header_for n))) \<noteq> []" by auto
  show ?thesis
    using assms(2-) quietD [OF assms(1)] l ne header_for_ok(2) [of n]
    by (simp add: vhd_write_header_at_def wp_simps wp_ok Let_def sealed_header_def)
qed

lemma put_file_hdr [simp]:
  "put_file g (s\<lparr>header := h\<rparr>) = (put_file g s)\<lparr>header := h\<rparr>" "put_file g (s\<lparr>footer := ft\<rparr>) = (put_file g s)\<lparr>footer := ft\<rparr>"
  by (simp_all add: put_file_def split: option.splits)

text \<open>The file that creation leaves behind.\<close>

definition new_file :: "os_env \<Rightarrow> nat \<Rightarrow> vfile \<Rightarrow> vfile" where
  "new_file e n f =
     (let g = fwrite (fwrite f (2048 + bat_len n) (replicate (bm_len n) 0)) (1536 + bat_len n)
                (batmap_header_bytes (vhd_batmap_header_out (bmh_for e n)));
          g = fwrite g 1536 (bytes_of (vhd_bat_out n (bat_for n)));
          g = fwrite g 0 (footer_bytes (vhd_footer_out (sealed_footer (new_footer e n))));
          g = fwrite g 512 (header_bytes (vhd_header_out (sealed_header (header_for n))))
      in fwrite g (fsize g) (footer_bytes (vhd_footer_out (sealed_footer (new_footer e n)))))"

lemma wp_create_metadata_new:
  assumes "in_reach n" "quiet s f" "footer s = (new_footer e n)\<lparr>ftr_data_offset := 0xFFFFFFFFFFFFFFFF\<rparr>"
  shows "wp (create_metadata None (n * 2097152) HD_TYPE_DYNAMIC flags) Q s = Q (0, 0)
    (put_file (fwrite (fwrite (fwrite f (2048 + bat_len n) (replicate (bm_len n) 0)) (1536 + bat_len n)
      (batmap_header_bytes (vhd_batmap_header_out (bmh_for e n)))) 1536 (bytes_of (vhd_bat_out n (bat_for n)))) s
      \<lparr>header := header_for n, footer := new_footer e n, batmap := batmap_for n,
       ctx_bat := \<lparr> bat_spb = 4096, entries = n, bat = Some (bat_for n) \<rparr>, offset := 1536 + bat_len n\<rparr>)"
proof -
  note r = reach_sizes [OF assms(1)]
  have b: "blocks_of (unat (of_nat (n * 2097152) :: 64 word)) = n"
    unfolding r(1) using assms(1) by (simp add: blocks_of_def in_reach_def)
  have f: "(new_footer e n)\<lparr>ftr_data_offset := 512\<rparr> = new_footer e n" by (simp add: new_footer_def)
  define g where "g = fwrite (fwrite f (2048 + bat_len n) (replicate (bm_len n) 0)) (1536 + bat_len n)
      (batmap_header_bytes (vhd_batmap_header_out (bmh_for e n)))"
  define s1 where "s1 = s\<lparr>header := header_for n, footer := new_footer e n\<rparr>"
  define s2 where "s2 = put_file g s1\<lparr>batmap := batmap_for n, offset := 2048 + bat_len n\<rparr>"
  have q: "quiet s1 f" using assms(2) by (simp add: s1_def)
  have 1: "wp vhd_create_batmap R s1 = R 0 s2" for R
    unfolding s2_def g_def by (rule wp_create_batmap_new [OF assms(1) q]) (simp_all add: s1_def)
  have q2: "quiet s2 g" using quiet_put [OF q, of g] by (simp add: s2_def g_def)
  have 2: "wp vhd_create_bat R s2 = R 0 (put_file (fwrite g 1536 (bytes_of (vhd_bat_out n (bat_for n)))) s2
    \<lparr>ctx_bat := \<lparr> bat_spb = 4096, entries = n, bat = Some (bat_for n) \<rparr>, offset := 1536 + bat_len n\<rparr>)" for R
    by (rule wp_create_bat_new [OF assms(1) q2]) (simp_all add: s2_def s1_def)
  have 3: "put_file h s2\<lparr>ctx_bat := c, offset := k\<rparr> = put_file h s
      \<lparr>header := header_for n, footer := new_footer e n, batmap := batmap_for n, ctx_bat := c, offset := k\<rparr>" for h c k
    by (simp add: s2_def s1_def)
  have lt: "\<not> 4294967295 < n" using assms(1) by (simp add: in_reach_def)
  show ?thesis
    using assms(3) b unfolding g_def [symmetric]
    by (simp add: create_metadata_def vhd_initialize_header_def wp_simps Let_def vhd_type_dynamic_def header_for_def [symmetric]
      f lt s1_def [symmetric] 1 2 3)
qed

lemma new_footer_ok: "length (env_uuid_generate e) = 16 \<Longrightarrow> footer_ok (new_footer e n)"
  using footer_wf_bytes_footer [of "replicate 512 0"] validate_footer_sealed [of "new_footer e n"]
  by (simp add: footer_ok_def) (simp add: new_footer_def footer_wf_def zero_footer_def HD_COOKIE_def str_bytes_def)

lemma wp_create_footers_new:
  assumes "quiet s f" "footer s = new_footer e n" "header s = header_for n" "\<not> is_block s" "length (env_uuid_generate e) = 16"
    and "fsize f < 4611686018427387904"
  shows "\<exists>k. \<forall>Q. wp (create_footers HD_TYPE_DYNAMIC) Q s = Q 0 (put_file
    (let g = fwrite (fwrite f 0 (footer_bytes (vhd_footer_out (sealed_footer (new_footer e n))))) 512
        (header_bytes (vhd_header_out (sealed_header (header_for n))))
     in fwrite g (fsize g) (footer_bytes (vhd_footer_out (sealed_footer (new_footer e n))))) s\<lparr>offset := k\<rparr>)"
proof -
  note ok = new_footer_ok [OF assms(5), of n]
  define g where "g = fwrite f 0 (footer_bytes (vhd_footer_out (sealed_footer (new_footer e n))))"
  define h where "h = fwrite g 512 (header_bytes (vhd_header_out (sealed_header (header_for n))))"
  have q1: "quiet (put_file g s\<lparr>offset := 512\<rparr>) g" using quiet_put [OF assms(1), of g] by (simp add: g_def)
  then have q2: "quiet (put_file h s\<lparr>offset := k\<rparr>) h" for k using quiet_put [OF assms(1), of h] by (simp add: h_def g_def)
  have "fsize g \<le> max (fsize f) 512"
    using fsize_fwrite [of "footer_bytes (vhd_footer_out (sealed_footer (new_footer e n)))" f 0] ftr.length_store [of "sealed_footer (new_footer e n)"] ok
    by (cases "footer_bytes (vhd_footer_out (sealed_footer (new_footer e n))) = []") (auto simp: g_def footer_ok_def footer_wf_def sealed_footer_def)
  moreover have "fsize h \<le> max (fsize g) 1536"
    using fsize_fwrite [of "header_bytes (vhd_header_out (sealed_header (header_for n)))" g 512] hdr.length_store [of "sealed_header (header_for n)"] header_for_ok(1) [of n]
    by (cases "header_bytes (vhd_header_out (sealed_header (header_for n))) = []") (auto simp: h_def header_wf_def sealed_header_def)
  ultimately have sz: "fsize h < 9223372036854775808" using assms(6) by simp
  have 1: "wp (vhd_write_footer_at (new_footer e n) 0) Q s = Q 0 (put_file g s\<lparr>offset := 512\<rparr>)" for Q
    using wp_write_footer_at_new [OF ok assms(1), of 0 Q] by (simp add: g_def)
  have 2: "wp (vhd_write_header_at (header_for n) 512) Q (put_file g s\<lparr>offset := 512\<rparr>) = Q 0 (put_file h s\<lparr>offset := 1536\<rparr>)" for Q
    using wp_write_header_at_new [OF q1, of 512 n Q] assms(2) by (simp add: h_def vhd_type_dynamic_def)
  have 3: "wp (vhd_write_footer_at (new_footer e n) (int (fsize h))) Q (put_file h s\<lparr>offset := fsize h\<rparr>)
      = Q 0 (put_file (fwrite h (fsize h) (footer_bytes (vhd_footer_out (sealed_footer (new_footer e n))))) s\<lparr>offset := fsize h + 512\<rparr>)" for Q
    using wp_write_footer_at_new [OF ok q2 [of "fsize h"], of "int (fsize h)" Q] sz by simp
  show ?thesis
    using assms(2-4) quietD(1) [OF q2, of 1536] sz
    by (intro exI [of _ "fsize h + 512"]) (simp add: create_footers_def wp_simps wp_ok 1 2 3 g_def [symmetric] h_def [symmetric])
qed

subsection \<open>Creation without faults\<close>

text \<open>An operating system in which an image of that name can be created.\<close>

definition creatable :: "vhd_context \<Rightarrow> string \<Rightarrow> bool" where
  "creatable s name \<longleftrightarrow> \<not> panicked s \<and> faults s = [] \<and> length name < MAX_NAME_LEN \<and> length (env_uuid_generate (env s)) = 16 \<and>
     (case files s name of None \<Rightarrow> True | Some f \<Rightarrow> \<not> fblk f)"

definition blank_file :: "vhd_context \<Rightarrow> string \<Rightarrow> vfile" where
  "blank_file s name = (case files s name of None \<Rightarrow> \<lparr> fdata = (\<lambda>_. 0), fsize = 0, fblk = False \<rparr> | Some f \<Rightarrow> ftrunc f 0)"

lemma blank_file_sel: "creatable s name \<Longrightarrow> \<not> fblk (blank_file s name)" "fsize (blank_file s name) = 0"
  by (auto simp: creatable_def blank_file_def ftrunc_def split: option.splits)

definition made :: "vhd_context \<Rightarrow> string \<Rightarrow> nat \<Rightarrow> vhd_context" where
  "made s name n = (clear_ctx s)\<lparr>files := (files s)(name \<mapsto> new_file (env s) n (blank_file s name))\<rparr>"

lemma fsize_tables:
  assumes "in_reach n" "fsize f = 0"
  shows "fsize (fwrite (fwrite (fwrite f (2048 + bat_len n) (replicate (bm_len n) 0)) (1536 + bat_len n)
      (batmap_header_bytes (vhd_batmap_header_out (bmh_for e n)))) 1536 (bytes_of (vhd_bat_out n (bat_for n)))) = 2048 + bat_len n + bm_len n"
proof -
  have l: "length (bytes_of (vhd_bat_out n (bat_for n))) = bat_len n"
    using length_bat_for [of n] by (simp add: vhd_bat_out_def)
  have ne: "bytes_of (vhd_bat_out n (bat_for n)) \<noteq> []" "batmap_header_bytes (vhd_batmap_header_out (bmh_for e n)) \<noteq> []"
    "replicate (bm_len n) (0 :: byte) \<noteq> []"
    using l reach_sizes(6) [OF assms(1)] bmh_for_wf(2) [of e n] by (auto simp: bm_len_def)
  show ?thesis using assms(2) l bmh_for_wf(2) [of e n] by (simp add: fsize_fwrite [OF ne(1)] fsize_fwrite [OF ne(2)] fsize_fwrite [OF ne(3)])
qed

lemma run_vhd_create:
  assumes c: "creatable s name" and n: "n = blocks_of bytes" "in_reach n"
  shows "run_state (vhd_create name bytes HD_TYPE_DYNAMIC 0 flags) s = (0, made s name n)"
proof -
  let ?e = "env s" and ?b = "blank_file s name"
  define T where "T = fwrite (fwrite (fwrite ?b (2048 + bat_len n) (replicate (bm_len n) 0)) (1536 + bat_len n)
      (batmap_header_bytes (vhd_batmap_header_out (bmh_for ?e n)))) 1536 (bytes_of (vhd_bat_out n (bat_for n)))"
  define s1 where "s1 = (clear_ctx s)\<lparr>files := (files s)(name \<mapsto> ?b), fd := Some name\<rparr>"
  define s2 where "s2 = s1\<lparr>file_name := name, is_block := False, footer := (new_footer ?e n)\<lparr>ftr_data_offset := 0xFFFFFFFFFFFFFFFF\<rparr>\<rparr>"
  define s3 where "s3 = put_file T s2\<lparr>header := header_for n, footer := new_footer ?e n, batmap := batmap_for n,
       ctx_bat := \<lparr> bat_spb = 4096, entries = n, bat = Some (bat_for n) \<rparr>, offset := 1536 + bat_len n\<rparr>"
  have cr: "wp (sys_create name) Q (clear_ctx s) = Q 0 s1" for Q
    using c by (simp add: wp_def sys_create_def pop_fault_def clear_ctx_def creatable_def s1_def blank_file_def errno_of_def split: option.splits)
  have q2: "quiet s2 ?b" using c blank_file_sel [of s name]
    by (simp add: quiet_def s2_def s1_def cur_file_def clear_ctx_def creatable_def)
  have u: "u64 (n * 2097152) = n * 2097152" using n(2) by (simp add: in_reach_def)
  have 1: "wp (create_metadata None (n * 2097152) HD_TYPE_DYNAMIC flags) Q s2 = Q (0, 0) s3" for Q
    unfolding s3_def T_def by (rule wp_create_metadata_new [OF n(2) q2]) (simp add: s2_def)
  have q3: "quiet s3 T" using quiet_put [OF q2, of T] by (simp add: s3_def T_def)
  have sz: "fsize T < 4611686018427387904"
    unfolding T_def using fsize_tables [OF n(2) blank_file_sel(2), of s name ?e] reach_sizes(5) [OF n(2)] n(2) bm_len_le [of n] div_le_dividend [of n 8]
    unfolding in_reach_def by linarith
  obtain k where 2: "\<And>Q. wp (create_footers HD_TYPE_DYNAMIC) Q s3 = Q 0 (put_file (new_file ?e n ?b) s3\<lparr>offset := k\<rparr>)"
    using wp_create_footers_new [OF q3 _ _ _ _ sz, of ?e n] c
    by (auto simp: s3_def s2_def s1_def creatable_def new_file_def Let_def T_def)
  have z: "clear_ctx (put_file (new_file ?e n ?b) s3\<lparr>offset := k\<rparr>) = made s name n"
    by (simp add: s3_def s2_def s1_def made_def clear_ctx_def put_file_def)
  have f: "files s1 name = Some ?b" "faults s1 = []" "env s1 = ?e"
    using c by (simp_all add: s1_def clear_ctx_def creatable_def)
  have s2: "s1\<lparr>file_name := name, is_block := fblk ?b, footer := zero_footer
     \<lparr>ftr_cookie := HD_COOKIE, features := 0x00000002, ff_version := 0x00010000, timestamp := vhd_time (env_time ?e),
      crtr_ver := VHD_VERSION 1 3, crtr_os := 0, orig_size := of_nat n * 2097152, curr_size := of_nat n * 2097152,
      geometry := vhd_chs (n * 2097152), ftr_type := HD_TYPE_DYNAMIC, saved := 0, ftr_data_offset := 0xFFFFFFFFFFFFFFFF,
      crtr_app := str_bytes ''tap'' @ [0], uuid := env_uuid_generate ?e\<rparr>\<rparr> = s2"
    using blank_file_sel(1) [OF c] by (simp add: s2_def new_footer_def)
  have l: "\<not> 1023 \<le> length name" "\<not> is_block (made s name n)" using c by (simp_all add: creatable_def made_def clear_ctx_def)
  have "wp (vhd_create name bytes HD_TYPE_DYNAMIC 0 flags) (\<lambda>r t. r = 0 \<and> t = made s name n) s"
    by (simp add: vhd_create_def vhd_create_impl_def create_body_def vhd_initialize_footer_def vhd_close_def wp_simps wp_ok cr Let_def
        n(1) [symmetric] u f s2 1 2 z l)
  then show ?thesis by (simp add: wp_def split: prod.splits)
qed

subsection \<open>What the new file holds\<close>

lemma fread_fwrite_same: "length bs = m \<Longrightarrow> fread (fwrite f off bs) off m = bs"
  by (intro nth_equalityI) (auto simp: fbyte_fwrite)

lemma fread_fwrite_apart: "apart off (length bs) a m \<Longrightarrow> fread (fwrite f off bs) a m = fread f a m"
  by (intro fread_eqI) (auto simp: fbyte_fwrite apart_def)

lemma new_file_parts:
  assumes "in_reach n" "fsize f = 0" "\<not> fblk f" "length (env_uuid_generate e) = 16"
  shows "fsize (new_file e n f) = 2560 + bat_len n + bm_len n" "\<not> fblk (new_file e n f)"
    "fread (new_file e n f) (2048 + bat_len n + bm_len n) 512 = footer_bytes (vhd_footer_out (sealed_footer (new_footer e n)))"
    "fread (new_file e n f) 512 1024 = header_bytes (vhd_header_out (sealed_header (header_for n)))"
    "fread (new_file e n f) 1536 (bat_len n) = bytes_of (vhd_bat_out n (bat_for n))"
    "fread (new_file e n f) (1536 + bat_len n) 512 = batmap_header_bytes (vhd_batmap_header_out (bmh_for e n))"
    "fread (new_file e n f) (2048 + bat_len n) (bm_len n) = replicate (bm_len n) 0"
proof -
  let ?F = "footer_bytes (vhd_footer_out (sealed_footer (new_footer e n)))"
  let ?H = "header_bytes (vhd_header_out (sealed_header (header_for n)))"
  let ?B = "bytes_of (vhd_bat_out n (bat_for n))"
  let ?M = "batmap_header_bytes (vhd_batmap_header_out (bmh_for e n))"
  have F: "length ?F = 512" using ftr.length_store [of "sealed_footer (new_footer e n)"] new_footer_ok [OF assms(4), of n]
    by (simp add: footer_ok_def footer_wf_def sealed_footer_def)
  have H: "length ?H = 1024" using hdr.length_store [of "sealed_header (header_for n)"] header_for_ok(1) [of n]
    by (simp add: header_wf_def sealed_header_def)
  have B: "length ?B = bat_len n" using length_bat_for [of n] by (simp add: vhd_bat_out_def)
  note M = bmh_for_wf(2) [of e n]
  have b: "512 \<le> bat_len n" "0 < bm_len n" using reach_sizes(6) [OF assms(1)] by (simp_all add: bm_len_def)
  define T where "T = fwrite (fwrite (fwrite f (2048 + bat_len n) (replicate (bm_len n) 0)) (1536 + bat_len n) ?M) 1536 ?B"
  define G where "G = fwrite (fwrite T 0 ?F) 512 ?H"
  have fT: "fsize T = 2048 + bat_len n + bm_len n" unfolding T_def by (rule fsize_tables [OF assms(1,2)])
  have "?F \<noteq> []" "?H \<noteq> []" using F H by auto
  then have fG: "fsize G = 2048 + bat_len n + bm_len n" using F H b by (simp add: G_def fsize_fwrite fT)
  have N: "new_file e n f = fwrite G (2048 + bat_len n + bm_len n) ?F"
    by (simp add: new_file_def T_def [symmetric] G_def [symmetric] fG Let_def)
  show "fsize (new_file e n f) = 2560 + bat_len n + bm_len n" using F fsize_fwrite [OF \<open>?F \<noteq> []\<close>] fG by (simp add: N)
  show "\<not> fblk (new_file e n f)" using assms(3) by (simp add: N G_def T_def)
  show "fread (new_file e n f) (2048 + bat_len n + bm_len n) 512 = ?F" by (simp add: N fread_fwrite_same F)
  show "fread (new_file e n f) 512 1024 = ?H"
    using b by (simp add: N fread_fwrite_apart apart_def F) (simp add: G_def fread_fwrite_same H)
  show "fread (new_file e n f) 1536 (bat_len n) = ?B"
    using b by (simp add: N G_def fread_fwrite_apart apart_def F H) (unfold T_def, rule fread_fwrite_same [OF B])
  show "fread (new_file e n f) (1536 + bat_len n) 512 = ?M"
    using b by (simp add: N G_def T_def fread_fwrite_apart apart_def F H B [simplified]) (simp add: fread_fwrite_same M)
  show "fread (new_file e n f) (2048 + bat_len n) (bm_len n) = replicate (bm_len n) 0"
    using b by (simp add: N G_def T_def fread_fwrite_apart apart_def F H B [simplified] M) (simp add: fread_fwrite_same)
qed

subsection \<open>Opening the new file\<close>

lemma words_of_bytes_of: "words_of (bytes_of ws) = ws"
proof -
  have "buf_get (bytes_of ws) (4 * i) 4 = le_bytes 4 (ws ! i)" if "i < length ws" for i
    using that
  proof (induction ws arbitrary: i)
    case (Cons w ws)
    show ?case
    proof (cases i)
      case 0 then show ?thesis by (simp add: bytes_of_def buf_get_def)
    next
      case (Suc j)
      then have "buf_get (bytes_of (w # ws)) (4 * i) 4 = buf_get (bytes_of ws) (4 * j) 4"
        by (simp add: bytes_of_def buf_get_def)
      then show ?thesis using Cons Suc by simp
    qed
  qed simp
  then show ?thesis by (intro nth_equalityI) (simp_all add: words_of_def)
qed

lemma bat_in_out: "n \<le> length ws \<Longrightarrow> vhd_bat_in n (vhd_bat_out n ws) = ws"
  by (simp add: vhd_bat_in_def vhd_bat_out_def comp_def)

definition opened :: "vhd_context \<Rightarrow> string \<Rightarrow> nat \<Rightarrow> nat \<Rightarrow> vhd_context" where
  "opened s name n k = (made s name n)\<lparr>oflags := VHD_OPEN_RDWR, file_name := name, fd := Some name, is_block := False,
     footer := sealed_footer (new_footer (env s) n), header := sealed_header (header_for n), spb := 4096, bm_secs := 1,
     ctx_bat := \<lparr> bat_spb = 4096, entries = n, bat = Some (bat_for n) \<rparr>, offset := k\<rparr>"

definition open_image :: "string \<Rightarrow> int vhd" where
  "open_image name = do {
     err \<leftarrow> vhd_open name VHD_OPEN_RDWR;
     if err \<noteq> 0 then ret err else vhd_get_bat
   }"

lemma bm_len_small: "in_reach n \<Longrightarrow> bm_len n \<le> 131583"
  using bm_len_le [of n] div_le_mono [of n 1044480 8] by (simp add: in_reach_def)

text \<open>A file with these contents, and the structures that are loaded from it.\<close>

definition holds_new :: "os_env \<Rightarrow> nat \<Rightarrow> vfile \<Rightarrow> bool" where
  "holds_new e n N \<longleftrightarrow> in_reach n \<and> length (env_uuid_generate e) = 16 \<and> fsize N = 2560 + bat_len n + bm_len n \<and> \<not> fblk N \<and>
     fread N (2048 + bat_len n + bm_len n) 512 = footer_bytes (vhd_footer_out (sealed_footer (new_footer e n))) \<and>
     fread N 512 1024 = header_bytes (vhd_header_out (sealed_header (header_for n))) \<and>
     fread N 1536 (bat_len n) = bytes_of (vhd_bat_out n (bat_for n)) \<and>
     fread N (1536 + bat_len n) 512 = batmap_header_bytes (vhd_batmap_header_out (bmh_for e n)) \<and>
     fread N (2048 + bat_len n) (bm_len n) = replicate (bm_len n) 0"

lemma holds_newD:
  assumes "holds_new e n N"
  shows "in_reach n" "length (env_uuid_generate e) = 16" "fsize N = 2560 + bat_len n + bm_len n" "\<not> fblk N" "dev_end N = fsize N"
    "fsize N < 9223372036854775808" "512 \<le> bat_len n"
  using assms bm_len_small [of n] reach_sizes(5,6) [of n] by (auto simp: holds_new_def dev_end_def)

abbreviation the_footer :: "os_env \<Rightarrow> nat \<Rightarrow> vhd_footer" where
  "the_footer e n \<equiv> sealed_footer (new_footer e n)"

abbreviation the_header :: "nat \<Rightarrow> vhd_header" where
  "the_header n \<equiv> sealed_header (header_for n)"

lemma the_footer_sel [simp]:
  "ftr_type (the_footer e n) = HD_TYPE_DYNAMIC" "ftr_data_offset (the_footer e n) = 512" "ftr_cookie (the_footer e n) = HD_COOKIE"
  "crtr_ver (the_footer e n) = VHD_VERSION 1 3" "crtr_app (the_footer e n) = str_bytes ''tap'' @ [0]"
  "curr_size (the_footer e n) = of_nat (n * 2097152)"
  by (simp_all add: sealed_footer_def)

lemma the_header_sel [simp]:
  "block_size (the_header n) = 0x00200000" "max_bat_size (the_header n) = of_nat n" "table_offset (the_header n) = 1536"
  "loc (the_header n) = loc zero_header"
  by (simp_all add: sealed_header_def)

lemma the_header_load: "vhd_header_in (bytes_header (header_bytes (vhd_header_out (the_header n)))) = the_header n"
  using hdr.load_store_sealed [OF header_for_ok(1)] by (simp add: sealed_header_def)

lemma the_footer_load:
  assumes "length (env_uuid_generate e) = 16"
  shows "vhd_validate_footer (the_footer e n) = 0" "vhd_footer_in (bytes_footer (footer_bytes (vhd_footer_out (the_footer e n)))) = the_footer e n"
    "footer_wf (the_footer e n)"
proof -
  note ok = new_footer_ok [OF assms, of n]
  show "vhd_validate_footer (the_footer e n) = 0" using ok by (simp add: footer_ok_def sealed_footer_def)
  show "footer_wf (the_footer e n)" using ok by (simp add: footer_ok_def sealed_footer_def footer_wf_def)
  show "vhd_footer_in (bytes_footer (footer_bytes (vhd_footer_out (the_footer e n)))) = the_footer e n"
    using ftr.load_store_sealed [of "new_footer e n"] ok by (simp add: sealed_footer_def footer_ok_def)
qed

lemma the_footer_blks: "in_reach n \<Longrightarrow> vhd_blks (the_footer e n) = n"
  using reach_sizes(1) [of n] by (simp add: vhd_blks_def in_reach_def)

lemma wp_read_footer_new:
  assumes "holds_new e n N" "quiet s N"
  shows "wp (vhd_read_footer f0 False) Q s = Q (0, the_footer e n) (s\<lparr>offset := fsize N\<rparr>)"
proof -
  have nt: "nat (2048 + (int (bat_len n) + int (bm_len n))) = 2048 + bat_len n + bm_len n" by linarith
  show ?thesis
    using quietD [OF assms(2)] holds_newD [OF assms(1)] assms(1) the_footer_load [of e n]
    by (simp add: vhd_read_footer_def vhd_read_footer_at_def wp_simps wp_ok Let_def nt add.assoc holds_new_def)
qed

lemma wp_read_header_new:
  assumes "holds_new e n N" "quiet s N" "footer s = the_footer e n"
  shows "wp (read_header_retry 10 0) Q s = Q 0 (s\<lparr>offset := 1536, header := the_header n\<rparr>)"
proof -
  have "wp (vhd_read_header h0) R s = R (0, the_header n) (s\<lparr>offset := 1536\<rparr>)" for h0 R
    using quietD [OF assms(2)] holds_newD [OF assms(1)] assms(1,3) header_for_ok(2) [of n]
    by (simp add: vhd_read_header_def vhd_read_header_at_def wp_simps wp_ok Let_def vhd_type_dynamic_def to_off64_small holds_new_def the_header_load)
  moreover have ten: "(10::nat) = Suc 9" by simp
  ultimately show ?thesis unfolding ten read_header_retry.simps by (simp add: wp_simps)
qed

lemma wp_get_bat_new:
  assumes "holds_new e n N" "quiet s N" "footer s = the_footer e n" "header s = the_header n" "ctx_bat s = zero_bat"
  shows "wp vhd_get_bat Q s = Q 0 (s\<lparr>offset := 1536 + bat_len n, ctx_bat := \<lparr> bat_spb = 4096, entries = n, bat = Some (bat_for n) \<rparr>\<rparr>)"
  using quietD [OF assms(2)] holds_newD [OF assms(1)] assms(1,3-)
  by (simp add: vhd_get_bat_def vhd_put_bat_def vhd_read_bat_def wp_simps wp_ok Let_def vhd_type_dynamic_def vhd_validate_bat_def holds_new_def
        zero_bat_def the_footer_blks reach_sizes(2,7) to_off64_small words_of_bytes_of bat_in_out length_bat_for)

lemma wp_open_read_new:
  assumes "holds_new e n N" "quiet s N" "files s (file_name s) = Some N"
  shows "wp (vhd_open_read VHD_OPEN_RDWR) Q s = Q 0 (s\<lparr>is_block := False, footer := the_footer e n, offset := 1536, header := the_header n, spb := 4096, bm_secs := 1\<rparr>)"
proof -
  let ?s1 = "s\<lparr>is_block := False\<rparr>"
  let ?s2 = "s\<lparr>is_block := False, offset := fsize N, footer := the_footer e n\<rparr>"
  have q: "quiet ?s1 N" "quiet ?s2 N" using assms(2) by (simp_all add: quiet_def)
  have d: "\<not> vhd_disabled ?s2" "VHD_VERSION 1 3 \<noteq> 1" "secs_round_up_no_zero 512 = 1"
    by (simp_all add: vhd_disabled_def HD_COOKIE_def VHD_POISON_COOKIE_def str_bytes_def VHD_VERSION_def secs_round_up_no_zero_eq)
  show ?thesis
    using quietD(3,4) [OF assms(2)] assms(3) d
    by (simp add: vhd_open_read_def set_geometry_def wp_simps wp_ok wp_read_footer_new [OF assms(1) q(1)] wp_read_header_new [OF assms(1) q(2)]
        Let_def vhd_flag_test_def vhd_type_dynamic_def)
qed

lemma run_open_image:
  assumes c: "creatable s name" and n: "in_reach n"
  shows "\<exists>k. run_state (open_image name) (made s name n) = (0, opened s name n k)"
proof -
  let ?N = "new_file (env s) n (blank_file s name)"
  have u: "length (env_uuid_generate (env s)) = 16" "length name < 1000" using c by (simp_all add: creatable_def)
  have h: "holds_new (env s) n ?N"
    using new_file_parts [OF n blank_file_sel(2) blank_file_sel(1) [OF c] u(1)] n u(1) by (simp add: holds_new_def)
  define s0 where "s0 = (clear_ctx (made s name n))\<lparr>oflags := VHD_OPEN_RDWR, file_name := name, fd := Some name\<rparr>"
  define s3 where "s3 = s0\<lparr>is_block := False, footer := the_footer (env s) n, offset := 1536, header := the_header n, spb := 4096, bm_secs := 1\<rparr>"
  have q: "quiet s0 ?N" "files s0 (file_name s0) = Some ?N"
    using c holds_newD(4) [OF h] by (simp_all add: quiet_def s0_def made_def clear_ctx_def creatable_def cur_file_def)
  then have q3: "quiet s3 ?N" by (simp add: s3_def quiet_def)
  have m: "faults (clear_ctx (made s name n)\<lparr>oflags := 2\<rparr>) = []" "files (clear_ctx (made s name n)\<lparr>oflags := 2\<rparr>) name = Some ?N"
    using c by (simp_all add: made_def clear_ctx_def creatable_def)
  have 1: "wp (vhd_open name VHD_OPEN_RDWR) Q (made s name n) = Q 0 s3" for Q
    using m u(2) by (simp add: vhd_open_def namedup_def wp_simps wp_ok Let_def vhd_flag_test_def s0_def [symmetric] wp_open_read_new [OF h q] s3_def)
  have 2: "wp vhd_get_bat Q s3 = Q 0 (s3\<lparr>offset := 1536 + bat_len n, ctx_bat := \<lparr> bat_spb = 4096, entries = n, bat = Some (bat_for n) \<rparr>\<rparr>)" for Q
    by (rule wp_get_bat_new [OF h q3]) (simp_all add: s3_def s0_def clear_ctx_def)
  have "s3\<lparr>offset := 1536 + bat_len n, ctx_bat := \<lparr> bat_spb = 4096, entries = n, bat = Some (bat_for n) \<rparr>\<rparr> = opened s name n (1536 + bat_len n)"
    by (simp add: opened_def s3_def s0_def made_def clear_ctx_def)
  then have "wp (open_image name) (\<lambda>x t. x = 0 \<and> t = opened s name n (1536 + bat_len n)) (made s name n)"
    by (simp add: open_image_def wp_simps 1 2)
  then show ?thesis by (auto simp: wp_def split: prod.splits)
qed

subsection \<open>The new image is well-formed\<close>

lemma opened_sel [simp]:
  "footer (opened s name n k) = the_footer (env s) n" "header (opened s name n k) = the_header n" "spb (opened s name n k) = 4096"
  "bm_secs (opened s name n k) = 1" "ctx_bat (opened s name n k) = \<lparr> bat_spb = 4096, entries = n, bat = Some (bat_for n) \<rparr>"
  "\<not> is_block (opened s name n k)" "batmap (opened s name n k) = zero_batmap" "pagesize (opened s name n k) = pagesize s"
  "panicked (opened s name n k) = panicked s" "faults (opened s name n k) = faults s"
  "cur_file (opened s name n k) = Some (new_file (env s) n (blank_file s name))"
  by (simp_all add: opened_def made_def clear_ctx_def cur_file_def)

lemma opened_has_bm: "has_bm (opened s name n k)"
  using version_1_3(1) by (simp add: has_bm_def vhd_creator_tapdisk_def str_bytes_def not_le)

lemma opened_offsets:
  assumes "in_reach n"
  shows "tbl (opened s name n k) = 1536" "bm_hoff (opened s name n k) = 1536 + bat_len n" "batmap_map_size (the_footer e n) = bm_len n"
    "vhd_batmap_header_offset (the_header n) = int (1536 + bat_len n)"
proof -
  note r = reach_sizes [OF assms]
  show "tbl (opened s name n k) = 1536" by (simp add: tbl_def)
  then show "bm_hoff (opened s name n k) = 1536 + bat_len n" by (simp add: bm_hoff_def r(2,7))
  show "batmap_map_size (the_footer e n) = bm_len n" using r(10) [of e] by (simp add: batmap_map_size_def)
  show "vhd_batmap_header_offset (the_header n) = int (1536 + bat_len n)" using r(9) by (simp add: vhd_batmap_header_offset_def)
qed

lemma opened_geom:
  assumes c: "creatable s name" and n: "in_reach n" "blocks_ok_for_batmap n" and p: "512 \<le> pagesize s"
  shows "geom (new_layout n) (opened s name n k)"
proof -
  note r = reach_sizes [OF n(1)]
  note o = opened_offsets [OF n(1)]
  have u: "length (env_uuid_generate (env s)) = 16" using c by (simp add: creatable_def)
  have lo: "l_lo (new_layout n) * 512 = 2048 + bat_len n + bm_len n" "bm_sectors n * 512 = bm_len n"
    using bm_len_secs [OF n(2)] by (simp_all add: new_layout_def distrib_right) (simp add: bat_len_def)
  have "hdr_end (new_layout n) (opened s name n k) = int (l_lo (new_layout n) * 512)"
    unfolding hdr_end_def Let_def lo using r(5) bm_len_small [OF n(1)] bm_sectors_le [of n] n(1)
    by (simp add: locators_end_none [OF zero_header_loc] opened_has_bm o r(2,7) to_off64_small off_add_small new_layout_def lo(2) secs_round_up_no_zero_eq in_reach_def)
  moreover have "0 < pagesize s div 512" using p by (simp add: div_greater_zero_iff)
  moreover have "unat (of_nat (n * 2097152) :: 64 word) \<le> n * 4096 * 512" using r(1) by simp
  ultimately show ?thesis
    using the_footer_load(3) [OF u, of n] lo r(1,5-7) bm_len_small [OF n(1)] n version_1_3(2) bm_sectors_le(1) [of n]
    by (simp add: geom_def vhd_type_dynamic_def opened_has_bm o in_reach_def blocks_ok_for_batmap_def) (simp add: new_layout_def)
qed

lemma bat_for_unused: "i < n \<Longrightarrow> bat_for n ! i = DD_BLK_UNUSED" "take n (bat_for n) = replicate n DD_BLK_UNUSED" "unused n (bat_for n) = n"
proof -
  show a: "bat_for n ! i = DD_BLK_UNUSED" if "i < n" for i using that by (simp add: bat_for_def nth_append)
  show "take n (bat_for n) = replicate n DD_BLK_UNUSED" by (simp add: bat_for_def)
  have "{i. i < n \<and> bat_for n ! i = DD_BLK_UNUSED} = {..<n}" using a by auto
  then show "unused n (bat_for n) = n" by (simp add: unused_def)
qed

lemma length_disk_fields: "length (disk_fields L) = 12"
  by (simp add: disk_fields_def)

lemma fread_sub: "i + m \<le> l \<Longrightarrow> fread f (a + i) m = buf_get (fread f a l) i m"
  by (intro nth_equalityI) (simp_all add: add.assoc)

lemma opened_stored:
  assumes c: "creatable s name" and n: "in_reach n" "blocks_ok_for_batmap n" and p: "pagesize s = 4096"
  shows "stored (new_layout n) (opened s name n k) (new_file (env s) n (blank_file s name)) (bat_for n)"
proof -
  let ?N = "new_file (env s) n (blank_file s name)"
  have u: "length (env_uuid_generate (env s)) = 16" using c by (simp add: creatable_def)
  note r = reach_sizes [OF n(1)]
  note N = new_file_parts [OF n(1) blank_file_sel(2) blank_file_sel(1) [OF c] u]
  have "batmap_header_bytes (vhd_batmap_header_out (bmh_for (env s) n)) = bmh_cookie (bmh_for (env s) n) @ disk_fields (new_layout n)
      @ drop 20 (batmap_header_bytes (vhd_batmap_header_out (bmh_for (env s) n)))"
    using bmh_for_wf(1) [of "env s" n]
    by (simp add: batmap_header_bytes_def vhd_batmap_header_out_def disk_fields_def batmap_header_wf_def bmh_for_def new_layout_def)
  then have "buf_get (batmap_header_bytes (vhd_batmap_header_out (bmh_for (env s) n))) 8 12 = disk_fields (new_layout n)"
    using bmh_for_wf(1) [of "env s" n] by (metis batmap_header_wf_def buf_get_hd buf_get_skip diff_self_eq_0 length_disk_fields order_refl)
  then have "fread ?N (1544 + bat_len n) 12 = disk_fields (new_layout n)"
    using fread_sub [of 8 12 512 ?N "1536 + bat_len n"] N(6) by simp
  moreover have "l_lo (new_layout n) + n * 4105 \<le> 4294967295"
    using r(5) bm_sectors_le(1) [of n] n(1) div_le_mono [of "2048 + bat_len n" 4180479 512] by (simp add: new_layout_def in_reach_def)
  ultimately show ?thesis
    using N(2,7) length_bat_for [of n] p
    by (simp add: stored_def blocks_ok_def sound_def bat_for_unused opened_has_bm opened_offsets [OF n(1)] r(7) room_limit_def data_end_fresh)
      (simp add: new_layout_def)
qed

lemma opened_img:
  assumes "creatable s name" "in_reach n" "blocks_ok_for_batmap n" "pagesize s = 4096"
  shows "img (new_layout n) (opened s name n k) (new_file (env s) n (blank_file s name)) (bat_for n)"
  using opened_geom [OF assms(1-3), of k] opened_stored [OF assms, of k] assms(1,4)
  by (simp add: img_def creatable_def bm_ok_def zero_batmap_def)

lemma opened_represents:
  assumes "creatable s name" "in_reach n" "blocks_ok_for_batmap n" "pagesize s = 4096"
  shows "represents (new_layout n) (opened s name n k) (\<lambda>_. replicate 512 0, None)"
proof -
  let ?t = "opened s name n k"
  note i = opened_img [OF assms, of k]
  have "sector_of ?t j = None" for j
    by (cases "j div 4096 < n") (simp_all add: sector_of_img [OF i] view_def bat_for_unused)
  moreover have "tail_ok (new_layout n) ?t"
    unfolding tail_ok_img [OF i] using new_file_parts(1) [OF assms(2) blank_file_sel(2) blank_file_sel(1) [OF assms(1)]] assms(1) bm_len_secs [OF assms(3)]
    by (simp add: blocks_end_def bat_for_unused data_end_fresh creatable_def) (simp add: new_layout_def bat_len_def)
  ultimately show ?thesis using i file_of_img [OF i] by (auto simp: represents_def seen_def)
qed

lemma represents_faults: "represents L s A \<Longrightarrow> represents L (s\<lparr>faults := fl\<rparr>) A"
  by (erule represents_moved) simp

text \<open>The batmap of a new image, as it is loaded.\<close>

definition loaded_batmap :: "os_env \<Rightarrow> nat \<Rightarrow> vhd_batmap" where
  "loaded_batmap e n = \<lparr> bm_header = (bmh_for e n)\<lparr>bmh_res := replicate 418 0\<rparr>, bm_map = Some (replicate (bm_len n) 0) \<rparr>"

lemma loaded_batmap_valid:
  assumes "in_reach n"
  shows "vhd_validate_batmap (the_footer e n) (loaded_batmap e n) = 0" "vhd_validate_batmap_header (bm_header (loaded_batmap e n)) = 0"
proof -
  have "take (bm_len n) (replicate (bm_sectors n * 512) (0 :: byte)) = replicate (bm_len n) 0"
    using bm_sectors_ge [of n] by (simp add: min_def)
  then show "vhd_validate_batmap (the_footer e n) (loaded_batmap e n) = 0"
    using opened_offsets(3) [OF assms, of e] reach_sizes(10) [OF assms, of e]
    by (simp add: vhd_validate_batmap_def vhd_checksum_batmap_def loaded_batmap_def bmh_for_def batmap_for_def)
  show "vhd_validate_batmap_header (bm_header (loaded_batmap e n)) = 0"
    by (simp add: vhd_validate_batmap_header_def loaded_batmap_def bmh_for_def batmap_for_def)
qed

lemma wp_get_batmap_new:
  assumes h: "holds_new e n N" and q: "quiet s N" and s: "footer s = the_footer e n" "header s = the_header n" "batmap s = zero_batmap"
  shows "wp vhd_get_batmap Q s = Q 0 (s\<lparr>offset := 2048 + bat_len n + bm_len n, batmap := loaded_batmap e n\<rparr>)"
proof -
  note d = holds_newD [OF h]
  note r = reach_sizes [OF d(1)]
  note o = opened_offsets [OF d(1)]
  have hb: "wp vhd_has_batmap R t = R True t" if "footer t = the_footer e n" for R t
    using that version_1_3 by (simp add: vhd_has_batmap_def wp_simps vhd_type_dynamic_def vhd_creator_tapdisk_def str_bytes_def)
  have bh: "vhd_batmap_header_in (bytes_batmap_header (batmap_header_bytes (vhd_batmap_header_out (bmh_for e n)))) = (bmh_for e n)\<lparr>bmh_res := replicate 418 0\<rparr>"
    by (rule bmh.load_store [OF bmh_for_wf(1)])
  have hs: "batmap_offset (bmh_for e n) = of_nat (2048 + bat_len n)" "batmap_size (bmh_for e n) = of_nat (bm_sectors n)"
    "to_off64 (of_nat (2048 + bat_len n)) = int (2048 + bat_len n)"
    using r(4,5) by (simp_all add: bmh_for_def to_off64_small del: of_nat_add)
  have z: "vhd_validate_batmap f zero_batmap \<noteq> 0" for f by (simp add: vhd_validate_batmap_def zero_batmap_def)
  have t: "take 512 (batmap_header_bytes (vhd_batmap_header_out (bmh_for e n))) = batmap_header_bytes (vhd_batmap_header_out (bmh_for e n))"
    using bmh_for_wf(2) [of e n] by simp
  have vh: "vhd_validate_batmap_header ((bmh_for e n)\<lparr>bmh_res := replicate 418 0\<rparr>) = 0"
    using loaded_batmap_valid(2) [OF d(1), of e] by (simp add: loaded_batmap_def)
  have l: "zero_batmap\<lparr>bm_header := (bmh_for e n)\<lparr>bmh_res := replicate 418 0\<rparr>, bm_map := Some (replicate (bm_len n) 0)\<rparr> = loaded_batmap e n"
    by (simp add: loaded_batmap_def zero_batmap_def)
  have m: "bm_sectors n < 36028797018963968" "0 < bm_len n" using bm_sectors_le(1) [of n] d(1) by (simp add: in_reach_def) (simp add: bm_len_def)
  show ?thesis
    using quietD [OF q] d s h r(5) bm_sectors_ge [of n] m loaded_batmap_valid(1) [OF d(1), of e]
    by (simp add: vhd_get_batmap_def vhd_put_batmap_def vhd_read_batmap_def vhd_read_batmap_header_def vhd_read_batmap_map_def wp_simps wp_ok hb z o r(3,8) bh hs
      holds_new_def vhd_type_dynamic_def t vh l del: of_nat_add)
qed

subsection \<open>The marker\<close>

text \<open>An open image whose batmap's header lies at \<open>h\<close>.\<close>

definition batmap_at :: "vhd_context \<Rightarrow> vfile \<Rightarrow> nat \<Rightarrow> bool" where
  "batmap_at s f h \<longleftrightarrow> quiet s f \<and> vhd_type_dynamic s \<and> vhd_creator_tapdisk s \<and> VHD_VERSION 1 2 \<le> crtr_ver (footer s) \<and>
     vhd_batmap_header_offset (header s) = int h \<and> h + 512 \<le> fsize f \<and> h < 4611686018427387904"

definition marked_header :: "vfile \<Rightarrow> nat \<Rightarrow> byte \<Rightarrow> vhd_batmap_header" where
  "marked_header f h m = (vhd_batmap_header_in (bytes_batmap_header (fread f h 512)))\<lparr>marker := m\<rparr>"

definition marked_file :: "vfile \<Rightarrow> nat \<Rightarrow> byte \<Rightarrow> vfile" where
  "marked_file f h m = fwrite f h (buf_put (replicate 1024 0) 0 (batmap_header_bytes (vhd_batmap_header_out (marked_header f h m))))"

lemma version_order: "VHD_VERSION 1 2 \<le> v \<Longrightarrow> \<not> v \<le> VHD_VERSION 0 1"
  using order_trans [of "VHD_VERSION 1 2" v "VHD_VERSION 0 1"] by (simp add: VHD_VERSION_def word_le_nat_alt)

lemma wp_has_batmap_at: "batmap_at s f h \<Longrightarrow> wp vhd_has_batmap Q s = Q True s"
  using version_order [of "crtr_ver (footer s)"] by (simp add: batmap_at_def vhd_has_batmap_def wp_simps)

lemma marked_header_len: "length (batmap_header_bytes (vhd_batmap_header_out (marked_header f h m))) = 512" "batmap_header_wf (marked_header f h m)"
proof -
  show "batmap_header_wf (marked_header f h m)"
    using bmh.ok_load [of "fread f h 512"] by (simp add: marked_header_def batmap_header_wf_def)
  then show "length (batmap_header_bytes (vhd_batmap_header_out (marked_header f h m))) = 512" by (rule bmh.length_store)
qed

lemma padded_520: "vhd_bytes_padded 520 = 1024" "vhd_bytes_padded 512 = 512"
  by (simp_all add: vhd_bytes_padded_eq secs_round_up_no_zero_eq)

lemma wp_set_marker:
  assumes "batmap_at s f h"
  shows "wp (vhd_set_marker x m) Q s = Q 0 (put_file (marked_file f h m) s\<lparr>offset := h + 1024\<rparr>)"
proof -
  have q: "quiet s f" and b: "vhd_batmap_header_offset (header s) = int h" "h + 512 \<le> fsize f" "h < 4611686018427387904"
    using assms by (simp_all add: batmap_at_def)
  have l: "length (buf_put (replicate 1024 0) 0 (batmap_header_bytes (vhd_batmap_header_out (marked_header f h m)))) = 1024"
    using marked_header_len(1) [of f h m] by simp
  then have ne: "buf_put (replicate 1024 0) 0 (batmap_header_bytes (vhd_batmap_header_out (marked_header f h m))) \<noteq> []" by (metis list.size(3) zero_neq_numeral)
  have d: "dev_end f = fsize f" using quietD(4) [OF q] by (simp add: dev_end_def)
  show ?thesis
    using quietD [OF q] b d l ne
    by (simp add: vhd_set_marker_def vhd_read_batmap_header_def vhd_write_batmap_header_def wp_simps wp_ok wp_has_batmap_at [OF assms] Let_def padded_520
        marked_header_def [symmetric] marked_file_def)
qed

lemma marked_file_parts:
  "fread (marked_file f h m) h 512 = batmap_header_bytes (vhd_batmap_header_out (marked_header f h m))"
  "fread (marked_file f h m) (h + 512) 512 = replicate 512 0" "fsize f \<le> fsize (marked_file f h m)" "fblk (marked_file f h m) = fblk f"
proof -
  let ?b = "batmap_header_bytes (vhd_batmap_header_out (marked_header f h m))"
  have e: "buf_put (replicate 1024 0) 0 ?b = ?b @ replicate 512 0" using marked_header_len(1) [of f h m] by (simp add: buf_put_def)
  have "fread (marked_file f h m) h 1024 = ?b @ replicate 512 0"
    unfolding marked_file_def e by (rule fread_fwrite_same) (simp add: marked_header_len)
  then show "fread (marked_file f h m) h 512 = ?b" "fread (marked_file f h m) (h + 512) 512 = replicate 512 0"
    using fread_sub [of 0 512 1024 "marked_file f h m" h] fread_sub [of 512 512 1024 "marked_file f h m" h] marked_header_len(1) [of f h m]
    by (simp_all add: buf_get_def)
  show "fsize f \<le> fsize (marked_file f h m)" "fblk (marked_file f h m) = fblk f" by (simp_all add: marked_file_def fwrite_def)
qed

subsection \<open>Properties\<close>


lemma blank_creatable: "creatable blank_ctx ''/sr/n.vhd''"
  by (simp add: creatable_def blank_ctx_def sample_env_def)


text \<open>C22: A batmap that is too small.  For the other sizes, whose number of blocks leaves a remainder of 1 to 7 modulo
  4096, the batmap of a new image has fewer bits in memory than the disk has blocks: testing the bit of the last
  block is an access outside the map.\<close>

theorem created_batmap_overrun:
  assumes "creatable s name" "in_reach (blocks_of bytes)" "\<not> blocks_ok_for_batmap (blocks_of bytes)"
  shows "\<exists>t u v. run_state (vhd_create name bytes HD_TYPE_DYNAMIC 0 flags) s = (0, t) \<and> run_state (open_image name) t = (0, u) \<and>
    run_state vhd_get_batmap u = (0, v) \<and> \<not> panicked v \<and> panicked (snd (run_state (vhd_batmap_test (blocks_of bytes - 1)) v))"
proof -
  let ?n = "blocks_of bytes"
  obtain k where k: "run_state (open_image name) (made s name ?n) = (0, opened s name ?n k)"
    using run_open_image [OF assms(1,2)] by blast
  let ?u = "opened s name ?n k" and ?N = "new_file (env s) ?n (blank_file s name)"
  have u: "length (env_uuid_generate (env s)) = 16" "\<not> panicked s" "faults s = []" using assms(1) by (simp_all add: creatable_def)
  have h: "holds_new (env s) ?n ?N"
    using new_file_parts [OF assms(2) blank_file_sel(2) blank_file_sel(1) [OF assms(1)] u(1)] assms(2) u(1) by (simp add: holds_new_def)
  have q: "quiet ?u ?N" using u holds_newD(4) [OF h] by (simp add: quiet_def)
  define v where "v = ?u\<lparr>offset := 2048 + bat_len ?n + bm_len ?n, batmap := loaded_batmap (env s) ?n\<rparr>"
  have g: "run_state vhd_get_batmap ?u = (0, v)"
    using wp_get_batmap_new [OF h q, of "\<lambda>x t. x = 0 \<and> t = v"] by (auto simp: v_def wp_def split: prod.splits)
  have m: "bm_map (batmap v) = Some (replicate (bm_len ?n) 0)" "batmap_size (bm_header (batmap v)) = of_nat (bm_sectors ?n)" "footer v = the_footer (env s) ?n"
    by (simp_all add: v_def loaded_batmap_def bmh_for_def)
  have "?n \<le> bm_sectors ?n * 4096" "bm_sectors ?n \<le> 256"
    using bm_sectors_le(1) [of ?n] assms(2) by (auto simp: bm_sectors_def in_reach_def)
  then have b: "batmap_block_ok (batmap v) (?n - 1)"
    using assms(2) by (auto simp: batmap_block_ok_def m(2) reach_sizes(3) [OF assms(2)] u32_def in_reach_def)
  have "8 * bm_len ?n \<le> ?n - 1" using assms(3) by (simp add: blocks_ok_for_batmap_def)
  then have "\<not> (?n - 1) div 8 < bm_len ?n" by (simp add: div_less_iff_less_mult)
  then have "wp (vhd_batmap_test (?n - 1)) (\<lambda>_ t. panicked t) v"
    using m b version_1_3 by (simp add: vhd_batmap_test_def vhd_has_batmap_def wp_simps vhd_type_dynamic_def vhd_creator_tapdisk_def str_bytes_def)
  then have "panicked (snd (run_state (vhd_batmap_test (?n - 1)) v))" by (auto simp: wp_def split: prod.splits)
  moreover have "\<not> panicked v" using u by (simp add: v_def)
  ultimately show ?thesis using run_vhd_create [OF assms(1) refl assms(2)] k g by blast
qed

theorem created_batmap_overrun_witness:
  "\<exists>t u v. run_state (vhd_create ''/sr/n.vhd'' 8592031744 HD_TYPE_DYNAMIC 0 0) blank_ctx = (0, t) \<and> run_state (open_image ''/sr/n.vhd'') t = (0, u) \<and>
     run_state vhd_get_batmap u = (0, v) \<and> \<not> panicked v \<and> panicked (snd (run_state (vhd_batmap_test 4096) v))"
proof -
  have n: "blocks_of 8592031744 = 4097" by (simp add: blocks_of_def)
  then have "in_reach (blocks_of 8592031744)" "\<not> blocks_ok_for_batmap (blocks_of 8592031744)"
    by (simp_all add: in_reach_def blocks_ok_for_batmap_def bm_len_def)
  then show ?thesis using created_batmap_overrun [OF blank_creatable, of 8592031744 0] n by auto
qed

text \<open>C21: The marker is read back: after \<^verbatim>\<open>vhd_set_marker\<close> on an image with a batmap, \<^verbatim>\<open>vhd_marker\<close> returns the value set.\<close>

theorem marker_read_back:
  assumes "batmap_at s f h"
  shows "\<exists>t u. run_state (vhd_set_marker x m) s = (0, t) \<and> run_state (vhd_marker y) t = ((0, m), u)"
proof -
  let ?t = "put_file (marked_file f h m) s\<lparr>offset := h + 1024\<rparr>"
  have q: "quiet ?t (marked_file f h m)"
    using quiet_put [of s f "marked_file f h m"] marked_file_parts(4) [of f h m] assms by (simp add: batmap_at_def)
  then have b: "batmap_at ?t (marked_file f h m) h"
    using assms marked_file_parts(3) [of f h m] by (simp add: batmap_at_def vhd_type_dynamic_def vhd_creator_tapdisk_def)
  have d: "dev_end (marked_file f h m) = fsize (marked_file f h m)" using quietD(4) [OF q] by (simp add: dev_end_def)
  have "run_state (vhd_set_marker x m) s = (0, ?t)"
    using wp_set_marker [OF assms, of x m "\<lambda>r t. r = 0 \<and> t = ?t"] by (auto simp: wp_def split: prod.splits)
  moreover have "wp (vhd_marker y) (\<lambda>r _. r = (0, m)) ?t"
    using quietD [OF q] b d marked_file_parts(1) [of f h m] bmh.load_store [OF marked_header_len(2), of f h m] marked_header_len(1) [of f h m]
    by (simp add: vhd_marker_def vhd_read_batmap_header_def wp_simps wp_ok wp_has_batmap_at [OF b] padded_520 batmap_at_def)
      (simp add: marked_header_def)
  ultimately show ?thesis by (auto simp: wp_def split: prod.splits)
qed

text \<open>C23: Setting the marker wipes the batmap: the sector behind the header, where a new image has the first 4096 bits
  of the map, is zero afterwards.\<close>

theorem set_marker_wipes_map:
  assumes "batmap_at s f h"
  shows "\<exists>t. run_state (vhd_set_marker x m) s = (0, t) \<and> fread (file_of t) (h + 512) 512 = replicate 512 0"
proof -
  let ?t = "put_file (marked_file f h m) s\<lparr>offset := h + 1024\<rparr>"
  have "cur_file s = Some f" using assms by (simp add: batmap_at_def quiet_def)
  then have "cur_file ?t = Some (marked_file f h m)" by (simp add: cur_file_put_file)
  moreover have "run_state (vhd_set_marker x m) s = (0, ?t)"
    using wp_set_marker [OF assms, of x m "\<lambda>r t. r = 0 \<and> t = ?t"] by (auto simp: wp_def split: prod.splits)
  ultimately show ?thesis using marked_file_parts(2) [of f h m] by (simp add: file_of_def)
qed

lemma fresh_batmap_at: "batmap_at fresh_image fresh_file 2048"
  using version_1_3(2)
  by (simp add: batmap_at_def quiet_def vhd_type_dynamic_def vhd_creator_tapdisk_def str_bytes_def vhd_batmap_header_offset_def off_add_def to_off64_def
      vhd_bytes_padded_eq secs_round_up_no_zero_eq) (simp add: fresh_file_def)

theorem marker_read_back_witness:
  "\<exists>t u. run_state (vhd_set_marker 0 7) fresh_image = (0, t) \<and> run_state (vhd_marker (0, 0)) t = ((0, 7), u)"
  by (rule marker_read_back [OF fresh_batmap_at])

theorem set_marker_wipes_map_witness:
  "\<exists>t. run_state (vhd_set_marker 0 7) fresh_image = (0, t) \<and> fread (file_of t) 2560 512 = replicate 512 0"
  using set_marker_wipes_map [OF fresh_batmap_at, of 0 7] by simp





end
