(* ===== verification/Sched_Time.thy ===== *)
theory Sched_Time
  imports Blktap_Prelude
begin

text \<open>Times of the event scheduler (\<^verbatim>\<open>drivers/timeout-math.h\<close> over the macros of \<^verbatim>\<open>sys/time.h\<close>):
  seconds and microseconds as integers, ordered lexicographically.  The overflow of \<^verbatim>\<open>time_t\<close> is not
  modelled.\<close>

datatype timeval = TV (tv_sec: int) (tv_usec: int)

definition TV_INF :: timeval where "TV_INF = TV (-1) 0"

definition TV_IS_INF :: "timeval \<Rightarrow> bool" where "TV_IS_INF a \<longleftrightarrow> tv_sec a < 0"

definition TV_ZERO :: timeval where "TV_ZERO = TV 0 0"

definition TV_SECS :: "int \<Rightarrow> timeval" where "TV_SECS a = TV a 0"

text \<open>The comparison, sum and difference are \<^verbatim>\<open>timercmp\<close>, \<^verbatim>\<open>timeradd\<close> and \<^verbatim>\<open>timersub\<close>.\<close>

definition TV_BEFORE :: "timeval \<Rightarrow> timeval \<Rightarrow> bool" where
  "TV_BEFORE a b \<longleftrightarrow> (if tv_sec a = tv_sec b then tv_usec a < tv_usec b else tv_sec a < tv_sec b)"

definition TV_AFTER :: "timeval \<Rightarrow> timeval \<Rightarrow> bool" where
  "TV_AFTER a b \<longleftrightarrow> TV_BEFORE b a"

definition TV_MIN :: "timeval \<Rightarrow> timeval \<Rightarrow> timeval" where
  "TV_MIN a b = (if TV_BEFORE a b then a else b)"

definition TV_ADD :: "timeval \<Rightarrow> timeval \<Rightarrow> timeval" where
  "TV_ADD a b = (let s = tv_sec a + tv_sec b; u = tv_usec a + tv_usec b in
     if u \<ge> 1000000 then TV (s + 1) (u - 1000000) else TV s u)"

definition TV_SUB :: "timeval \<Rightarrow> timeval \<Rightarrow> timeval" where
  "TV_SUB a b = (let s = tv_sec a - tv_sec b; u = tv_usec a - tv_usec b in
     if u < 0 then TV (s - 1) (u + 1000000) else TV s u)"

instantiation timeval :: linorder
begin

definition less_timeval :: "timeval \<Rightarrow> timeval \<Rightarrow> bool" where
  "less_timeval a b = TV_BEFORE a b"

definition less_eq_timeval :: "timeval \<Rightarrow> timeval \<Rightarrow> bool" where
  "less_eq_timeval a b \<longleftrightarrow> a = b \<or> TV_BEFORE a b"

instance
  by intro_classes (auto simp: less_timeval_def less_eq_timeval_def TV_BEFORE_def timeval.expand split: if_splits)

end

lemma TV_BEFORE_less [simp]: "TV_BEFORE a b \<longleftrightarrow> a < b"
  by (simp add: less_timeval_def)

lemma TV_MIN_min [simp]: "TV_MIN a b = min a b"
  by (auto simp: TV_MIN_def min_def)

text \<open>A time is proper when its microseconds are below a second; then it is a number of microseconds.\<close>

definition proper :: "timeval \<Rightarrow> bool" where
  "proper a \<longleftrightarrow> 0 \<le> tv_usec a \<and> tv_usec a < 1000000"

definition usecs :: "timeval \<Rightarrow> int" where
  "usecs a = tv_sec a * 1000000 + tv_usec a"

lemma usecs_less:
  assumes "proper a" "proper b"
  shows "a < b \<longleftrightarrow> usecs a < usecs b"
proof -
  have ua: "0 \<le> tv_usec a" "tv_usec a < 1000000" "0 \<le> tv_usec b" "tv_usec b < 1000000"
    using assms by (simp_all add: proper_def)
  consider "tv_sec a + 1 \<le> tv_sec b" | "tv_sec a = tv_sec b" | "tv_sec b + 1 \<le> tv_sec a" by linarith
  then show ?thesis
    using ua by cases (simp_all add: less_timeval_def TV_BEFORE_def usecs_def del: TV_BEFORE_less)
qed

lemma usecs_eq: "proper a \<Longrightarrow> proper b \<Longrightarrow> a = b \<longleftrightarrow> usecs a = usecs b"
  using usecs_less [of a b] usecs_less [of b a] by (metis less_irrefl neqE)

lemma usecs_le: "proper a \<Longrightarrow> proper b \<Longrightarrow> a \<le> b \<longleftrightarrow> usecs a \<le> usecs b"
  by (auto simp: le_less usecs_less usecs_eq)

lemma TV_ADD_usecs [simp]: "usecs (TV_ADD a b) = usecs a + usecs b"
  by (simp add: TV_ADD_def usecs_def Let_def)

lemma TV_SUB_usecs [simp]: "usecs (TV_SUB a b) = usecs a - usecs b"
  by (simp add: TV_SUB_def usecs_def Let_def)

lemma TV_ADD_proper [simp]: "proper a \<Longrightarrow> proper b \<Longrightarrow> proper (TV_ADD a b)"
  by (simp add: TV_ADD_def proper_def Let_def)

lemma TV_SUB_proper [simp]: "proper a \<Longrightarrow> proper b \<Longrightarrow> proper (TV_SUB a b)"
  by (simp add: TV_SUB_def proper_def Let_def)

lemma proper_secs [simp]: "proper (TV_SECS n)" "proper TV_ZERO" "proper TV_INF"
  by (simp_all add: proper_def TV_SECS_def TV_ZERO_def TV_INF_def)

lemma usecs_secs [simp]: "usecs (TV_SECS n) = n * 1000000" "usecs TV_ZERO = 0"
  by (simp_all add: usecs_def TV_SECS_def TV_ZERO_def)

end
