(* ===== verification/Scheduler.thy ===== *)
theory Scheduler
  imports Sched_Time
begin

text \<open>The event scheduler of tapdisk (\<^verbatim>\<open>drivers/scheduler.c\<close>): events that wait for descriptors or
  deadlines, and the loop around \<^verbatim>\<open>select\<close>.

  The environment is part of the state: what \<^verbatim>\<open>gettimeofday\<close> returns, call by call, and the outcomes of
  the coming \<^verbatim>\<open>select\<close> calls.  Callbacks are a parameter of the operations that run them; a callback may
  use every operation of the scheduler, the loop included.  \<open>called\<close> records the callbacks that were
  invoked.  \<open>None\<close> is the result of code that does not return: \<^verbatim>\<open>td_panic\<close> (the macro \<^verbatim>\<open>BUG_ON\<close>), the use of a
  descriptor outside an \<^verbatim>\<open>fd_set\<close>, a callback that does not return.  Event identifiers are 32-bit
  integers; the code never computes one outside that range, so that they are integers here.\<close>

record event =
  ev_mode :: byte
  ev_dead :: bool
  ev_pending :: byte
  ev_masked :: bool
  ev_id :: int
  ev_fd :: int
  ev_timeout :: timeval
  ev_deadline :: timeval
  ev_cb :: nat
  ev_private :: nat

text \<open>An error number, or the descriptors that are ready among those asked for.\<close>

datatype select_outcome = SelFail int | SelReady "int set" "int set" "int set"

record scheduler =
  read_fds :: "int set"
  write_fds :: "int set"
  except_fds :: "int set"
  events :: "event list"
  uuid :: int
  uuid_overflow :: bool
  max_fd :: int
  sched_timeout :: timeval
  max_timeout :: timeval
  depth :: int
  clk :: "nat \<Rightarrow> timeval"
  ticks :: nat
  selects :: "select_outcome list"
  called :: "(int \<times> byte) list"

type_synonym callbacks = "nat \<Rightarrow> int \<Rightarrow> byte \<Rightarrow> nat \<Rightarrow> scheduler \<Rightarrow> scheduler option"

abbreviation (input) SCHEDULER_POLL_READ_FD :: byte where "SCHEDULER_POLL_READ_FD \<equiv> 0x1"
abbreviation (input) SCHEDULER_POLL_WRITE_FD :: byte where "SCHEDULER_POLL_WRITE_FD \<equiv> 0x2"
abbreviation (input) SCHEDULER_POLL_EXCEPT_FD :: byte where "SCHEDULER_POLL_EXCEPT_FD \<equiv> 0x4"
abbreviation (input) SCHEDULER_POLL_FD :: byte where "SCHEDULER_POLL_FD \<equiv> 0x7"
abbreviation (input) SCHEDULER_POLL_TIMEOUT :: byte where "SCHEDULER_POLL_TIMEOUT \<equiv> 0x8"
abbreviation (input) SCHEDULER_MAX_TIMEOUT :: int where "SCHEDULER_MAX_TIMEOUT \<equiv> 600"
abbreviation (input) INT_MAX :: int where "INT_MAX \<equiv> 2147483647"
abbreviation (input) FD_SETSIZE :: int where "FD_SETSIZE \<equiv> 1024"

definition mode_has :: "event \<Rightarrow> byte \<Rightarrow> bool" where
  "mode_has e b \<longleftrightarrow> and (ev_mode e) b \<noteq> 0"

definition gettimeofday :: "scheduler \<Rightarrow> timeval \<times> scheduler" where
  "gettimeofday s = (clk s (ticks s), s\<lparr>ticks := Suc (ticks s)\<rparr>)"

definition BUG_ON :: "bool \<Rightarrow> unit option" where
  "BUG_ON c = (if c then None else Some ())"

definition scheduler_initialize :: "scheduler \<Rightarrow> scheduler" where
  "scheduler_initialize s = s\<lparr>read_fds := {}, write_fds := {}, except_fds := {}, events := [], uuid := 1,
     uuid_overflow := False, max_fd := 0, sched_timeout := TV_ZERO, max_timeout := TV_ZERO, depth := 0\<rparr>"

subsection \<open>Before and after select\<close>

text \<open>A descriptor added to one of the sets: \<^verbatim>\<open>FD_SET\<close> is undefined from \<^verbatim>\<open>FD_SETSIZE\<close> on.\<close>

definition poll_fd :: "byte \<Rightarrow> event \<Rightarrow> int set \<times> int \<Rightarrow> (int set \<times> int) option" where
  "poll_fd b e x = (case x of (fds, m) \<Rightarrow>
     if mode_has e b \<and> ev_fd e \<ge> 0
     then do { BUG_ON (ev_fd e \<ge> FD_SETSIZE); Some (insert (ev_fd e) fds, max (ev_fd e) m) }
     else Some (fds, m))"

definition poll_timeout :: "timeval \<Rightarrow> event \<Rightarrow> timeval \<Rightarrow> timeval" where
  "poll_timeout now e t =
     (if mode_has e SCHEDULER_POLL_TIMEOUT \<and> \<not> TV_IS_INF (ev_timeout e)
      then let diff = TV_SUB (ev_deadline e) now in if TV_AFTER diff TV_ZERO then TV_MIN t diff else TV_ZERO
      else t)"

definition prepare_event :: "timeval \<Rightarrow> event \<Rightarrow> scheduler \<Rightarrow> scheduler option" where
  "prepare_event now e s =
     (if ev_masked e \<or> ev_dead e then Some s
      else do {
        (r, m) \<leftarrow> poll_fd SCHEDULER_POLL_READ_FD e (read_fds s, max_fd s);
        (w, m) \<leftarrow> poll_fd SCHEDULER_POLL_WRITE_FD e (write_fds s, m);
        (x, m) \<leftarrow> poll_fd SCHEDULER_POLL_EXCEPT_FD e (except_fds s, m);
        Some (s\<lparr>read_fds := r, write_fds := w, except_fds := x, max_fd := m,
               sched_timeout := poll_timeout now e (sched_timeout s)\<rparr>)
      })"

fun prepare_list :: "timeval \<Rightarrow> event list \<Rightarrow> scheduler \<Rightarrow> scheduler option" where
  "prepare_list now [] s = Some s"
| "prepare_list now (e # es) s = do { s \<leftarrow> prepare_event now e s; prepare_list now es s }"

definition scheduler_prepare_events :: "scheduler \<Rightarrow> scheduler option" where
  "scheduler_prepare_events s = do {
     let s = s\<lparr>read_fds := {}, write_fds := {}, except_fds := {}, max_fd := -1,
               sched_timeout := TV_SECS SCHEDULER_MAX_TIMEOUT\<rparr>;
     let (now, s) = gettimeofday s;
     s \<leftarrow> prepare_list now (events s) s;
     Some (s\<lparr>sched_timeout := TV_MIN (sched_timeout s) (max_timeout s)\<rparr>)
   }"

text \<open>One kind of readiness: the descriptor is taken out of the set and the event becomes pending.\<close>

definition poll_ready :: "byte \<Rightarrow> event \<times> int set \<times> int \<Rightarrow> event \<times> int set \<times> int" where
  "poll_ready b x = (case x of (e, fds, n) \<Rightarrow>
     if mode_has e b \<and> ev_fd e \<in> fds
     then (e\<lparr>ev_pending := or (ev_pending e) b\<rparr>, fds - {ev_fd e}, n - 1) else (e, fds, n))"

definition bad_fd :: "event \<Rightarrow> bool" where
  "bad_fd e \<longleftrightarrow> mode_has e SCHEDULER_POLL_FD \<and> (ev_fd e < 0 \<or> FD_SETSIZE \<le> ev_fd e)"

text \<open>\<^verbatim>\<open>FD_ISSET\<close> is undefined on a bad descriptor.\<close>

definition check_fd_event :: "event \<Rightarrow> scheduler \<Rightarrow> int \<Rightarrow> (event \<times> scheduler \<times> int) option" where
  "check_fd_event e s nfds =
     (if ev_dead e then Some (e, s, nfds)
      else do {
        BUG_ON (bad_fd e);
        let (e, r, nfds) = poll_ready SCHEDULER_POLL_READ_FD (e, read_fds s, nfds);
        let (e, w, nfds) = poll_ready SCHEDULER_POLL_WRITE_FD (e, write_fds s, nfds);
        let (e, x, nfds) = poll_ready SCHEDULER_POLL_EXCEPT_FD (e, except_fds s, nfds);
        Some (e, s\<lparr>read_fds := r, write_fds := w, except_fds := x\<rparr>, nfds)
      })"

fun check_fd_list :: "event list \<Rightarrow> scheduler \<Rightarrow> int \<Rightarrow> (event list \<times> scheduler \<times> int) option" where
  "check_fd_list [] s nfds = Some ([], s, nfds)"
| "check_fd_list (e # es) s nfds =
     (if nfds = 0 then Some (e # es, s, nfds)
      else do {
        (e, s, nfds) \<leftarrow> check_fd_event e s nfds;
        (es, s, nfds) \<leftarrow> check_fd_list es s nfds;
        Some (e # es, s, nfds)
      })"

definition scheduler_check_fd_events :: "scheduler \<Rightarrow> int \<Rightarrow> (int \<times> scheduler) option" where
  "scheduler_check_fd_events s nfds = do {
     (es, s, nfds) \<leftarrow> check_fd_list (events s) s nfds;
     Some (nfds, s\<lparr>events := es\<rparr>)
   }"

definition check_timeout :: "timeval \<Rightarrow> event \<Rightarrow> event option" where
  "check_timeout now e = do {
     BUG_ON (ev_pending e \<noteq> 0 \<and> ev_masked e);
     if ev_dead e then Some e
     else if ev_pending e \<noteq> 0 then Some e
     else if \<not> mode_has e SCHEDULER_POLL_TIMEOUT then Some e
     else if TV_IS_INF (ev_timeout e) then Some e
     else if TV_BEFORE now (ev_deadline e) then Some e
     else Some (e\<lparr>ev_pending := SCHEDULER_POLL_TIMEOUT\<rparr>)
   }"

fun check_timeout_list :: "timeval \<Rightarrow> event list \<Rightarrow> event list option" where
  "check_timeout_list now [] = Some []"
| "check_timeout_list now (e # es) = do {
     e \<leftarrow> check_timeout now e;
     es \<leftarrow> check_timeout_list now es;
     Some (e # es)
   }"

definition scheduler_check_timeouts :: "scheduler \<Rightarrow> scheduler option" where
  "scheduler_check_timeouts s = do {
     let (now, s) = gettimeofday s;
     es \<leftarrow> check_timeout_list now (events s);
     Some (s\<lparr>events := es\<rparr>)
   }"

definition scheduler_check_events :: "scheduler \<Rightarrow> int \<Rightarrow> (int \<times> scheduler) option" where
  "scheduler_check_events s nfds = do {
     (nfds, s) \<leftarrow> (if nfds \<noteq> 0 then scheduler_check_fd_events s nfds else Some (nfds, s));
     s \<leftarrow> scheduler_check_timeouts s;
     Some (nfds, s)
   }"

subsection \<open>Running events\<close>

definition scheduler_event_callback :: "callbacks \<Rightarrow> nat \<Rightarrow> byte \<Rightarrow> scheduler \<Rightarrow> scheduler option" where
  "scheduler_event_callback cbf i mode s =
     (let e = events s ! i;
          s = (if mode_has e SCHEDULER_POLL_TIMEOUT \<and> \<not> TV_IS_INF (ev_timeout e)
               then case gettimeofday s of (now, s) \<Rightarrow>
                    s\<lparr>events := (events s)[i := e\<lparr>ev_deadline := TV_ADD now (ev_timeout e)\<rparr>]\<rparr>
               else s)
      in if \<not> ev_masked e
         then cbf (ev_cb e) (ev_id e) mode (ev_private e) (s\<lparr>called := called s @ [(ev_id e, mode)]\<rparr>)
         else Some s)"

text \<open>The loop walks the list while callbacks may append to it.\<close>

partial_function (option) run_events_from :: "callbacks \<Rightarrow> nat \<Rightarrow> nat \<Rightarrow> scheduler \<Rightarrow> (nat \<times> scheduler) option" where
  [code]: "run_events_from cbf i n s =
     (if i < length (events s) then
        let e = events s ! i in
        if ev_dead e then run_events_from cbf (i + 1) n s
        else if ev_pending e = 0 then run_events_from cbf (i + 1) n s
        else Option.bind
               (scheduler_event_callback cbf i (ev_pending e)
                  (s\<lparr>events := (events s)[i := e\<lparr>ev_pending := 0\<rparr>]\<rparr>))
               (\<lambda>s. run_events_from cbf (i + 1) (n + 1) s)
      else Some (n, s))"

definition scheduler_run_events :: "callbacks \<Rightarrow> scheduler \<Rightarrow> (nat \<times> scheduler) option" where
  "scheduler_run_events cbf s = run_events_from cbf 0 0 s"

subsection \<open>Registration\<close>

definition next_uuid :: "int \<Rightarrow> int" where
  "next_uuid u = (if u = INT_MAX then 1 else u + 1)"

text \<open>The search for an identifier no event has; \<open>None\<close> means that the fuel has run out.\<close>

primrec find_uuid :: "nat \<Rightarrow> event list \<Rightarrow> int \<Rightarrow> int option" where
  "find_uuid 0 es u = (if list_ex (\<lambda>e. ev_id e = u) es then None else Some u)"
| "find_uuid (Suc n) es u = (if list_ex (\<lambda>e. ev_id e = u) es then find_uuid n es (next_uuid u) else Some u)"

definition scheduler_get_event_uuid :: "scheduler \<Rightarrow> (int \<times> scheduler) option" where
  "scheduler_get_event_uuid s =
     (let s = (if uuid s \<le> 0 then s\<lparr>uuid := 1, uuid_overflow := True\<rparr> else s) in
      case (if uuid_overflow s then find_uuid (length (events s)) (events s) (uuid s) else Some (uuid s)) of
        None \<Rightarrow> None
      | Some u \<Rightarrow> Some (u, if u = INT_MAX then s\<lparr>uuid_overflow := True, uuid := 1\<rparr> else s\<lparr>uuid := u + 1\<rparr>))"

text \<open>\<open>cb\<close> zero is a null callback; \<open>mem\<close> says whether the allocation succeeds.\<close>

definition scheduler_register_event ::
    "bool \<Rightarrow> scheduler \<Rightarrow> byte \<Rightarrow> int \<Rightarrow> timeval \<Rightarrow> nat \<Rightarrow> nat \<Rightarrow> (int \<times> scheduler) option" where
  "scheduler_register_event mem s mode fd timeout cb private =
     (if cb = 0 then Some (- EINVAL, s)
      else if and mode SCHEDULER_POLL_TIMEOUT = 0 \<and> and mode SCHEDULER_POLL_FD = 0 then Some (- EINVAL, s)
      else if \<not> mem then Some (- ENOMEM, s)
      else case gettimeofday s of (now, s) \<Rightarrow>
        (case scheduler_get_event_uuid s of
           None \<Rightarrow> None
         | Some (u, s) \<Rightarrow>
             Some (u, s\<lparr>events := events s @ [\<lparr> ev_mode = mode, ev_dead = False, ev_pending = 0, ev_masked = False,
               ev_id = u, ev_fd = fd, ev_timeout = timeout,
               ev_deadline = (if TV_IS_INF timeout then TV_INF else TV_ADD now timeout),
               ev_cb = cb, ev_private = private \<rparr>]\<rparr>)))"

text \<open>Apply a change to the first event with an identifier.\<close>

fun upd_first :: "int \<Rightarrow> (event \<Rightarrow> event) \<Rightarrow> event list \<Rightarrow> event list" where
  "upd_first u f [] = []"
| "upd_first u f (e # es) = (if ev_id e = u then f e # es else e # upd_first u f es)"

definition scheduler_unregister_event :: "scheduler \<Rightarrow> int \<Rightarrow> scheduler" where
  "scheduler_unregister_event s u =
     (if u = 0 then s else s\<lparr>events := upd_first u (\<lambda>e. e\<lparr>ev_dead := True\<rparr>) (events s)\<rparr>)"

definition scheduler_mask_event :: "scheduler \<Rightarrow> int \<Rightarrow> int \<Rightarrow> scheduler" where
  "scheduler_mask_event s u masked =
     (if u = 0 then s else s\<lparr>events := upd_first u (\<lambda>e. e\<lparr>ev_masked := (masked \<noteq> 0)\<rparr>) (events s)\<rparr>)"

definition scheduler_gc_events :: "scheduler \<Rightarrow> scheduler" where
  "scheduler_gc_events s = s\<lparr>events := filter (\<lambda>e. \<not> ev_dead e) (events s)\<rparr>"

definition scheduler_set_max_timeout :: "scheduler \<Rightarrow> timeval \<Rightarrow> scheduler" where
  "scheduler_set_max_timeout s timeout =
     (if \<not> TV_IS_INF timeout then s\<lparr>max_timeout := TV_MIN (max_timeout s) timeout\<rparr> else s)"

definition scheduler_event_set_timeout :: "scheduler \<Rightarrow> int \<Rightarrow> timeval \<Rightarrow> int \<times> scheduler" where
  "scheduler_event_set_timeout s u timeo =
     (if u = 0 then (- EINVAL, s)
      else case List.find (\<lambda>e. ev_id e = u) (events s) of
        None \<Rightarrow> (- ENOENT, s)
      | Some e \<Rightarrow>
          if \<not> mode_has e SCHEDULER_POLL_TIMEOUT then (- EINVAL, s)
          else if TV_IS_INF timeo
          then (0, s\<lparr>events := upd_first u (\<lambda>e. e\<lparr>ev_timeout := timeo, ev_deadline := TV_INF\<rparr>) (events s)\<rparr>)
          else case gettimeofday s of (now, s) \<Rightarrow>
            (0, s\<lparr>events := upd_first u (\<lambda>e. e\<lparr>ev_timeout := timeo, ev_deadline := TV_ADD now timeo\<rparr>) (events s)\<rparr>))"

subsection \<open>The loop\<close>

text \<open>\<^verbatim>\<open>select\<close> is repeated while it is interrupted; without another outcome it times out.\<close>

fun select_loop :: "select_outcome list \<Rightarrow> scheduler \<Rightarrow> int \<times> scheduler" where
  "select_loop [] s = (0, s\<lparr>read_fds := {}, write_fds := {}, except_fds := {}, selects := []\<rparr>)"
| "select_loop (SelFail e # os) s = (if e = EINTR then select_loop os s else (neg_errno e, s\<lparr>selects := os\<rparr>))"
| "select_loop (SelReady r w x # os) s =
     (let r = r \<inter> read_fds s; w = w \<inter> write_fds s; x = x \<inter> except_fds s in
      (int (card r + card w + card x), s\<lparr>read_fds := r, write_fds := w, except_fds := x, selects := os\<rparr>))"

definition leave :: "scheduler \<Rightarrow> scheduler" where
  "leave s = s\<lparr>depth := depth s - 1\<rparr>"

definition scheduler_wait_for_events :: "callbacks \<Rightarrow> scheduler \<Rightarrow> (int \<times> scheduler) option" where
  "scheduler_wait_for_events cbf s = do {
     let s = s\<lparr>depth := depth s + 1\<rparr>;
     (n, s) \<leftarrow> (if depth s > 1 then scheduler_run_events cbf s else Some (0, s));
     if n \<noteq> 0 then Some (0, leave s)
     else do {
       s \<leftarrow> scheduler_prepare_events s;
       let (ret, s) = select_loop (selects s) s;
       if ret < 0 then Some (ret, leave s)
       else do {
         (ret, s) \<leftarrow> scheduler_check_events s ret;
         BUG_ON (ret \<noteq> 0);
         let s = s\<lparr>sched_timeout := TV_SECS SCHEDULER_MAX_TIMEOUT, max_timeout := TV_SECS SCHEDULER_MAX_TIMEOUT\<rparr>;
         (_, s) \<leftarrow> scheduler_run_events cbf s;
         let s = (if depth s = 1 then scheduler_gc_events s else s);
         Some (ret, leave s)
       }
     }
   }"

text \<open>A callback may wait for events itself: its body is given the function to call.  \<open>wait_nested body k\<close>
  is the wait whose callbacks nest further waits up to \<open>k\<close> levels deep.\<close>

primrec wait_nested ::
    "((scheduler \<Rightarrow> (int \<times> scheduler) option) \<Rightarrow> callbacks) \<Rightarrow> nat \<Rightarrow> scheduler \<Rightarrow> (int \<times> scheduler) option" where
  "wait_nested body 0 s = None"
| "wait_nested body (Suc k) s = scheduler_wait_for_events (body (wait_nested body k)) s"

end
