(* ===== verification/Sched_Loop.thy ===== *)
theory Sched_Loop
  imports Scheduler
begin

text \<open>What every run of the scheduler keeps.  User code, the callbacks included, reaches the scheduler
  through its operations only (\<open>api\<close>); a relation that holds across each operation and each inner step
  of the wait holds across every run, at any depth of nested waits (locale \<open>loop_relation\<close>).\<close>

inductive api_call :: "(scheduler \<Rightarrow> (int \<times> scheduler) option) \<Rightarrow> scheduler \<Rightarrow> scheduler \<Rightarrow> bool"
  for wait_fn where
  register: "scheduler_register_event mem s mode fd timeout cb private = Some (r, t) \<Longrightarrow> api_call wait_fn s t"
| unregister: "api_call wait_fn s (scheduler_unregister_event s u)"
| mask: "api_call wait_fn s (scheduler_mask_event s u m)"
| set_max: "api_call wait_fn s (scheduler_set_max_timeout s tv)"
| set_timeout: "scheduler_event_set_timeout s u tv = (r, t) \<Longrightarrow> api_call wait_fn s t"
| wait: "wait_fn s = Some (r, t) \<Longrightarrow> api_call wait_fn s t"

abbreviation api :: "(scheduler \<Rightarrow> (int \<times> scheduler) option) \<Rightarrow> scheduler \<Rightarrow> scheduler \<Rightarrow> bool" where
  "api wait_fn \<equiv> (api_call wait_fn)\<^sup>*\<^sup>*"

text \<open>Callbacks that change the scheduler through its operations only.\<close>

definition uses_api :: "((scheduler \<Rightarrow> (int \<times> scheduler) option) \<Rightarrow> callbacks) \<Rightarrow> bool" where
  "uses_api body \<longleftrightarrow> (\<forall>w c u m p s t. body w c u m p s = Some t \<longrightarrow> api w s t)"

text \<open>The parts of the state that the bookkeeping around \<^verbatim>\<open>select\<close> leaves alone, and the changes that an
  operation makes to an event it keeps.\<close>

definition same_core :: "scheduler \<Rightarrow> scheduler \<Rightarrow> bool" where
  "same_core s t \<longleftrightarrow> events t = events s \<and> uuid t = uuid s \<and> uuid_overflow t = uuid_overflow s
     \<and> depth t = depth s \<and> called t = called s"

definition follows :: "event \<Rightarrow> event \<Rightarrow> bool" where
  "follows e e' \<longleftrightarrow> ev_id e' = ev_id e \<and> ev_cb e' = ev_cb e \<and> ev_private e' = ev_private e \<and> ev_mode e' = ev_mode e
     \<and> ev_fd e' = ev_fd e \<and> (ev_dead e \<longrightarrow> ev_dead e')"

definition same_events :: "scheduler \<Rightarrow> scheduler \<Rightarrow> bool" where
  "same_events s t \<longleftrightarrow> list_all2 follows (events s) (events t) \<and> uuid t = uuid s \<and> uuid_overflow t = uuid_overflow s
     \<and> depth t = depth s \<and> called t = called s"

lemma follows_refl [simp]: "follows e e"
  by (simp add: follows_def)

lemma follows_trans: "follows a b \<Longrightarrow> follows b c \<Longrightarrow> follows a c"
  by (simp add: follows_def)

lemma list_follows_refl [simp]: "list_all2 follows es es"
  by (rule list_all2_refl) simp

lemma list_follows_trans: "list_all2 follows a b \<Longrightarrow> list_all2 follows b c \<Longrightarrow> list_all2 follows a c"
  by (rule list_all2_trans [OF follows_trans])

lemma same_core_events: "same_core s t \<Longrightarrow> same_events s t"
  by (simp add: same_core_def same_events_def)

lemma same_events_refl [simp]: "same_events s s"
  by (simp add: same_events_def)

lemma same_events_trans: "same_events a b \<Longrightarrow> same_events b c \<Longrightarrow> same_events a c"
  by (auto simp: same_events_def intro: list_follows_trans)

lemma list_follows_update: "i < length es \<Longrightarrow> follows (es ! i) e \<Longrightarrow> list_all2 follows es (es[i := e])"
  by (metis list_all2_update_cong list_follows_refl list_update_id)

lemma upd_first_follows: "(\<And>e. follows e (f e)) \<Longrightarrow> list_all2 follows es (upd_first u f es)"
  by (induction es) auto

subsection \<open>The inner steps of a wait\<close>

lemma BUG_ON_Some [simp]: "BUG_ON c = Some x \<longleftrightarrow> \<not> c"
  by (simp add: BUG_ON_def)

lemma BUG_ON_bind [simp]: "Option.bind (BUG_ON c) f = (if c then None else f ())"
  by (simp add: BUG_ON_def)

lemma gettimeofday_same: "gettimeofday s = (now, t) \<Longrightarrow> same_core s t"
  by (auto simp: gettimeofday_def same_core_def)

lemma prepare_event_same: "prepare_event now e s = Some t \<Longrightarrow> same_core s t"
  by (auto simp: prepare_event_def same_core_def Option.bind_eq_Some_conv split: if_splits)

lemma prepare_list_same: "prepare_list now es s = Some t \<Longrightarrow> same_core s t"
proof (induction es arbitrary: s)
  case Nil
  then show ?case by (simp add: same_core_def)
next
  case (Cons e es)
  then show ?case by (fastforce simp: Option.bind_eq_Some_conv same_core_def dest!: prepare_event_same)
qed

lemma prepare_same: "scheduler_prepare_events s = Some t \<Longrightarrow> same_core s t"
  by (auto simp: scheduler_prepare_events_def gettimeofday_def Option.bind_eq_Some_conv same_core_def
      dest!: prepare_list_same)

lemma select_same: "select_loop os s = (r, t) \<Longrightarrow> same_core s t"
  by (induction os s rule: select_loop.induct) (auto simp: same_core_def Let_def split: if_splits)

lemma poll_ready_follows: "poll_ready b (e, fds, n) = (e', fds', n') \<Longrightarrow> follows e e'"
  by (auto simp: poll_ready_def follows_def split: if_splits)

lemma check_fd_event_follows:
  assumes "check_fd_event e s n = Some (e', s', n')"
  shows "follows e e' \<and> same_core s s'"
  using assms
  by (auto simp: check_fd_event_def same_core_def split: if_splits prod.splits
      dest!: poll_ready_follows intro: follows_trans)

lemma check_fd_list_follows:
  "check_fd_list es s n = Some (es', s', n') \<Longrightarrow> list_all2 follows es es' \<and> same_core s s'"
proof (induction es arbitrary: s n es' s' n')
  case Nil
  then show ?case by (simp add: same_core_def)
next
  case (Cons e es)
  then show ?case
    by (fastforce simp: Option.bind_eq_Some_conv same_core_def split: if_splits dest!: check_fd_event_follows)
qed

lemma check_timeout_follows: "check_timeout now e = Some e' \<Longrightarrow> follows e e'"
  by (auto simp: check_timeout_def follows_def split: if_splits)

lemma check_timeout_list_follows: "check_timeout_list now es = Some es' \<Longrightarrow> list_all2 follows es es'"
  by (induction es arbitrary: es') (auto simp: Option.bind_eq_Some_conv dest: check_timeout_follows)

lemma check_timeouts_same: "scheduler_check_timeouts s = Some t \<Longrightarrow> same_events s t"
  by (auto simp: scheduler_check_timeouts_def gettimeofday_def Option.bind_eq_Some_conv same_events_def
      dest: check_timeout_list_follows)

lemma check_events_same: "scheduler_check_events s n = Some (r, t) \<Longrightarrow> same_events s t"
  by (fastforce simp: scheduler_check_events_def scheduler_check_fd_events_def Option.bind_eq_Some_conv
      same_events_def same_core_def split: if_splits
      dest!: check_timeouts_same check_fd_list_follows intro: list_follows_trans)

text \<open>The state in which the callback of the event at position \<open>i\<close> starts, but for the record of the call.\<close>

definition before_call :: "nat \<Rightarrow> scheduler \<Rightarrow> scheduler" where
  "before_call i s = (let e = events s ! i in
     if mode_has e SCHEDULER_POLL_TIMEOUT \<and> \<not> TV_IS_INF (ev_timeout e)
     then s\<lparr>ticks := Suc (ticks s), events := (events s)[i := e\<lparr>ev_deadline := TV_ADD (clk s (ticks s)) (ev_timeout e)\<rparr>]\<rparr>
     else s)"

lemma event_callback_eq:
  "scheduler_event_callback cbf i m s =
     (if ev_masked (events s ! i) then Some (before_call i s)
      else cbf (ev_cb (events s ! i)) (ev_id (events s ! i)) m (ev_private (events s ! i))
             ((before_call i s)\<lparr>called := called s @ [(ev_id (events s ! i), m)]\<rparr>))"
  by (simp add: scheduler_event_callback_def before_call_def gettimeofday_def Let_def)

lemma before_call_same: "i < length (events s) \<Longrightarrow> same_events s (before_call i s)"
  by (simp add: before_call_def same_events_def Let_def list_follows_update follows_def)

lemma set_timeout_same: "scheduler_event_set_timeout s u tv = (r, t) \<Longrightarrow> same_events s t"
  by (auto simp: scheduler_event_set_timeout_def same_events_def gettimeofday_def follows_def
      intro!: upd_first_follows split: if_splits option.splits)

lemma unregister_same: "same_events s (scheduler_unregister_event s u)"
  by (auto simp: scheduler_unregister_event_def same_events_def follows_def intro!: upd_first_follows)

lemma mask_same: "same_events s (scheduler_mask_event s u m)"
  by (auto simp: scheduler_mask_event_def same_events_def follows_def intro!: upd_first_follows)

lemma set_max_same: "same_core s (scheduler_set_max_timeout s tv)"
  by (simp add: scheduler_set_max_timeout_def same_core_def)

subsection \<open>Taking the loops apart\<close>

text \<open>The state in which an event's pending bits have been taken.\<close>

abbreviation taken :: "nat \<Rightarrow> scheduler \<Rightarrow> scheduler" where
  "taken i s \<equiv> s\<lparr>events := (events s)[i := (events s ! i)\<lparr>ev_pending := 0\<rparr>]\<rparr>"

abbreviation entered :: "scheduler \<Rightarrow> scheduler" where
  "entered s \<equiv> s\<lparr>depth := depth s + 1\<rparr>"

abbreviation reset_timeouts :: "scheduler \<Rightarrow> scheduler" where
  "reset_timeouts s \<equiv> s\<lparr>sched_timeout := TV_SECS SCHEDULER_MAX_TIMEOUT, max_timeout := TV_SECS SCHEDULER_MAX_TIMEOUT\<rparr>"

lemma run_events_induct [consumes 1, case_names finish skip dispatch]:
  assumes "run_events_from cbf i n s = Some (n', t)"
    and "\<And>i n s. length (events s) \<le> i \<Longrightarrow> P i n s n s"
    and "\<And>i n s n' t. i < length (events s) \<Longrightarrow> ev_dead (events s ! i) \<or> ev_pending (events s ! i) = 0
      \<Longrightarrow> P (i + 1) n s n' t \<Longrightarrow> P i n s n' t"
    and "\<And>i n s u n' t. i < length (events s) \<Longrightarrow> \<not> ev_dead (events s ! i) \<Longrightarrow> ev_pending (events s ! i) \<noteq> 0
      \<Longrightarrow> scheduler_event_callback cbf i (ev_pending (events s ! i)) (taken i s) = Some u
      \<Longrightarrow> P (i + 1) (n + 1) u n' t \<Longrightarrow> P i n s n' t"
  shows "P i n s n' t"
proof -
  have "d = cbf \<longrightarrow> P i n s (fst y) (snd y)" if "run_events_from d i n s = Some y" for d i n s y
  proof (rule run_events_from.raw_induct [where P = "\<lambda>d i n s y. d = cbf \<longrightarrow> P i n s (fst y) (snd y)", OF _ that], goal_cases)
    case (1 f d i n s y)
    show ?case
    proof (intro impI, cases "i < length (events s)")
      case True
      assume d: "d = cbf"
      show "P i n s (fst y) (snd y)"
      proof (cases "ev_dead (events s ! i) \<or> ev_pending (events s ! i) = 0")
        case dead: True
        then have "f cbf (i + 1) n s = Some y" using 1(2) True by (auto simp: Let_def d split: if_splits)
        then show ?thesis using assms(3) [OF True dead] 1(1) by blast
      next
        case False
        then obtain u where "scheduler_event_callback cbf i (ev_pending (events s ! i)) (taken i s) = Some u"
          "f cbf (i + 1) (n + 1) u = Some y" using 1(2) True by (auto simp: Let_def d Option.bind_eq_Some_conv)
        then show ?thesis using assms(4) [OF True] False 1(1) by blast
      qed
    next
      case False
      then show "P i n s (fst y) (snd y)" using 1(2) assms(2) by auto
    qed
  qed
  from this [OF assms(1)] show ?thesis by simp
qed

lemma wait_cases [consumes 1, case_names progress failed ran]:
  assumes "scheduler_wait_for_events cbf s = Some (r, t)"
  obtains n a where "depth s > 0" "scheduler_run_events cbf (entered s) = Some (n, a)" "n \<noteq> 0" "r = 0" "t = leave a"
  | a b c where "(if depth s > 0 then scheduler_run_events cbf (entered s) else Some (0, entered s)) = Some (0, a)"
      "scheduler_prepare_events a = Some b" "select_loop (selects b) b = (r, c)" "r < 0" "t = leave c"
  | a b c q u n v where "(if depth s > 0 then scheduler_run_events cbf (entered s) else Some (0, entered s)) = Some (0, a)"
      "scheduler_prepare_events a = Some b" "select_loop (selects b) b = (q, c)" "\<not> q < 0"
      "scheduler_check_events c q = Some (0, u)" "scheduler_run_events cbf (reset_timeouts u) = Some (n, v)" "r = 0"
      "t = leave (if depth v = 1 then scheduler_gc_events v else v)"
proof -
  obtain n a where a: "(if depth s > 0 then scheduler_run_events cbf (entered s) else Some (0, entered s)) = Some (n, a)"
    using assms by (auto simp: scheduler_wait_for_events_def Let_def Option.bind_eq_Some_conv)
  show thesis
  proof (cases "n = 0")
    case False
    with a assms show thesis
      by (intro that(1) [of n a]) (auto simp: scheduler_wait_for_events_def Let_def split: if_splits)
  next
    case True
    with a assms obtain b where b: "scheduler_prepare_events a = Some b"
      by (auto simp: scheduler_wait_for_events_def Let_def Option.bind_eq_Some_conv)
    obtain q c where c: "select_loop (selects b) b = (q, c)" by fastforce
    show thesis
    proof (cases "q < 0")
      case True
      with a b c \<open>n = 0\<close> assms show thesis
        by (intro that(2) [of a b c]) (auto simp: scheduler_wait_for_events_def Let_def)
    next
      case False
      with a b c \<open>n = 0\<close> assms that(3) [OF _ b c False] show thesis
        by (auto simp: scheduler_wait_for_events_def Let_def Option.bind_eq_Some_conv split: if_splits)
    qed
  qed
qed

subsection \<open>Relations that every run keeps\<close>

locale loop_relation =
  fixes U :: "int \<Rightarrow> scheduler \<Rightarrow> scheduler \<Rightarrow> bool"
  assumes U_trans: "U d a b \<Longrightarrow> U d b c \<Longrightarrow> U d a c"
    and U_same: "same_events s t \<Longrightarrow> U d s t"
    and U_register: "scheduler_register_event mem s mode fd timeout cb private = Some (r, t) \<Longrightarrow> U d s t"
    and U_call: "i < length (events s) \<Longrightarrow> \<not> ev_dead (events s ! i)
      \<Longrightarrow> U d s (s\<lparr>called := called s @ [(ev_id (events s ! i), m)]\<rparr>)"
    and U_leave: "U (d + 1) (s\<lparr>depth := d + 1\<rparr>) t \<Longrightarrow> depth s = d \<Longrightarrow> depth t = d + 1 \<Longrightarrow> U d s (leave t)"
    and U_gc: "U (d + 1) (s\<lparr>depth := d + 1\<rparr>) t \<Longrightarrow> depth s = d \<Longrightarrow> depth t = d + 1 \<Longrightarrow> d = 0
      \<Longrightarrow> U d s (leave (scheduler_gc_events t))"
begin

definition keeps :: "scheduler \<Rightarrow> scheduler \<Rightarrow> bool" where
  "keeps s t \<longleftrightarrow> U (depth s) s t \<and> depth t = depth s"

lemma keeps_trans: "keeps a b \<Longrightarrow> keeps b c \<Longrightarrow> keeps a c"
  by (auto simp: keeps_def intro: U_trans)

lemma keeps_same: "same_events s t \<Longrightarrow> keeps s t"
  by (simp add: keeps_def U_same same_events_def)

lemma keeps_core: "same_core s t \<Longrightarrow> keeps s t"
  by (simp add: keeps_same same_core_events)

lemma keeps_register:
  assumes "scheduler_register_event mem s mode fd timeout cb private = Some (r, t)"
  shows "keeps s t"
  using assms U_register [OF assms]
  by (auto simp: keeps_def scheduler_register_event_def scheduler_get_event_uuid_def gettimeofday_def Let_def
      split: if_splits option.splits)

lemma keeps_event_callback:
  assumes cb: "\<And>c u m p s t. cbf c u m p s = Some t \<Longrightarrow> keeps s t"
    and i: "i < length (events s)" "\<not> ev_dead (events s ! i)"
    and run: "scheduler_event_callback cbf i m s = Some t"
  shows "keeps s t"
proof -
  let ?b = "before_call i s"
  have b: "keeps s ?b" by (rule keeps_same [OF before_call_same [OF i(1)]])
  have c: "called ?b = called s" and len: "i < length (events ?b)"
    and ev: "ev_id (events ?b ! i) = ev_id (events s ! i)" "ev_dead (events ?b ! i) = ev_dead (events s ! i)"
    using i(1) by (simp_all add: before_call_def Let_def)
  have "keeps ?b (?b\<lparr>called := called s @ [(ev_id (events s ! i), m)]\<rparr>)"
    using U_call [OF len, of "depth ?b" m] i(2) by (simp add: keeps_def ev c)
  then show ?thesis
    using b run cb by (auto simp: event_callback_eq intro: keeps_trans split: if_splits)
qed

lemma keeps_run_from:
  assumes cb: "\<And>c u m p s t. cbf c u m p s = Some t \<Longrightarrow> keeps s t"
    and run: "run_events_from cbf i n s = Some (n', t)"
  shows "keeps s t"
  using run
proof (induction rule: run_events_induct)
  case (finish i n s)
  then show ?case by (simp add: keeps_same)
next
  case (skip i n s n' t)
  then show ?case by simp
next
  case (dispatch i n s u n' t)
  have "keeps s (taken i s)"
    using dispatch(1) by (intro keeps_same) (simp add: same_events_def list_follows_update follows_def)
  moreover have "keeps (taken i s) u"
    using dispatch by (intro keeps_event_callback [where i = i and s = "taken i s", OF cb]) auto
  ultimately show ?case using dispatch(5) by (blast intro: keeps_trans)
qed

lemma keeps_wait:
  assumes cb: "\<And>c u m p s t. cbf c u m p s = Some t \<Longrightarrow> keeps s t"
    and run: "scheduler_wait_for_events cbf s = Some (r, t)"
  shows "keeps s t"
proof -
  have fin: "keeps s (leave u)" if "keeps (entered s) u" for u
    using that U_leave [of "depth s" s u] by (simp add: keeps_def leave_def)
  have gc: "keeps s (leave (scheduler_gc_events u))" if "keeps (entered s) u" "depth u = 1" for u
    using that U_gc [of "depth s" s u] by (auto simp: keeps_def leave_def scheduler_gc_events_def)
  have rn: "keeps a b" if "scheduler_run_events cbf a = Some (n, b)" for n a b
    using that keeps_run_from [OF cb] by (simp add: scheduler_run_events_def)
  have start: "keeps (entered s) a"
    if "(if depth s > 0 then scheduler_run_events cbf (entered s) else Some (0, entered s)) = Some (n, a)" for n a
    using that by (auto simp: keeps_same split: if_splits intro: rn)
  have sel: "keeps (entered s) c" if "keeps (entered s) a" "scheduler_prepare_events a = Some b"
    "select_loop (selects b) b = (q, c)" for a b q c
    using that keeps_core [OF prepare_same] keeps_core [OF select_same] by (blast intro: keeps_trans)
  from run show ?thesis
  proof (cases rule: wait_cases)
    case (progress n a)
    then show ?thesis using fin rn by blast
  next
    case (failed a b c)
    then show ?thesis using fin sel start by blast
  next
    case (ran a b c q u n v)
    have "keeps c (reset_timeouts u)"
      by (rule keeps_same) (use check_events_same [OF ran(5)] in \<open>simp add: same_events_def\<close>)
    then have "keeps (entered s) v" using sel [OF start [OF ran(1)] ran(2,3)] rn [OF ran(6)] by (blast intro: keeps_trans)
    then show ?thesis using fin gc by (auto simp: ran(8))
  qed
qed

lemma keeps_api:
  assumes w: "\<And>s r t. w s = Some (r, t) \<Longrightarrow> keeps s t" and run: "api w s t"
  shows "keeps s t"
  using run
proof induction
  case base
  then show ?case by (simp add: keeps_same)
next
  case (step a b)
  from step(2) have "keeps a b"
    by cases (auto intro: w keeps_register keeps_same keeps_core unregister_same mask_same set_max_same set_timeout_same)
  with step(3) show ?case by (rule keeps_trans)
qed

lemma keeps_nested:
  assumes "uses_api body" "wait_nested body k s = Some (r, t)"
  shows "keeps s t"
  using assms(2)
proof (induction k arbitrary: s r t)
  case 0
  then show ?case by simp
next
  case (Suc k)
  show ?case
  proof (rule keeps_wait)
    show "scheduler_wait_for_events (body (wait_nested body k)) s = Some (r, t)" using Suc(2) by simp
    show "keeps a b" if "body (wait_nested body k) c u m p a = Some b" for c u m p a b
    proof (rule keeps_api)
      show "api (wait_nested body k) a b" using assms(1) that unfolding uses_api_def by blast
    qed (rule Suc(1))
  qed
qed

theorem keeps_runs: "uses_api body \<Longrightarrow> api (wait_nested body k) s t \<Longrightarrow> U (depth s) s t \<and> depth t = depth s"
  using keeps_api [of "wait_nested body k" s t] keeps_nested by (auto simp: keeps_def)

end

end
