(* ===== verification/Sched_Inv.thy ===== *)
theory Sched_Inv
  imports Sched_Loop
begin

text \<open>Invariants of the scheduler, as interpretations of \<open>loop_relation\<close>: event identifiers, the list of
  events during nested waits, and the silence of unregistered events.  The allocation of identifiers
  terminates with an unused one.\<close>

subsection \<open>Identifiers\<close>

definition valid_id :: "int \<Rightarrow> bool" where
  "valid_id u \<longleftrightarrow> 1 \<le> u \<and> u \<le> INT_MAX"

definition ids_ok :: "scheduler \<Rightarrow> bool" where
  "ids_ok s \<longleftrightarrow> distinct (map ev_id (events s)) \<and> valid_id (uuid s)
     \<and> (\<forall>e\<in>set (events s). valid_id (ev_id e) \<and> (\<not> uuid_overflow s \<longrightarrow> ev_id e < uuid s))"

lemma find_uuid_fresh: "find_uuid n es u = Some v \<Longrightarrow> v \<notin> ev_id ` set es"
  by (induction n arbitrary: u) (auto simp: list_ex_iff split: if_splits)

lemma next_uuid_valid [simp]: "valid_id u \<Longrightarrow> valid_id (next_uuid u)"
  by (auto simp: next_uuid_def valid_id_def)

lemma find_uuid_valid: "find_uuid n es u = Some v \<Longrightarrow> valid_id u \<Longrightarrow> valid_id v"
  by (induction n arbitrary: u) (auto split: if_splits)

lemma get_uuid_fresh:
  assumes "scheduler_get_event_uuid s = Some (u, t)" "ids_ok s"
  shows "u \<notin> ev_id ` set (events s) \<and> valid_id u \<and> valid_id (uuid t) \<and> events t = events s
    \<and> (\<not> uuid_overflow t \<longrightarrow> u < uuid t \<and> uuid s \<le> uuid t \<and> \<not> uuid_overflow s)
    \<and> depth t = depth s \<and> called t = called s"
proof -
  have v: "valid_id (uuid s)" using assms(2) by (simp add: ids_ok_def)
  show ?thesis
  proof (cases "uuid_overflow s")
    case True
    then show ?thesis
      using assms v find_uuid_fresh find_uuid_valid
      by (fastforce simp: scheduler_get_event_uuid_def Let_def valid_id_def split: option.splits if_splits)
  next
    case False
    then show ?thesis
      using assms v
      by (auto simp: scheduler_get_event_uuid_def ids_ok_def Let_def valid_id_def split: if_splits)
  qed
qed

lemma register_ids:
  assumes "scheduler_register_event mem s mode fd timeout cb priv = Some (r, t)" "ids_ok s"
  shows "t = s \<or> (\<exists>e. events t = events s @ [e] \<and> ev_id e = r \<and> r \<notin> ev_id ` set (events s) \<and> valid_id r
      \<and> \<not> ev_dead e \<and> ev_pending e = 0 \<and> valid_id (uuid t) \<and> called t = called s \<and> depth t = depth s
      \<and> (\<not> uuid_overflow t \<longrightarrow> r < uuid t \<and> uuid s \<le> uuid t \<and> uuid s \<le> r \<and> \<not> uuid_overflow s))"
proof -
  have same: "ids_ok (s\<lparr>ticks := k\<rparr>)" for k using assms(2) by (simp add: ids_ok_def)
  have le: "uuid (s\<lparr>ticks := k\<rparr>) \<le> u"
    if "scheduler_get_event_uuid (s\<lparr>ticks := k\<rparr>) = Some (u, v)" "\<not> uuid_overflow v" for k u v
    using that assms(2)
    by (auto simp: scheduler_get_event_uuid_def ids_ok_def valid_id_def Let_def split: if_splits option.splits)
  show ?thesis
    using assms(1) get_uuid_fresh [OF _ same] le
    by (fastforce simp: scheduler_register_event_def gettimeofday_def split: if_splits option.splits)
qed

lemma follows_ids: "list_all2 follows es es' \<Longrightarrow> map ev_id es' = map ev_id es"
  by (induction rule: list_all2_induct) (auto simp: follows_def)

lemma ids_ok_map:
  "ids_ok s \<longleftrightarrow> distinct (map ev_id (events s)) \<and> valid_id (uuid s)
     \<and> (\<forall>u\<in>set (map ev_id (events s)). valid_id u \<and> (\<not> uuid_overflow s \<longrightarrow> u < uuid s))"
  by (auto simp: ids_ok_def)

lemma ids_ok_leave [simp]: "ids_ok (leave s) = ids_ok s"
  by (simp add: ids_ok_def leave_def)

lemma ids_ok_entered [simp]: "ids_ok (s\<lparr>depth := d\<rparr>) = ids_ok s"
  by (simp add: ids_ok_def)

lemma ids_ok_called [simp]: "ids_ok (s\<lparr>called := c\<rparr>) = ids_ok s"
  by (simp add: ids_ok_def)

lemma ids_ok_gc: "ids_ok s \<Longrightarrow> ids_ok (scheduler_gc_events s)"
  by (simp add: ids_ok_def scheduler_gc_events_def distinct_map_filter)

lemma ids_ok_same: "same_events s t \<Longrightarrow> ids_ok s \<Longrightarrow> ids_ok t"
  using follows_ids [of "events s" "events t"] unfolding same_events_def ids_ok_map by simp

lemma ids_ok_register:
  assumes "scheduler_register_event mem s mode fd timeout cb priv = Some (r, t)" "ids_ok s"
  shows "ids_ok t"
  using register_ids [OF assms] assms(2)
proof (elim disjE exE conjE)
  fix e assume e: "events t = events s @ [e]" "ev_id e = r" "r \<notin> ev_id ` set (events s)" "valid_id r" "valid_id (uuid t)"
    "\<not> uuid_overflow t \<longrightarrow> r < uuid t \<and> uuid s \<le> uuid t \<and> uuid s \<le> r \<and> \<not> uuid_overflow s"
  show "ids_ok t"
    unfolding ids_ok_def
  proof (intro conjI ballI)
    show "distinct (map ev_id (events t))" using e assms(2) by (simp add: ids_ok_def)
    show "valid_id (uuid t)" by (fact e(5))
    fix x assume "x \<in> set (events t)"
    then have "x = e \<or> x \<in> set (events s)" using e(1) by auto
    then show "valid_id (ev_id x)" "\<not> uuid_overflow t \<longrightarrow> ev_id x < uuid t"
      using e(2,4,6) assms(2) by (fastforce simp: ids_ok_def)+
  qed
qed simp

interpretation ids: loop_relation "\<lambda>d s t. ids_ok s \<longrightarrow> ids_ok t"
  by unfold_locales (auto intro: ids_ok_same ids_ok_register ids_ok_gc)

subsection \<open>The search for an identifier ends\<close>

lemma next_uuid_mod: "valid_id u \<Longrightarrow> next_uuid u = u mod INT_MAX + 1"
  by (cases "u = INT_MAX") (auto simp: next_uuid_def valid_id_def)

lemma next_uuid_iter: "valid_id u \<Longrightarrow> (next_uuid ^^ k) u = (u - 1 + int k) mod INT_MAX + 1"
proof (induction k)
  case 0
  then show ?case by (simp add: valid_id_def)
next
  case (Suc k)
  have "valid_id ((next_uuid ^^ k) u)" using Suc(2) by (induction k) auto
  then have "(next_uuid ^^ Suc k) u = ((u - 1 + int k) mod INT_MAX + 1) mod INT_MAX + 1"
    using Suc by (simp add: next_uuid_mod)
  also have "\<dots> = (u - 1 + int (Suc k)) mod INT_MAX + 1" by (simp add: mod_add_left_eq add.assoc)
  finally show ?case .
qed

lemma find_uuid_None: "find_uuid n es u = None \<Longrightarrow> k \<le> n \<Longrightarrow> (next_uuid ^^ k) u \<in> ev_id ` set es"
proof (induction n arbitrary: u k)
  case 0
  then show ?case by (auto simp: list_ex_iff split: if_splits)
next
  case (Suc n)
  then show ?case
    by (cases k) (auto simp: list_ex_iff funpow_swap1 split: if_splits)
qed

lemma next_uuid_inj: "valid_id u \<Longrightarrow> int n < INT_MAX \<Longrightarrow> inj_on (\<lambda>k. (next_uuid ^^ k) u) {..n}"
proof (rule inj_onI)
  fix j k assume u: "valid_id u" and n: "int n < INT_MAX" and jk: "j \<in> {..n}" "k \<in> {..n}"
    and eq: "(next_uuid ^^ j) u = (next_uuid ^^ k) u"
  then have "(u - 1 + int j) mod INT_MAX = (u - 1 + int k) mod INT_MAX" by (simp add: next_uuid_iter)
  then have "int j mod INT_MAX = int k mod INT_MAX" by (simp add: mod_eq_dvd_iff)
  then show "j = k" using n jk by simp
qed

lemma find_uuid_ends:
  assumes "valid_id u" "int (length es) < INT_MAX"
  shows "\<exists>v. find_uuid (length es) es u = Some v"
proof (rule ccontr)
  assume "\<nexists>v. find_uuid (length es) es u = Some v"
  then have "find_uuid (length es) es u = None" by auto
  then have "(\<lambda>k. (next_uuid ^^ k) u) ` {..length es} \<subseteq> ev_id ` set es" using find_uuid_None by blast
  then have "card {..length es} \<le> card (ev_id ` set es)"
    using next_uuid_inj [OF assms] by (metis card_image card_mono finite_imageI finite_set)
  also have "\<dots> \<le> length es" by (metis card_length image_set length_map)
  finally show False by simp
qed

subsection \<open>The list of events\<close>

text \<open>Below a wait no event goes away: each one stays at its position, so that the loop over the list
  never continues from an event that has been freed.\<close>

definition grows :: "event list \<Rightarrow> event list \<Rightarrow> bool" where
  "grows es es' \<longleftrightarrow> length es \<le> length es' \<and> list_all2 follows es (take (length es) es')"

lemma grows_nth: "grows es es' \<longleftrightarrow> length es \<le> length es' \<and> (\<forall>i<length es. follows (es ! i) (es' ! i))"
  by (auto simp: grows_def list_all2_conv_all_nth)

lemma grows_trans: "grows a b \<Longrightarrow> grows b c \<Longrightarrow> grows a c"
  unfolding grows_nth by (metis follows_trans order_less_le_trans order_trans)

interpretation growth: loop_relation "\<lambda>d s t. 1 \<le> d \<longrightarrow> grows (events s) (events t)"
proof
  show "1 \<le> d \<longrightarrow> grows (events a) (events c)"
    if "1 \<le> d \<longrightarrow> grows (events a) (events b)" "1 \<le> d \<longrightarrow> grows (events b) (events c)" for d :: int and a b c
    using that grows_trans by blast
  show "1 \<le> d \<longrightarrow> grows (events s) (events t)" if "same_events s t" for d :: int and s t
    using that by (auto simp: grows_nth same_events_def list_all2_conv_all_nth)
  show "1 \<le> d \<longrightarrow> grows (events s) (events t)"
    if "scheduler_register_event mem s mode fd timeout cb priv = Some (r, t)"
    for d :: int and mem s mode fd timeout cb priv r t
    using that
    by (auto simp: scheduler_register_event_def scheduler_get_event_uuid_def gettimeofday_def Let_def grows_nth
        nth_append split: if_splits option.splits)
qed (auto simp: grows_nth leave_def)

subsection \<open>Unregistered events\<close>

text \<open>No event that could still run has the identifier \<open>u\<close>, and \<open>u\<close> has been given out.\<close>

definition gone :: "int \<Rightarrow> scheduler \<Rightarrow> bool" where
  "gone u s \<longleftrightarrow> u < uuid s \<and> (\<forall>e\<in>set (events s). ev_id e = u \<longrightarrow> ev_dead e)"

definition silent :: "int \<Rightarrow> scheduler \<Rightarrow> scheduler \<Rightarrow> bool" where
  "silent u s t \<longleftrightarrow> (\<exists>new. called t = called s @ new \<and> u \<notin> fst ` set new)"

lemma silent_trans: "silent u a b \<Longrightarrow> silent u b c \<Longrightarrow> silent u a c"
  by (force simp: silent_def)

lemma follows_gone:
  "list_all2 follows es es' \<Longrightarrow> \<forall>e\<in>set es. ev_id e = u \<longrightarrow> ev_dead e \<Longrightarrow> \<forall>e\<in>set es'. ev_id e = u \<longrightarrow> ev_dead e"
  by (induction rule: list_all2_induct) (auto simp: follows_def)

lemma gone_same: "same_events s t \<Longrightarrow> gone u s \<Longrightarrow> gone u t \<and> silent u s t"
  using follows_gone [of "events s" "events t" u] by (auto simp: same_events_def gone_def silent_def)

lemma gone_register:
  assumes "scheduler_register_event mem s mode fd timeout cb priv = Some (r, t)" "ids_ok s" "\<not> uuid_overflow t"
  shows "\<not> uuid_overflow s \<and> (gone u s \<longrightarrow> gone u t \<and> silent u s t)"
  using register_ids [OF assms(1,2)] assms(3)
  by (elim disjE exE) (auto simp: gone_def silent_def)

lemma gone_depth [simp]: "gone u (s\<lparr>depth := d\<rparr>) = gone u s" "gone u (leave s) = gone u s"
  by (simp_all add: gone_def leave_def)

lemma gone_gc: "gone u s \<Longrightarrow> gone u (scheduler_gc_events s)"
  by (auto simp: gone_def scheduler_gc_events_def)

lemma silent_depth [simp]: "silent u (s\<lparr>depth := d\<rparr>) t = silent u s t" "silent u s (leave t) = silent u s t"
  "silent u s (scheduler_gc_events t) = silent u s t"
  by (simp_all add: silent_def leave_def scheduler_gc_events_def)

lemma gone_call:
  "i < length (events s) \<Longrightarrow> \<not> ev_dead (events s ! i) \<Longrightarrow> gone u s
    \<Longrightarrow> gone u (s\<lparr>called := called s @ [(ev_id (events s ! i), m)]\<rparr>)
      \<and> silent u s (s\<lparr>called := called s @ [(ev_id (events s ! i), m)]\<rparr>)"
  by (auto simp: gone_def silent_def)

definition silence_rel :: "int \<Rightarrow> scheduler \<Rightarrow> scheduler \<Rightarrow> bool" where
  "silence_rel u s t \<longleftrightarrow> (ids_ok s \<longrightarrow> ids_ok t \<and> (\<not> uuid_overflow t \<longrightarrow> \<not> uuid_overflow s
      \<and> (gone u s \<longrightarrow> gone u t \<and> silent u s t)))"

lemma leave_overflow [simp]: "uuid_overflow (leave s) = uuid_overflow s"
  "uuid_overflow (scheduler_gc_events s) = uuid_overflow s"
  by (simp_all add: leave_def scheduler_gc_events_def)

interpretation silence: loop_relation "\<lambda>d. silence_rel u"
proof (standard, goal_cases)
  case (1 d a b c)
  then show ?case by (auto simp: silence_rel_def intro: silent_trans)
next
  case (2 s t d)
  then show ?case
    using ids_ok_same [OF 2] gone_same [OF 2] by (auto simp: silence_rel_def same_events_def)
next
  case (3 mem s mode fd timeout cb priv r t d)
  then show ?case
    using ids_ok_register [OF 3] gone_register [OF 3] by (auto simp: silence_rel_def)
next
  case (4 i s d m)
  then show ?case using gone_call [OF 4] by (simp add: silence_rel_def)
next
  case (5 d s t)
  then show ?case by (simp add: silence_rel_def)
next
  case (6 d s t)
  then show ?case by (simp add: silence_rel_def ids_ok_gc gone_gc)
qed

end
