(* ===== verification/Sched_Run.thy ===== *)
theory Sched_Run
  imports Sched_Inv
begin

text \<open>The wait in detail: what \<^verbatim>\<open>select\<close> is asked for, how its answer becomes pending events, and the loop
  that runs them: it ends whenever the callbacks return, and no pending event outlives it.\<close>

subsection \<open>What select is asked for\<close>

definition pollable :: "event \<Rightarrow> bool" where
  "pollable e \<longleftrightarrow> \<not> ev_masked e \<and> \<not> ev_dead e"

definition timed :: "event \<Rightarrow> bool" where
  "timed e \<longleftrightarrow> mode_has e SCHEDULER_POLL_TIMEOUT \<and> \<not> TV_IS_INF (ev_timeout e)"

text \<open>The descriptors that some pollable event wants polled for \<open>b\<close>, and the times left of the timed ones.\<close>

definition polled :: "byte \<Rightarrow> event list \<Rightarrow> int set" where
  "polled b es = ev_fd ` {e \<in> set es. pollable e \<and> mode_has e b \<and> 0 \<le> ev_fd e}"

definition waits :: "timeval \<Rightarrow> event list \<Rightarrow> timeval set" where
  "waits now es = (\<lambda>e. max TV_ZERO (TV_SUB (ev_deadline e) now)) ` {e \<in> set es. pollable e \<and> timed e}"

definition fds_ok :: "scheduler \<Rightarrow> bool" where
  "fds_ok s \<longleftrightarrow> (\<forall>e\<in>set (events s). ev_dead e \<or> \<not> bad_fd e)"

lemma polled_Nil [simp]: "polled b [] = {}"
  by (simp add: polled_def)

lemma polled_Cons: "polled b (e # es) = (if pollable e \<and> mode_has e b \<and> 0 \<le> ev_fd e then {ev_fd e} else {}) \<union> polled b es"
  by (auto simp: polled_def)

lemma waits_Nil [simp]: "waits now [] = {}"
  by (simp add: waits_def)

lemma waits_Cons:
  "waits now (e # es) = (if pollable e \<and> timed e then {max TV_ZERO (TV_SUB (ev_deadline e) now)} else {}) \<union> waits now es"
  by (auto simp: waits_def)

lemma finite_polled [simp]: "finite (polled b es)"
  by (simp add: polled_def)

lemma finite_waits [simp]: "finite (waits now es)"
  by (simp add: waits_def)

lemma mode_has_or: "mode_has e (or a b) \<longleftrightarrow> mode_has e a \<or> mode_has e b"
  by (auto simp: mode_has_def bit.conj_disj_distrib or_eq_0_iff)

lemma mode_has_fd: "mode_has e SCHEDULER_POLL_FD \<longleftrightarrow> mode_has e SCHEDULER_POLL_READ_FD
    \<or> mode_has e SCHEDULER_POLL_WRITE_FD \<or> mode_has e SCHEDULER_POLL_EXCEPT_FD"
  using mode_has_or [of e 1 6] mode_has_or [of e 2 4] by simp

lemma poll_fd_ok:
  "ev_fd e < FD_SETSIZE \<or> \<not> mode_has e b \<Longrightarrow> poll_fd b e (fds, m) =
     Some (if mode_has e b \<and> 0 \<le> ev_fd e then (insert (ev_fd e) fds, max (ev_fd e) m) else (fds, m))"
  by (auto simp: poll_fd_def)

lemma poll_timeout_min:
  "TV_ZERO \<le> t \<Longrightarrow> poll_timeout now e t = (if timed e then min t (max TV_ZERO (TV_SUB (ev_deadline e) now)) else t)"
  by (auto simp: poll_timeout_def timed_def TV_AFTER_def Let_def min_def max_def)

lemma Max_insert_Un: "finite A \<Longrightarrow> finite B \<Longrightarrow> Max (insert (Max (insert (m::'a::linorder) A)) B) = Max (insert m (A \<union> B))"
  by (cases "A = {}"; cases "B = {}") (auto simp: Max_Un max.assoc)

lemma Min_insert_Un: "finite A \<Longrightarrow> finite B \<Longrightarrow> Min (insert (Min (insert (m::'a::linorder) A)) B) = Min (insert m (A \<union> B))"
  by (cases "A = {}"; cases "B = {}") (auto simp: Min_Un min.assoc)

lemma prepare_event_ok:
  assumes "ev_dead e \<or> \<not> bad_fd e" "TV_ZERO \<le> sched_timeout s"
  shows "prepare_event now e s = Some (s\<lparr>
     read_fds := read_fds s \<union> polled SCHEDULER_POLL_READ_FD [e],
     write_fds := write_fds s \<union> polled SCHEDULER_POLL_WRITE_FD [e],
     except_fds := except_fds s \<union> polled SCHEDULER_POLL_EXCEPT_FD [e],
     max_fd := Max (insert (max_fd s) (polled SCHEDULER_POLL_FD [e])),
     sched_timeout := Min (insert (sched_timeout s) (waits now [e]))\<rparr>)"
proof (cases "pollable e")
  case False
  then have "ev_masked e \<or> ev_dead e" "polled b [e] = {}" "waits now [e] = {}" for b
    by (auto simp: polled_Cons waits_Cons pollable_def)
  then show ?thesis by (cases s) (simp add: prepare_event_def)
next
  case True
  then have m: "\<not> ev_masked e" "\<not> ev_dead e" by (simp_all add: pollable_def)
  have pf: "poll_fd b e (fds, k) = Some (fds \<union> polled b [e], Max (insert k (polled b [e])))"
    if "b \<in> {SCHEDULER_POLL_READ_FD, SCHEDULER_POLL_WRITE_FD, SCHEDULER_POLL_EXCEPT_FD}" for b fds k
  proof -
    have "ev_fd e < FD_SETSIZE \<or> \<not> mode_has e b"
      using assms(1) that m(2) by (auto simp: bad_fd_def mode_has_fd)
    then show ?thesis using True by (simp add: poll_fd_ok polled_Cons max.commute)
  qed
  have u: "polled SCHEDULER_POLL_FD [e] = polled SCHEDULER_POLL_READ_FD [e] \<union> (polled SCHEDULER_POLL_WRITE_FD [e]
      \<union> polled SCHEDULER_POLL_EXCEPT_FD [e])"
    by (auto simp: polled_def mode_has_fd)
  have t: "poll_timeout now e (sched_timeout s) = Min (insert (sched_timeout s) (waits now [e]))"
    using True assms(2) by (simp add: poll_timeout_min waits_Cons)
  show ?thesis
    by (simp add: prepare_event_def pf m Max_insert_Un u t Un_assoc)
qed

lemma waits_nonneg: "x \<in> waits now es \<Longrightarrow> TV_ZERO \<le> x"
  by (auto simp: waits_def)

lemma polled_append: "polled b (xs @ ys) = polled b xs \<union> polled b ys"
  by (auto simp: polled_def)

lemma waits_append: "waits now (xs @ ys) = waits now xs \<union> waits now ys"
  by (auto simp: waits_def)

lemma prepare_list_ok:
  assumes "\<forall>e\<in>set es. ev_dead e \<or> \<not> bad_fd e" "TV_ZERO \<le> sched_timeout s"
  shows "prepare_list now es s = Some (s\<lparr>
     read_fds := read_fds s \<union> polled SCHEDULER_POLL_READ_FD es,
     write_fds := write_fds s \<union> polled SCHEDULER_POLL_WRITE_FD es,
     except_fds := except_fds s \<union> polled SCHEDULER_POLL_EXCEPT_FD es,
     max_fd := Max (insert (max_fd s) (polled SCHEDULER_POLL_FD es)),
     sched_timeout := Min (insert (sched_timeout s) (waits now es))\<rparr>)"
  using assms
proof (induction es arbitrary: s)
  case Nil
  then show ?case by simp
next
  case (Cons e es)
  have z: "TV_ZERO \<le> Min (insert (sched_timeout s) (waits now [e]))"
    using Cons(3) waits_nonneg [of _ now "[e]"] by (intro Min.boundedI) auto
  have *: "polled b (e # es) = polled b [e] \<union> polled b es" "waits now (e # es) = waits now [e] \<union> waits now es" for b
    using polled_append [of b "[e]" es] waits_append [of now "[e]" es] by simp_all
  show ?case
    using Cons(2) prepare_event_ok [of e s now, OF _ Cons(3)]
    by (simp add: Cons(1) z Max_insert_Un Min_insert_Un Un_assoc * [abs_def])
qed

theorem prepare_ok:
  assumes "fds_ok s"
  shows "scheduler_prepare_events s = Some (s\<lparr>
     read_fds := polled SCHEDULER_POLL_READ_FD (events s),
     write_fds := polled SCHEDULER_POLL_WRITE_FD (events s),
     except_fds := polled SCHEDULER_POLL_EXCEPT_FD (events s),
     max_fd := Max (insert (-1) (polled SCHEDULER_POLL_FD (events s))),
     sched_timeout := Min ({TV_SECS SCHEDULER_MAX_TIMEOUT, max_timeout s} \<union> waits (clk s (ticks s)) (events s)),
     ticks := Suc (ticks s)\<rparr>)"
proof -
  have z: "TV_ZERO \<le> TV_SECS SCHEDULER_MAX_TIMEOUT" by (simp add: usecs_le)
  have m: "min (Min (insert a A)) b = Min (insert a (insert b A))" if "finite A" for a b :: timeval and A
    using that by (cases "A = {}") (auto simp: min.commute min.left_commute)
  show ?thesis
    using assms unfolding scheduler_prepare_events_def gettimeofday_def fds_ok_def
    by (simp add: prepare_list_ok z m insert_commute)
qed

subsection \<open>The answer of select\<close>

text \<open>Every ready descriptor is wanted by a live event of the list, and \<open>n\<close> counts the ready ones.\<close>

definition wanted :: "byte \<Rightarrow> event list \<Rightarrow> int set" where
  "wanted b es = ev_fd ` {e \<in> set es. \<not> ev_dead e \<and> mode_has e b}"

definition answered :: "event list \<Rightarrow> scheduler \<Rightarrow> int \<Rightarrow> bool" where
  "answered es s n \<longleftrightarrow> read_fds s \<subseteq> wanted SCHEDULER_POLL_READ_FD es
     \<and> write_fds s \<subseteq> wanted SCHEDULER_POLL_WRITE_FD es \<and> except_fds s \<subseteq> wanted SCHEDULER_POLL_EXCEPT_FD es
     \<and> n = int (card (read_fds s) + card (write_fds s) + card (except_fds s))"

text \<open>None of the ready descriptors concerns the event.\<close>

definition untouched :: "scheduler \<Rightarrow> event \<Rightarrow> bool" where
  "untouched s e \<longleftrightarrow> (mode_has e SCHEDULER_POLL_READ_FD \<longrightarrow> ev_fd e \<notin> read_fds s)
     \<and> (mode_has e SCHEDULER_POLL_WRITE_FD \<longrightarrow> ev_fd e \<notin> write_fds s)
     \<and> (mode_has e SCHEDULER_POLL_EXCEPT_FD \<longrightarrow> ev_fd e \<notin> except_fds s)"

lemma finite_wanted [simp]: "finite (wanted b es)"
  by (simp add: wanted_def)

lemma wanted_Cons: "wanted b (e # es) = (if \<not> ev_dead e \<and> mode_has e b then {ev_fd e} else {}) \<union> wanted b es"
  by (auto simp: wanted_def)

lemma pending_self [simp]: "\<exists>p. e = e\<lparr>ev_pending := p\<rparr>"
  by (rule exI [of _ "ev_pending e"]) simp

lemma poll_ready_result:
  assumes "poll_ready b (e, fds, n) = (e', fds', n')" "finite fds"
  shows "fds' = fds - (if mode_has e b then {ev_fd e} else {}) \<and> n' - int (card fds') = n - int (card fds)
    \<and> (\<exists>p. e' = e\<lparr>ev_pending := p\<rparr>) \<and> (\<not> (mode_has e b \<and> ev_fd e \<in> fds) \<longrightarrow> e' = e)"
proof (cases "mode_has e b \<and> ev_fd e \<in> fds")
  case True
  then have "0 < card fds" using assms(2) card_gt_0_iff by blast
  then show ?thesis using True assms by (auto simp: poll_ready_def card_Diff_singleton of_nat_diff)
next
  case False
  then show ?thesis using assms by (auto simp: poll_ready_def)
qed

lemma mode_has_pending [simp]: "mode_has (e\<lparr>ev_pending := p\<rparr>) b = mode_has e b"
  by (simp add: mode_has_def)

lemma check_fd_event_ok:
  assumes ok: "ev_dead e \<or> \<not> bad_fd e" and ans: "answered (e # es) s n"
  obtains e' s' n' where "check_fd_event e s n = Some (e', s', n')" "answered es s' n'"
    "ev_dead e \<or> untouched s e \<Longrightarrow> e' = e" "\<exists>p. e' = e\<lparr>ev_pending := p\<rparr>"
    "read_fds s' \<subseteq> read_fds s" "write_fds s' \<subseteq> write_fds s" "except_fds s' \<subseteq> except_fds s"
proof (cases "ev_dead e")
  case True
  then show ?thesis
    using ans by (intro that [of e s n]) (auto simp: check_fd_event_def answered_def wanted_Cons)
next
  case False
  have fin: "finite (read_fds s)" "finite (write_fds s)" "finite (except_fds s)"
    using ans by (auto simp: answered_def intro: finite_subset)
  obtain e1 r n1 where 1: "poll_ready SCHEDULER_POLL_READ_FD (e, read_fds s, n) = (e1, r, n1)" by (metis surj_pair)
  obtain e2 w n2 where 2: "poll_ready SCHEDULER_POLL_WRITE_FD (e1, write_fds s, n1) = (e2, w, n2)" by (metis surj_pair)
  obtain e3 x n3 where 3: "poll_ready SCHEDULER_POLL_EXCEPT_FD (e2, except_fds s, n2) = (e3, x, n3)" by (metis surj_pair)
  note a = poll_ready_result [OF 1 fin(1)] and b = poll_ready_result [OF 2 fin(2)] and c = poll_ready_result [OF 3 fin(3)]
  obtain p1 where p1: "e1 = e\<lparr>ev_pending := p1\<rparr>" using a by blast
  obtain p2 where p2: "e2 = e\<lparr>ev_pending := p2\<rparr>" using b p1 by auto
  obtain p3 where p3: "e3 = e\<lparr>ev_pending := p3\<rparr>" using c p2 by auto
  show ?thesis
  proof (rule that [of e3 "s\<lparr>read_fds := r, write_fds := w, except_fds := x\<rparr>" n3])
    show "check_fd_event e s n = Some (e3, s\<lparr>read_fds := r, write_fds := w, except_fds := x\<rparr>, n3)"
      using False ok 1 2 3 by (simp add: check_fd_event_def)
    show "answered es (s\<lparr>read_fds := r, write_fds := w, except_fds := x\<rparr>) n3"
      using ans a b c p1 p2 False by (auto simp: answered_def wanted_Cons split: if_splits)
    show "ev_dead e \<or> untouched s e \<Longrightarrow> e3 = e"
      using a b c p1 p2 False by (auto simp: untouched_def)
    show "\<exists>p. e3 = e\<lparr>ev_pending := p\<rparr>" using p3 by blast
  qed (use a b c in auto)
qed

lemma check_fd_list_ok:
  assumes "\<forall>e\<in>set es. ev_dead e \<or> \<not> bad_fd e" "answered es s n"
  shows "\<exists>es' s'. check_fd_list es s n = Some (es', s', 0) \<and> same_core s s' \<and> clk s' = clk s \<and> ticks s' = ticks s
    \<and> list_all2 (\<lambda>e e'. (\<exists>p. e' = e\<lparr>ev_pending := p\<rparr>) \<and> (ev_dead e \<or> untouched s e \<longrightarrow> e' = e)) es es'"
  using assms
proof (induction es arbitrary: s n)
  case Nil
  then show ?case by (auto simp: answered_def wanted_def same_core_def)
next
  case (Cons e es)
  show ?case
  proof (cases "n = 0")
    case True
    then show ?thesis by (auto simp: same_core_def intro!: list_all2_refl)
  next
    case False
    obtain e' s' n' where e: "check_fd_event e s n = Some (e', s', n')" "answered es s' n'"
      "ev_dead e \<or> untouched s e \<Longrightarrow> e' = e" "\<exists>p. e' = e\<lparr>ev_pending := p\<rparr>"
      and sub: "read_fds s' \<subseteq> read_fds s" "write_fds s' \<subseteq> write_fds s" "except_fds s' \<subseteq> except_fds s"
      by (rule check_fd_event_ok [OF _ Cons(3)]) (use Cons(2) in auto)
    have env: "same_core s s'" "clk s' = clk s" "ticks s' = ticks s"
      using e(1) by (auto simp: check_fd_event_def same_core_def split: if_splits prod.splits)
    have un: "untouched s x \<Longrightarrow> untouched s' x" for x using sub by (auto simp: untouched_def)
    from Cons(1) [OF _ e(2)] Cons(2) obtain es' t where t: "check_fd_list es s' n' = Some (es', t, 0)" "same_core s' t"
      "clk t = clk s'" "ticks t = ticks s'"
      "list_all2 (\<lambda>e e'. (\<exists>p. e' = e\<lparr>ev_pending := p\<rparr>) \<and> (ev_dead e \<or> untouched s' e \<longrightarrow> e' = e)) es es'"
      by auto
    show ?thesis
      using False e t(1-4) env list_all2_mono [OF t(5)] un
      by (intro exI [of _ "e' # es'"] exI [of _ t]) (auto simp: same_core_def)
  qed
qed

subsection \<open>Events become pending\<close>

definition expired :: "timeval \<Rightarrow> event \<Rightarrow> bool" where
  "expired now e \<longleftrightarrow> \<not> ev_dead e \<and> timed e \<and> ev_deadline e \<le> now"

text \<open>The effect of the checks on one event: only its pending bits change, an expired event becomes
  pending, and an event without descriptors becomes pending for no other reason.\<close>

definition checked :: "timeval \<Rightarrow> event \<Rightarrow> event \<Rightarrow> bool" where
  "checked now e e' \<longleftrightarrow> (\<exists>p. e' = e\<lparr>ev_pending := p\<rparr>) \<and> (ev_dead e \<longrightarrow> e' = e)
     \<and> (expired now e \<longrightarrow> ev_pending e' \<noteq> 0)
     \<and> (\<not> mode_has e SCHEDULER_POLL_FD \<and> ev_pending e = 0 \<longrightarrow>
          ev_pending e' = (if expired now e then SCHEDULER_POLL_TIMEOUT else 0))"

lemma check_timeout_ok:
  "\<not> (ev_pending e \<noteq> 0 \<and> ev_masked e) \<Longrightarrow>
     check_timeout now e = Some (if ev_pending e = 0 \<and> expired now e then e\<lparr>ev_pending := SCHEDULER_POLL_TIMEOUT\<rparr> else e)"
  by (auto simp: check_timeout_def expired_def timed_def not_less)

lemma check_timeout_list_ok:
  "\<forall>e\<in>set es. \<not> (ev_pending e \<noteq> 0 \<and> ev_masked e) \<Longrightarrow> check_timeout_list now es =
     Some (map (\<lambda>e. if ev_pending e = 0 \<and> expired now e then e\<lparr>ev_pending := SCHEDULER_POLL_TIMEOUT\<rparr> else e) es)"
  by (induction es) (auto simp: check_timeout_ok)

lemma checked_step:
  assumes "\<exists>p. e1 = e\<lparr>ev_pending := p\<rparr>" "ev_dead e \<or> untouched s e \<longrightarrow> e1 = e"
  shows "checked now e (if ev_pending e1 = 0 \<and> expired now e1 then e1\<lparr>ev_pending := SCHEDULER_POLL_TIMEOUT\<rparr> else e1)"
proof -
  obtain p where p: "e1 = e\<lparr>ev_pending := p\<rparr>" using assms(1) by blast
  have ex: "expired now e1 = expired now e" by (simp add: p expired_def timed_def)
  have pe: "ev_pending e1 = p" "ev_dead e1 = ev_dead e" by (simp_all add: p)
  have u: "untouched s e" if "\<not> mode_has e SCHEDULER_POLL_FD" using that by (simp add: mode_has_fd untouched_def)
  show ?thesis
  proof (cases "e1 = e")
    case True
    then show ?thesis by (auto simp: checked_def expired_def)
  next
    case False
    then have "\<not> ev_dead e" "mode_has e SCHEDULER_POLL_FD" using assms(2) u by auto
    then show ?thesis by (auto simp: checked_def ex p [symmetric] pe) (auto simp: p)
  qed
qed

lemma check_events_ok:
  assumes fds: "fds_ok s" and ans: "answered (events s) s n"
    and m: "\<forall>e\<in>set (events s). ev_masked e \<longrightarrow> ev_pending e = 0 \<and> (ev_dead e \<or> untouched s e)"
  shows "\<exists>t. scheduler_check_events s n = Some (0, t) \<and> list_all2 (checked (clk s (ticks s))) (events s) (events t)
    \<and> depth t = depth s \<and> called t = called s"
proof -
  obtain es' s' where l: "check_fd_list (events s) s n = Some (es', s', 0)" and core: "same_core s s'"
    and env: "clk s' = clk s" "ticks s' = ticks s"
    and a2: "list_all2 (\<lambda>e e'. (\<exists>p. e' = e\<lparr>ev_pending := p\<rparr>) \<and> (ev_dead e \<or> untouched s e \<longrightarrow> e' = e)) (events s) es'"
    using check_fd_list_ok [OF _ ans] fds unfolding fds_ok_def by blast
  have masked: "\<forall>e\<in>set es'. \<not> (ev_pending e \<noteq> 0 \<and> ev_masked e)"
    using a2 m by (fastforce simp: list_all2_conv_all_nth in_set_conv_nth)
  let ?f = "\<lambda>e. if ev_pending e = 0 \<and> expired (clk s (ticks s)) e then e\<lparr>ev_pending := SCHEDULER_POLL_TIMEOUT\<rparr> else e"
  have "list_all2 (checked (clk s (ticks s))) (events s) (map ?f es')"
    using a2 checked_step [where s = s] by (auto simp: list_all2_conv_all_nth)
  moreover have "n = 0 \<longrightarrow> es' = events s \<and> s' = s"
    using l by (cases "events s") auto
  ultimately show ?thesis
    using l masked env core
    by (auto simp: scheduler_check_events_def scheduler_check_fd_events_def scheduler_check_timeouts_def
        gettimeofday_def check_timeout_list_ok same_core_def)
qed

text \<open>A masked event shares no polled descriptor; \<^verbatim>\<open>select\<close> then answers within what it was asked.\<close>

definition unshared :: "scheduler \<Rightarrow> bool" where
  "unshared s \<longleftrightarrow> (\<forall>e\<in>set (events s). ev_masked e \<and> \<not> ev_dead e \<longrightarrow>
     (\<forall>b\<in>{SCHEDULER_POLL_READ_FD, SCHEDULER_POLL_WRITE_FD, SCHEDULER_POLL_EXCEPT_FD}.
        mode_has e b \<longrightarrow> ev_fd e \<notin> polled b (events s)))"

definition quiet :: "scheduler \<Rightarrow> bool" where
  "quiet s \<longleftrightarrow> (\<forall>e\<in>set (events s). ev_pending e = 0)"

lemma polled_wanted: "polled b es \<subseteq> wanted b es"
  by (auto simp: polled_def wanted_def pollable_def)

lemma select_answer:
  assumes "select_loop os s = (q, t)" "\<not> q < 0"
    and "read_fds s = polled SCHEDULER_POLL_READ_FD (events s)" "write_fds s = polled SCHEDULER_POLL_WRITE_FD (events s)"
    "except_fds s = polled SCHEDULER_POLL_EXCEPT_FD (events s)"
  shows "answered (events s) t q \<and> read_fds t \<subseteq> read_fds s \<and> write_fds t \<subseteq> write_fds s \<and> except_fds t \<subseteq> except_fds s
    \<and> clk t = clk s \<and> ticks t = ticks s \<and> events t = events s"
  using assms
proof (induction os s rule: select_loop.induct)
  case (3 r w x os s)
  then show ?case
    using polled_wanted [of 1 "events s"] polled_wanted [of 2 "events s"] polled_wanted [of 4 "events s"]
    by (auto simp: answered_def Let_def)
qed (auto simp: answered_def split: if_splits)

end
