(* ===== verification/Sched_Quiet.thy ===== *)
theory Sched_Quiet
  imports Sched_Run
begin

text \<open>Pending events do not outlive a wait, and the loop over the events ends whenever the callbacks
  return, whatever they register meanwhile.\<close>

subsection \<open>Positions without a pending live event\<close>

definition clear :: "nat set \<Rightarrow> scheduler \<Rightarrow> bool" where
  "clear J s \<longleftrightarrow> (\<forall>i<length (events s). i \<in> J \<longrightarrow> \<not> ev_dead (events s ! i) \<longrightarrow> ev_pending (events s ! i) = 0)"

text \<open>What code that runs below a wait keeps.\<close>

definition settles :: "scheduler \<Rightarrow> scheduler \<Rightarrow> bool" where
  "settles s t \<longleftrightarrow> length (events s) \<le> length (events t) \<and> (\<forall>J. clear J s \<longrightarrow> clear J t)"

lemma settles_refl [simp]: "settles s s"
  by (simp add: settles_def)

lemma settles_trans: "settles a b \<Longrightarrow> settles b c \<Longrightarrow> settles a c"
  by (auto simp: settles_def)

lemma clear_events: "events t = events s \<Longrightarrow> clear J t = clear J s"
  by (simp add: clear_def)

lemma settles_events: "events t = events s \<Longrightarrow> settles s t"
  by (simp add: settles_def clear_def)

lemma clear_quiet: "quiet s \<Longrightarrow> clear J s"
  by (auto simp: quiet_def clear_def)

definition same_pending :: "event \<Rightarrow> event \<Rightarrow> bool" where
  "same_pending e e' \<longleftrightarrow> ev_pending e' = ev_pending e \<and> (ev_dead e \<longrightarrow> ev_dead e')"

lemma same_pending_upd: "(\<And>e. same_pending e (f e)) \<Longrightarrow> list_all2 same_pending es (upd_first u f es)"
  by (induction es) (auto simp: same_pending_def list_all2_refl)

lemma settles_same: "list_all2 same_pending (events s) (events t) \<Longrightarrow> settles s t"
  by (auto simp: settles_def clear_def list_all2_conv_all_nth same_pending_def)

lemma quiet_same: "list_all2 same_pending (events s) (events t) \<Longrightarrow> quiet s \<Longrightarrow> quiet t"
  by (fastforce simp: quiet_def list_all2_conv_all_nth same_pending_def in_set_conv_nth)

lemma set_timeout_pending: "scheduler_event_set_timeout s u tv = (r, t) \<Longrightarrow> list_all2 same_pending (events s) (events t)"
  by (auto simp: scheduler_event_set_timeout_def gettimeofday_def same_pending_def list_all2_refl
      intro!: same_pending_upd split: if_splits option.splits)

lemma unregister_pending: "list_all2 same_pending (events s) (events (scheduler_unregister_event s u))"
  by (auto simp: scheduler_unregister_event_def same_pending_def list_all2_refl intro!: same_pending_upd)

lemma mask_pending: "list_all2 same_pending (events s) (events (scheduler_mask_event s u m))"
  by (auto simp: scheduler_mask_event_def same_pending_def list_all2_refl intro!: same_pending_upd)

lemma register_events:
  assumes "scheduler_register_event mem s mode fd timeout cb priv = Some (r, t)"
  shows "events t = events s \<or> (\<exists>e. events t = events s @ [e] \<and> ev_pending e = 0)"
  using assms
  by (auto simp: scheduler_register_event_def scheduler_get_event_uuid_def gettimeofday_def Let_def
      split: if_splits option.splits)

lemma register_settles:
  assumes "scheduler_register_event mem s mode fd timeout cb priv = Some (r, t)"
  shows "settles s t \<and> (quiet s \<longrightarrow> quiet t)"
  using register_events [OF assms]
  by (auto simp: settles_def clear_def quiet_def nth_append less_Suc_eq)

lemma api_settles:
  assumes w: "\<And>s r t. w s = Some (r, t) \<Longrightarrow> 1 \<le> depth s \<Longrightarrow> settles s t \<and> depth t = depth s"
    and run: "api w s t" "1 \<le> depth s"
  shows "settles s t \<and> depth t = depth s"
  using run
proof induction
  case base
  then show ?case by simp
next
  case (step a b)
  from step(2) have "settles a b \<and> depth b = depth a"
  proof cases
    case (register mem mode fd timeout cb priv r)
    then show ?thesis using register_settles ids.keeps_register ids.keeps_def by blast
  next
    case (set_timeout u tv r)
    then show ?thesis using set_timeout_pending settles_same set_timeout_same same_events_def by blast
  next
    case (wait r)
    then show ?thesis using w step by auto
  qed (auto simp: settles_same unregister_pending mask_pending settles_events scheduler_unregister_event_def
      scheduler_mask_event_def scheduler_set_max_timeout_def same_pending_def intro!: settles_same same_pending_upd)
  then show ?case using step(3,4) by (auto intro: settles_trans)
qed

subsection \<open>The loop over the events\<close>

text \<open>Callbacks that keep it, as those do that use the operations of the scheduler (\<open>uses_api_settling\<close> below).\<close>

definition settling :: "callbacks \<Rightarrow> bool" where
  "settling cbf \<longleftrightarrow> (\<forall>c u m p s t. cbf c u m p s = Some t \<longrightarrow> 1 \<le> depth s \<longrightarrow> settles s t \<and> depth t = depth s)"

lemma clear_taken: "clear J s \<Longrightarrow> i < length (events s) \<Longrightarrow> clear (insert i J) (taken i s)"
  by (auto simp: clear_def nth_list_update)

lemma callback_settles:
  assumes "settling cbf" and "scheduler_event_callback cbf i m s = Some t" "1 \<le> depth s" "i < length (events s)"
  shows "settles s t \<and> depth t = depth s"
proof -
  have b: "settles s (before_call i s)" "depth (before_call i s) = depth s"
    using assms(4) by (auto simp: before_call_def Let_def settles_def clear_def nth_list_update)
  show ?thesis
  proof (cases "ev_masked (events s ! i)")
    case True
    then show ?thesis using assms(2) b by (simp add: event_callback_eq)
  next
    case False
    let ?c = "(before_call i s)\<lparr>called := called s @ [(ev_id (events s ! i), m)]\<rparr>"
    have "settles (before_call i s) ?c" by (rule settles_events) simp
    then show ?thesis
      using assms(1-3) False b
      by (auto simp: event_callback_eq settling_def intro: settles_trans)
  qed
qed

lemma run_settles:
  assumes cb: "settling cbf" and "run_events_from cbf i n s = Some (n', t)" "1 \<le> depth s" "clear {..<i} s"
  shows "clear UNIV t \<and> depth t = depth s \<and> length (events s) \<le> length (events t)"
  using assms(2-)
proof (induction rule: run_events_induct)
  case (finish i n s)
  then show ?case by (auto simp: clear_def)
next
  case (skip i n s n' t)
  then have "clear {..<i + 1} s" by (auto simp: clear_def less_Suc_eq)
  then show ?case using skip by simp
next
  case (dispatch i n s u n' t)
  have "clear (insert i {..<i}) (taken i s)" by (rule clear_taken) (use dispatch in auto)
  moreover have "settles (taken i s) u \<and> depth u = depth s" using callback_settles [OF cb dispatch(4)] dispatch by auto
  ultimately have "clear {..<i + 1} u" "depth u = depth s" "length (events s) \<le> length (events u)"
    by (auto simp: settles_def lessThan_Suc)
  then show ?case using dispatch by auto
qed

lemma run_nothing:
  assumes "\<And>j. i \<le> j \<Longrightarrow> j < length (events s) \<Longrightarrow> ev_dead (events s ! j) \<or> ev_pending (events s ! j) = 0"
  shows "run_events_from cbf i n s = Some (n, s)"
  using assms
proof (induction "length (events s) - i" arbitrary: i)
  case 0
  then show ?case by (subst run_events_from.simps) simp
next
  case (Suc k)
  then have "run_events_from cbf (i + 1) n s = Some (n, s)" by (intro Suc(1)) auto
  then show ?case using Suc by (subst run_events_from.simps) (auto simp: Let_def)
qed

text \<open>The events registered meanwhile are not pending: the loop passes over them.\<close>

lemma run_ends:
  assumes cb: "settling cbf" and returns: "\<And>c u m p s. depth s = d \<Longrightarrow> cbf c u m p s \<noteq> None" and d: "1 \<le> d"
    and "depth s = d" "clear {L..} s"
  shows "\<exists>n' t. run_events_from cbf i n s = Some (n', t) \<and> n' \<le> n + (L - i)"
  using assms(4,5)
proof (induction "L - i" arbitrary: i n s)
  case 0
  then have "run_events_from cbf i n s = Some (n, s)" by (intro run_nothing) (auto simp: clear_def)
  then show ?case by auto
next
  case (Suc k)
  show ?case
  proof (cases "i < length (events s) \<and> \<not> ev_dead (events s ! i) \<and> ev_pending (events s ! i) \<noteq> 0")
    case True
    let ?m = "ev_pending (events s ! i)"
    have "depth ((before_call i (taken i s))\<lparr>called := x\<rparr>) = d" for x
      using Suc(3) by (simp add: before_call_def Let_def)
    then obtain u where u: "scheduler_event_callback cbf i ?m (taken i s) = Some u"
      using returns unfolding event_callback_eq by (cases "ev_masked (events (taken i s) ! i)") force+
    have c: "clear {L..} (taken i s)"
      using clear_taken [OF Suc(4), of i] True by (auto simp: clear_def)
    have "settles (taken i s) u \<and> depth u = d" using callback_settles [OF cb u] d Suc(3) True by simp
    then have "\<exists>n' t. run_events_from cbf (i + 1) (n + 1) u = Some (n', t) \<and> n' \<le> n + 1 + (L - (i + 1))"
      using c Suc(2) by (intro Suc(1)) (auto simp: settles_def)
    then show ?thesis using True u Suc(2) by (subst run_events_from.simps) (auto simp: Let_def)
  next
    case False
    have "\<exists>n' t. run_events_from cbf (i + 1) n s = Some (n', t) \<and> n' \<le> n + (L - (i + 1))"
      using Suc by (intro Suc(1)) auto
    then obtain n' t where "run_events_from cbf (i + 1) n s = Some (n', t)" "n' \<le> n + (L - i)" using Suc(2) by fastforce
    then show ?thesis using False by (subst run_events_from.simps) (auto simp: Let_def)
  qed
qed

subsection \<open>Waits\<close>

lemma prepared_events: "scheduler_prepare_events a = Some b \<Longrightarrow> select_loop (selects b) b = (q, c) \<Longrightarrow> events c = events a"
  by (metis prepare_same select_same same_core_def)

lemma checked_length: "scheduler_check_events c q = Some (r, u) \<Longrightarrow> length (events u) = length (events c)"
  using check_events_same [of c q r u] by (auto simp: same_events_def dest: list_all2_lengthD)

lemma clear_empty [simp]: "clear {} s"
  by (simp add: clear_def)

lemma wait_settles:
  assumes cb: "settling cbf" and run: "scheduler_wait_for_events cbf s = Some (r, t)" and d: "1 \<le> depth s"
  shows "settles s t \<and> depth t = depth s"
proof -
  have first: "clear UNIV a \<and> depth a = depth s + 1 \<and> length (events s) \<le> length (events a)"
    if "scheduler_run_events cbf (entered s) = Some (n, a)" for n a
    using run_settles [OF cb that [unfolded scheduler_run_events_def]] d by simp
  have all: "settles s t" if "clear UNIV t" "length (events s) \<le> length (events t)" for t
    using that by (auto simp: settles_def clear_def)
  from run show ?thesis
  proof (cases rule: wait_cases)
    case (progress n a)
    then show ?thesis using first [OF progress(2)] by (auto simp: leave_def clear_def intro: all)
  next
    case (failed a b c)
    then show ?thesis
      using first [of 0 a] d prepared_events [OF failed(2,3)] prepare_same [OF failed(2)] select_same [OF failed(3)]
      by (auto simp: leave_def clear_def same_core_def intro!: all)
  next
    case (ran a b c q u n v)
    have u: "depth (reset_timeouts u) = depth s + 1" "length (events s) \<le> length (events (reset_timeouts u))"
      using first [of 0 a] ran d prepared_events [OF ran(2,3)] prepare_same [OF ran(2)] select_same [OF ran(3)]
        check_events_same [OF ran(5)] checked_length [OF ran(5)]
      by (auto simp: same_core_def same_events_def)
    then have v: "clear UNIV v \<and> depth v = depth s + 1 \<and> length (events s) \<le> length (events v)"
      using run_settles [OF cb ran(6) [unfolded scheduler_run_events_def]] d by auto
    then show ?thesis using d by (auto simp: ran(8) leave_def clear_def intro!: all)
  qed
qed

lemma body_settling:
  assumes "uses_api body" "\<And>s r t. w s = Some (r, t) \<Longrightarrow> 1 \<le> depth s \<Longrightarrow> settles s t \<and> depth t = depth s"
  shows "settling (body w)"
  unfolding settling_def
proof (intro allI impI)
  fix c u m p s t assume "body w c u m p s = Some t" and d: "1 \<le> depth s"
  then have "api w s t" using assms(1) unfolding uses_api_def by blast
  then show "settles s t \<and> depth t = depth s" by (rule api_settles [rotated]) (fact d, fact assms(2))
qed

lemma nested_settles:
  assumes api: "uses_api body"
  shows "wait_nested body k s = Some (r, t) \<Longrightarrow> 1 \<le> depth s \<Longrightarrow> settles s t \<and> depth t = depth s"
proof (induction k arbitrary: s r t)
  case 0
  then show ?case by simp
next
  case (Suc k)
  have "settling (body (wait_nested body k))"
    by (rule body_settling [OF api Suc(1)])
  then show ?case using wait_settles Suc(2,3) by simp
qed

lemma uses_api_settling: "uses_api body \<Longrightarrow> settling (body (wait_nested body k))"
  by (rule body_settling [OF _ nested_settles])

text \<open>At depth zero nothing is pending.\<close>

lemma wait_quiet:
  assumes cb: "settling cbf" and run: "scheduler_wait_for_events cbf s = Some (r, t)" and d: "depth s = 0" "quiet s"
  shows "quiet t"
  using run
proof (cases rule: wait_cases)
  case (progress n a)
  then show ?thesis using d by simp
next
  case (failed a b c)
  then show ?thesis using d prepared_events [OF failed(2,3)] by (auto simp: quiet_def leave_def)
next
  case (ran a b c q u n v)
  have "depth (reset_timeouts u) = 1"
    using ran(1) d prepare_same [OF ran(2)] select_same [OF ran(3)] check_events_same [OF ran(5)]
    by (auto simp: same_core_def same_events_def)
  then have v: "clear UNIV v" "depth v = 1"
    using run_settles [OF cb ran(6) [unfolded scheduler_run_events_def]] by auto
  have "ev_pending e = 0" if "e \<in> set (events v)" "\<not> ev_dead e" for e
    using that v(1) by (auto simp: clear_def in_set_conv_nth)
  then show ?thesis by (auto simp: ran(8) v(2) quiet_def leave_def scheduler_gc_events_def)
qed

lemma api_quiet:
  assumes api: "uses_api body" and run: "api (wait_nested body k) s t" and d: "depth s = 0" "quiet s"
  shows "quiet t \<and> depth t = 0"
  using run
proof induction
  case base
  then show ?case using d by simp
next
  case (step a b)
  have dep: "depth b = depth a"
    using ids.keeps_runs [OF api, of k a b] step(2) by auto
  from step(2) have "quiet b"
  proof cases
    case (wait r)
    obtain j where "k = Suc j" using wait by (cases k) auto
    then show ?thesis using wait_quiet [OF uses_api_settling [OF api]] wait step(3) by auto
  next
    case (register mem mode fd timeout cb priv r)
    then show ?thesis using register_settles step(3) by blast
  next
    case (set_timeout u tv r)
    then show ?thesis using set_timeout_pending quiet_same step(3) by blast
  next
    case (unregister u)
    then show ?thesis using quiet_same [OF unregister_pending] step(3) by blast
  next
    case (mask u m)
    then show ?thesis using quiet_same [OF mask_pending] step(3) by blast
  next
    case (set_max tv)
    then show ?thesis using step(3) by (simp add: quiet_def scheduler_set_max_timeout_def)
  qed
  then show ?case using dep step(3) by simp
qed

subsection \<open>A wait returns\<close>

definition select_works :: "scheduler \<Rightarrow> bool" where
  "select_works s \<longleftrightarrow> (\<forall>x\<in>set (selects s). case x of SelFail e \<Rightarrow> e = EINTR | _ \<Rightarrow> True)"

lemma select_no_error:
  "\<forall>x\<in>set os. case x of SelFail e \<Rightarrow> e = EINTR | _ \<Rightarrow> True \<Longrightarrow> select_loop os s = (q, t) \<Longrightarrow> \<not> q < 0"
  by (induction os s arbitrary: q t rule: select_loop.induct) (auto simp: Let_def)

lemma unshared_untouched:
  assumes "unshared s" "e \<in> set (events s)" "ev_masked e" "\<not> ev_dead e"
    and "read_fds c \<subseteq> polled SCHEDULER_POLL_READ_FD (events s)" "write_fds c \<subseteq> polled SCHEDULER_POLL_WRITE_FD (events s)"
    "except_fds c \<subseteq> polled SCHEDULER_POLL_EXCEPT_FD (events s)"
  shows "untouched c e"
  using assms unfolding unshared_def untouched_def by blast

lemma wait_open:
  assumes d: "depth s = 0" and q: "quiet s" and f: "fds_ok s" and u: "unshared s"
  obtains r c where "\<not> select_works s" "r < 0" "\<And>cbf. scheduler_wait_for_events cbf s = Some (r, leave c)"
  | t where "list_all2 (checked (clk s (Suc (ticks s)))) (events s) (events t)" "depth t = 1" "called t = called s"
      "\<And>cbf. scheduler_wait_for_events cbf s = Option.bind (scheduler_run_events cbf t)
         (\<lambda>(_, v). Some (0, leave (if depth v = 1 then scheduler_gc_events v else v)))"
proof -
  have f': "fds_ok (entered s)" using f by (simp add: fds_ok_def)
  obtain b where b: "scheduler_prepare_events (entered s) = Some b"
    and bs: "read_fds b = polled SCHEDULER_POLL_READ_FD (events s)" "write_fds b = polled SCHEDULER_POLL_WRITE_FD (events s)"
      "except_fds b = polled SCHEDULER_POLL_EXCEPT_FD (events s)" "clk b = clk s" "ticks b = Suc (ticks s)" "events b = events s"
      "selects b = selects s"
    using prepare_ok [OF f'] by simp
  have b1: "scheduler_prepare_events (s\<lparr>depth := 1\<rparr>) = Some b" using b d by simp
  obtain q c where c: "select_loop (selects b) b = (q, c)" by fastforce
  have core: "depth c = 1" "called c = called s" "events c = events s"
    using prepare_same [OF b] select_same [OF c] d by (auto simp: same_core_def)
  show thesis
  proof (cases "q < 0")
    case True
    have w: "\<not> select_works s" using select_no_error [OF _ c] True by (auto simp: select_works_def bs(7))
    show thesis
      by (rule that(1) [OF w True, of c]) (simp add: scheduler_wait_for_events_def d b1 c True)
  next
    case False
    have a: "answered (events c) c q" and sub: "read_fds c \<subseteq> polled SCHEDULER_POLL_READ_FD (events s)"
      "write_fds c \<subseteq> polled SCHEDULER_POLL_WRITE_FD (events s)" "except_fds c \<subseteq> polled SCHEDULER_POLL_EXCEPT_FD (events s)"
      and clk: "clk c = clk s" "ticks c = Suc (ticks s)"
      using select_answer [OF c False] bs core(3) by auto
    have m: "\<forall>e\<in>set (events c). ev_masked e \<longrightarrow> ev_pending e = 0 \<and> (ev_dead e \<or> untouched c e)"
      using \<open>quiet s\<close> unshared_untouched [OF u _ _ _ sub] by (auto simp: quiet_def core(3))
    have "fds_ok c" using f by (simp add: fds_ok_def core(3))
    then obtain t where t: "scheduler_check_events c q = Some (0, t)"
      "list_all2 (checked (clk s (Suc (ticks s)))) (events s) (events t)" "depth t = 1" "called t = called s"
      using check_events_ok [OF _ a m] by (auto simp: clk core)
    show thesis
      by (rule that(2) [of "reset_timeouts t"])
         (use t in \<open>auto simp: scheduler_wait_for_events_def d b1 c False Let_def\<close>)
  qed
qed

lemma wait_returns_settling:
  assumes cb: "settling cbf" and returns: "\<And>c u m p a. depth a = 1 \<Longrightarrow> cbf c u m p a \<noteq> None"
    and s: "depth s = 0" "quiet s" "fds_ok s" "unshared s"
  shows "\<exists>r t. scheduler_wait_for_events cbf s = Some (r, t) \<and> r \<le> 0 \<and> (select_works s \<longrightarrow> r = 0)"
proof (cases rule: wait_open [OF s])
  case (1 r c)
  then show ?thesis by auto
next
  case (2 t)
  have "\<exists>n v. run_events_from cbf 0 0 t = Some (n, v) \<and> n \<le> 0 + (length (events t) - 0)"
    by (rule run_ends [OF cb returns]) (auto simp: 2 clear_def)
  then show ?thesis by (auto simp: 2(4) scheduler_run_events_def)
qed

subsection \<open>Callbacks that leave the present events alone\<close>

text \<open>Callbacks may still register events.\<close>

definition additive :: "callbacks \<Rightarrow> bool" where
  "additive cbf \<longleftrightarrow> (\<forall>c u m p s. \<exists>t es. cbf c u m p s = Some t \<and> events t = events s @ es
     \<and> (\<forall>e\<in>set es. ev_pending e = 0) \<and> called t = called s \<and> depth t = depth s)"

definition due :: "event \<Rightarrow> bool" where
  "due e \<longleftrightarrow> \<not> ev_dead e \<and> ev_pending e \<noteq> 0"

definition calls :: "event list \<Rightarrow> (int \<times> byte) list" where
  "calls es = map (\<lambda>e. (ev_id e, ev_pending e)) (filter (\<lambda>e. due e \<and> \<not> ev_masked e) es)"

lemma calls_Cons: "calls (e # es) = (if due e \<and> \<not> ev_masked e then [(ev_id e, ev_pending e)] else []) @ calls es"
  by (simp add: calls_def)

lemma additive_step:
  assumes "additive cbf" "i < length (events s)"
  obtains t es where "scheduler_event_callback cbf i (ev_pending (events s ! i)) (taken i s) = Some t"
    "drop (i + 1) (events t) = drop (i + 1) (events s) @ es" "\<forall>e\<in>set es. ev_pending e = 0" "depth t = depth s"
    "called t = called s @ (if ev_masked (events s ! i) then [] else [(ev_id (events s ! i), ev_pending (events s ! i))])"
    "length (events s) \<le> length (events t)"
proof (cases "ev_masked (events s ! i)")
  case True
  show thesis
    by (rule that [of "before_call i (taken i s)" "[]"])
       (use True assms(2) in \<open>auto simp: event_callback_eq before_call_def Let_def\<close>)
next
  case False
  let ?c = "(before_call i (taken i s))\<lparr>called := called s @ [(ev_id (events s ! i), ev_pending (events s ! i))]\<rparr>"
  obtain t es where t: "cbf (ev_cb (events s ! i)) (ev_id (events s ! i)) (ev_pending (events s ! i))
      (ev_private (events s ! i)) ?c = Some t" "events t = events ?c @ es" "\<forall>e\<in>set es. ev_pending e = 0"
    "called t = called ?c" "depth t = depth ?c"
    using assms(1) unfolding additive_def by blast
  have c: "drop (i + 1) (events ?c) = drop (i + 1) (events s)" "length (events ?c) = length (events s)" "depth ?c = depth s"
    by (auto simp: before_call_def Let_def)
  show thesis
    by (rule that [of t es]) (use False assms(2) t c in \<open>auto simp: event_callback_eq\<close>)
qed

lemma run_additive:
  assumes cb: "additive cbf"
  shows "drop i (events s) = xs @ ys \<Longrightarrow> \<forall>e\<in>set ys. ev_pending e = 0 \<Longrightarrow>
    \<exists>t. run_events_from cbf i n s = Some (n + length (filter due xs), t) \<and> called t = called s @ calls xs \<and> depth t = depth s"
proof (induction xs arbitrary: i n s ys)
  case Nil
  have "ev_pending (events s ! j) = 0" if "i \<le> j" "j < length (events s)" for j
  proof -
    have "events s ! j = drop i (events s) ! (j - i)" using that by simp
    moreover have "drop i (events s) ! (j - i) \<in> set (drop i (events s))" using that by (intro nth_mem) simp
    ultimately show ?thesis using Nil by simp
  qed
  then have "run_events_from cbf i n s = Some (n, s)" by (intro run_nothing) auto
  then show ?case by (simp add: calls_def)
next
  case (Cons e xs)
  have dr: "drop i (events s) = e # (xs @ ys)" using Cons(2) by simp
  have i: "i < length (events s)" by (rule ccontr) (use dr in simp)
  have e: "events s ! i = e" by (rule nth_via_drop [OF dr])
  have d: "drop (i + 1) (events s) = xs @ ys" using arg_cong [OF dr, of tl] by (simp add: drop_Suc drop_tl)
  show ?case
  proof (cases "due e")
    case False
    then have "ev_dead e \<or> ev_pending e = 0" by (simp add: due_def)
    then show ?thesis
      using Cons(1) [OF d Cons(3), of n] i e False by (subst run_events_from.simps) (auto simp: calls_Cons Let_def)
  next
    case True
    then have live: "\<not> ev_dead e" "ev_pending e \<noteq> 0" by (simp_all add: due_def)
    obtain t es where t: "scheduler_event_callback cbf i (ev_pending e) (taken i s) = Some t"
      "drop (i + 1) (events t) = drop (i + 1) (events s) @ es" "\<forall>e\<in>set es. ev_pending e = 0" "depth t = depth s"
      "called t = called s @ (if ev_masked e then [] else [(ev_id e, ev_pending e)])"
      using additive_step [OF cb i] e by metis
    have "drop (i + 1) (events t) = xs @ (ys @ es)" "\<forall>e\<in>set (ys @ es). ev_pending e = 0"
      using t d Cons(3) by auto
    from Cons(1) [OF this, of "n + 1"] show ?thesis
      using i e True t live by (subst run_events_from.simps) (auto simp: calls_Cons Let_def)
  qed
qed

end
