(* ===== verification/Sched_Props.thy ===== *)
theory Sched_Props
  imports Sched_Quiet
begin

text \<open>Properties of the event scheduler, over every program that uses its operations and callbacks
  that nest waits to any depth.\<close>

subsection \<open>Sample programs\<close>

text \<open>A clock that advances ten seconds per reading; callbacks that unregister their event, and
  callbacks that do nothing.\<close>

definition demo_env :: scheduler where
  "demo_env = \<lparr> read_fds = {}, write_fds = {}, except_fds = {}, events = [], uuid = 0, uuid_overflow = False,
     max_fd = 0, sched_timeout = TV_ZERO, max_timeout = TV_ZERO, depth = 0, clk = (\<lambda>n. TV (10 * int n) 0), ticks = 0,
     selects = [SelFail EINTR], called = [] \<rparr>"

definition once_body :: "(scheduler \<Rightarrow> (int \<times> scheduler) option) \<Rightarrow> callbacks" where
  "once_body w c u m p s = Some (scheduler_unregister_event s u)"

definition idle_cb :: callbacks where
  "idle_cb c u m p s = Some s"

definition demo_event :: "int \<Rightarrow> event" where
  "demo_event u = \<lparr> ev_mode = SCHEDULER_POLL_TIMEOUT, ev_dead = False, ev_pending = 0, ev_masked = False, ev_id = u,
     ev_fd = -1, ev_timeout = TV 5 0, ev_deadline = TV 5 0, ev_cb = 1, ev_private = 0 \<rparr>"

text \<open>After one registration.\<close>

definition demo_state :: scheduler where
  "demo_state = (scheduler_initialize demo_env)\<lparr>events := [demo_event 1], uuid := 2, ticks := 1\<rparr>"

lemma once_api: "uses_api once_body"
  by (auto simp: uses_api_def once_body_def intro: api_call.unregister)

lemma demo_register:
  "scheduler_register_event True (scheduler_initialize demo_env) SCHEDULER_POLL_TIMEOUT (-1) (TV 5 0) 1 0 = Some (1, demo_state)"
  by (simp add: scheduler_register_event_def scheduler_initialize_def demo_env_def gettimeofday_def demo_state_def
      demo_event_def scheduler_get_event_uuid_def TV_IS_INF_def TV_ADD_def)

lemma demo_reach: "api w (scheduler_initialize demo_env) demo_state"
  using api_call.register [OF demo_register] by blast

lemma demo_fields [simp]: "events demo_state = [demo_event 1]" "uuid demo_state = 2" "uuid_overflow demo_state = False"
  "depth demo_state = 0" "clk demo_state = (\<lambda>n. TV (10 * int n) 0)" "ticks demo_state = 1" "selects demo_state = [SelFail EINTR]"
  "called demo_state = []"
  by (simp_all add: demo_state_def scheduler_initialize_def demo_env_def)

lemma demo_mode: "mode_has (demo_event u) SCHEDULER_POLL_TIMEOUT" "\<not> mode_has (demo_event u) SCHEDULER_POLL_FD"
  by (simp_all add: mode_has_def demo_event_def)

lemma demo_ok: "quiet demo_state" "fds_ok demo_state" "unshared demo_state" "select_works demo_state"
  by (simp_all add: quiet_def fds_ok_def unshared_def select_works_def bad_fd_def mode_has_def demo_event_def)

subsection \<open>Every run\<close>

lemma initial_ids: "ids_ok (scheduler_initialize z)" "quiet (scheduler_initialize z)" "depth (scheduler_initialize z) = 0"
  by (simp_all add: ids_ok_def valid_id_def quiet_def scheduler_initialize_def)

lemma reach_ok:
  assumes "uses_api body" "api (wait_nested body k) (scheduler_initialize z) s"
  shows "ids_ok s \<and> quiet s \<and> depth s = 0"
  using api_quiet [OF assms] ids.keeps_runs [OF assms] by (simp add: initial_ids)

text \<open>C12: In every state that a program reaches through the scheduler's operations, with callbacks that use
  them too and nest waits to any depth, the events have distinct identifiers between 1 and the largest
  32-bit integer, no event is pending outside a wait, and the nesting depth is back at zero.\<close>

theorem sched_invariant:
  assumes "uses_api body" and "api (wait_nested body k) (scheduler_initialize z) s"
  shows "distinct (map ev_id (events s)) \<and> depth s = 0
    \<and> list_all (\<lambda>e. 1 \<le> ev_id e \<and> ev_id e \<le> 2147483647 \<and> ev_pending e = 0) (events s)"
  using reach_ok [OF assms] by (auto simp: ids_ok_def quiet_def valid_id_def list_all_iff)

theorem sched_invariant_witness:
  "uses_api once_body \<and> api (wait_nested once_body 3) (scheduler_initialize demo_env) demo_state
    \<and> distinct (map ev_id (events demo_state)) \<and> events demo_state \<noteq> []"
  using sched_invariant [OF once_api demo_reach] once_api demo_reach by auto

text \<open>C16: As long as fewer events are registered than there are identifiers, the registration of an event ends:
  the search for an identifier that no event has needs at most one step per event, also after the counter
  has wrapped, and the new event is appended with its deadline set.\<close>

theorem sched_register_ends:
  assumes "uses_api body" and "api (wait_nested body k) (scheduler_initialize z) s"
    and "int (length (events s)) < 2147483647" and "cb \<noteq> 0" and "and mode 0xF \<noteq> 0"
  shows "\<exists>u t e. scheduler_register_event True s mode fd timeout cb private = Some (u, t) \<and> 1 \<le> u
    \<and> u \<notin> ev_id ` set (events s) \<and> events t = events s @ [e] \<and> ev_id e = u \<and> ev_cb e = cb \<and> ev_pending e = 0
    \<and> (\<not> TV_IS_INF timeout \<longrightarrow> ev_deadline e = TV_ADD (clk s (ticks s)) timeout)"
proof -
  have ok: "ids_ok s" using reach_ok [OF assms(1,2)] by simp
  let ?s = "s\<lparr>ticks := Suc (ticks s)\<rparr>"
  have ok': "ids_ok ?s" using ok by (simp add: ids_ok_def)
  obtain v where "find_uuid (length (events s)) (events s) (uuid s) = Some v"
    using find_uuid_ends [OF _ assms(3)] ok by (auto simp: ids_ok_def)
  then have "\<exists>u t. scheduler_get_event_uuid ?s = Some (u, t)"
    using ok by (auto simp: scheduler_get_event_uuid_def ids_ok_def valid_id_def Let_def)
  then obtain u t where u: "scheduler_get_event_uuid ?s = Some (u, t)" by blast
  have m: "\<not> (and mode 8 = 0 \<and> and mode 7 = 0)"
    using assms(5) bit.conj_disj_distrib [of mode 8 7] by auto
  show ?thesis
    using get_uuid_fresh [OF u ok'] u m assms(4)
    by (auto simp: scheduler_register_event_def gettimeofday_def valid_id_def)
qed

theorem sched_register_ends_witness:
  "\<exists>u t e. scheduler_register_event True demo_state 8 (-1) (TV 5 0) 1 0 = Some (u, t) \<and> 1 \<le> u
    \<and> u \<notin> {1} \<and> events t = [demo_event 1, e] \<and> ev_deadline e = TV 15 0"
  using sched_register_ends [OF once_api demo_reach, of 1 8 "-1" "TV 5 0" 0]
  by (auto simp: demo_event_def TV_IS_INF_def TV_ADD_def)

subsection \<open>One wait\<close>

lemma polled_ok: "fds_ok s \<Longrightarrow> b \<in> {SCHEDULER_POLL_READ_FD, SCHEDULER_POLL_WRITE_FD, SCHEDULER_POLL_EXCEPT_FD, SCHEDULER_POLL_FD}
    \<Longrightarrow> polled b (events s) = {fd. \<exists>e\<in>set (events s). pollable e \<and> mode_has e b \<and> ev_fd e = fd}"
  by (fastforce simp: polled_def fds_ok_def bad_fd_def pollable_def mode_has_fd)

text \<open>C15: What \<^verbatim>\<open>select\<close> is asked for, computed event by event with running sets, maximum and minimum, is what
  the events say: the descriptors of the unmasked live events that poll for it, the largest of them, and
  the least of the remaining times, of the caller's bound and of ten minutes; a deadline in the past counts
  as zero.\<close>

theorem sched_prepare_ref:
  assumes "fds_ok s"
  shows "\<exists>t. scheduler_prepare_events s = Some t \<and> same_core s t
    \<and> read_fds t = {fd. \<exists>e\<in>set (events s). pollable e \<and> mode_has e 1 \<and> ev_fd e = fd}
    \<and> write_fds t = {fd. \<exists>e\<in>set (events s). pollable e \<and> mode_has e 2 \<and> ev_fd e = fd}
    \<and> except_fds t = {fd. \<exists>e\<in>set (events s). pollable e \<and> mode_has e 4 \<and> ev_fd e = fd}
    \<and> max_fd t = Max ({-1} \<union> {fd. \<exists>e\<in>set (events s). pollable e \<and> mode_has e 7 \<and> ev_fd e = fd})
    \<and> sched_timeout t = Min ({TV_SECS 600, max_timeout s}
        \<union> (\<lambda>e. max TV_ZERO (TV_SUB (ev_deadline e) (clk s (ticks s)))) ` {e \<in> set (events s). pollable e \<and> timed e})"
  using prepare_ok [OF assms] prepare_same [OF prepare_ok [OF assms]]
  by (simp add: polled_ok [OF assms] waits_def)

theorem sched_prepare_ref_witness:
  "fds_ok demo_state \<and> (\<exists>t. scheduler_prepare_events demo_state = Some t \<and> read_fds t = {} \<and> max_fd t = -1 \<and> sched_timeout t = TV_ZERO)"
proof -
  have p: "\<not> mode_has (demo_event 1) b" if "b \<in> {1, 2, 4}" for b
    using that demo_mode(2) by (auto simp: mode_has_fd)
  have e: "{e \<in> set (events demo_state). pollable e \<and> timed e} = {demo_event 1}"
    using demo_mode(1) by (auto simp: pollable_def timed_def demo_event_def TV_IS_INF_def)
  have dl: "ev_deadline (demo_event 1) = TV 5 0" by (simp add: demo_event_def)
  have z: "max TV_ZERO (TV_SUB (TV 5 0) (TV 10 0)) = TV_ZERO" "max_timeout demo_state = TV_ZERO" "min (TV_SECS 600) TV_ZERO = TV_ZERO"
    by (simp_all add: TV_SUB_def TV_ZERO_def TV_SECS_def max_def min_def less_eq_timeval_def TV_BEFORE_def demo_state_def
        scheduler_initialize_def demo_env_def del: TV_BEFORE_less)
  show ?thesis
    using sched_prepare_ref [OF demo_ok(2)] demo_ok(2) unfolding e by (auto simp: p demo_mode(2) dl z)
qed

text \<open>C13: A wait that starts outside any other returns as soon as the callbacks do, whatever they register:
  no \<^verbatim>\<open>BUG_ON\<close> fires when the descriptors of live events fit an \<^verbatim>\<open>fd_set\<close> and no masked event shares a polled
  one.  Every descriptor that \<^verbatim>\<open>select\<close> reports is assigned to an event, and the result is zero unless
  \<^verbatim>\<open>select\<close> fails.\<close>

theorem sched_wait_returns:
  assumes "uses_api body" and "api (wait_nested body k) (scheduler_initialize z) s"
    and "fds_ok s" and "unshared s"
    and "\<forall>c u m p a. depth a = 1 \<longrightarrow> body (wait_nested body k) c u m p a \<noteq> None"
  shows "\<exists>r t. wait_nested body (Suc k) s = Some (r, t) \<and> r \<le> 0 \<and> (select_works s \<longrightarrow> r = 0)"
  using wait_returns_settling [OF uses_api_settling [OF assms(1)], of k s] assms reach_ok [OF assms(1,2)] by auto

theorem sched_wait_returns_witness: "\<exists>t. wait_nested once_body 2 demo_state = Some (0, t)"
  using sched_wait_returns [OF once_api demo_reach demo_ok(2,3), of 1] demo_ok(4)
  by (auto simp: once_body_def numeral_2_eq_2 simp del: wait_nested.simps(2))

text \<open>C17: Below a wait, no operation of the scheduler removes or moves an event: what a callback does, nested
  waits included, leaves every event at its place in the list with its identifier, callback and mode, so
  that the loop which called it can continue, and leaves the nesting depth as it was.\<close>

theorem sched_nested_stable:
  assumes "uses_api body" and "api (wait_nested body k) s t" and "1 \<le> depth s"
  shows "depth t = depth s \<and> length (events s) \<le> length (events t)
    \<and> list_all2 (\<lambda>e e'. ev_id e' = ev_id e \<and> ev_cb e' = ev_cb e \<and> ev_private e' = ev_private e
         \<and> ev_mode e' = ev_mode e \<and> ev_fd e' = ev_fd e)
        (events s) (take (length (events s)) (events t))"
  using growth.keeps_runs [OF assms(1,2)] assms(3)
  by (auto simp: grows_def follows_def elim: list_all2_mono)

theorem sched_nested_stable_witness:
  "length (events (scheduler_unregister_event (demo_state\<lparr>depth := 1\<rparr>) 1)) \<ge> 1"
proof -
  let ?s = "demo_state\<lparr>depth := 1\<rparr>"
  have "api (wait_nested once_body 3) ?s (scheduler_unregister_event ?s 1)"
    by (rule r_into_rtranclp [of "api_call (wait_nested once_body 3)"]) (rule api_call.unregister)
  from sched_nested_stable [OF once_api this] show ?thesis by simp
qed

lemma unregister_gone:
  "distinct (map ev_id es) \<Longrightarrow> \<forall>e\<in>set (upd_first u (\<lambda>e. e\<lparr>ev_dead := True\<rparr>) es). ev_id e = u \<longrightarrow> ev_dead e"
proof (induction es)
  case (Cons a es)
  show ?case
  proof (cases "ev_id a = u")
    case True
    then have "\<forall>e\<in>set es. ev_id e \<noteq> u" using Cons(2) image_eqI [of _ ev_id] by fastforce
    then show ?thesis using True by simp
  next
    case False
    then show ?thesis using Cons by simp
  qed
qed simp

lemma ids_unregister: "ids_ok (scheduler_unregister_event s u) = ids_ok s"
  using follows_ids [of "events s" "events (scheduler_unregister_event s u)"] unregister_same [of s u]
  unfolding same_events_def ids_ok_map by simp



lemma additive_idle: "additive idle_cb"
  by (simp add: additive_def idle_cb_def)

lemma checked_id: "list_all2 (checked now) es es' \<Longrightarrow> map ev_id es' = map ev_id es"
  by (induction rule: list_all2_induct) (auto simp: checked_def)

lemma list_all2_at: "list_all2 P xs ys \<Longrightarrow> x \<in> set xs \<Longrightarrow> \<exists>y\<in>set ys. P x y"
  by (induction xs ys rule: list_all2_induct) auto

lemma distinct_id: "distinct (map ev_id es) \<Longrightarrow> x \<in> set es \<Longrightarrow> y \<in> set es \<Longrightarrow> ev_id x = ev_id y \<Longrightarrow> x = y"
  by (metis distinct_map inj_on_eq_iff)

lemma calls_mem:
  assumes "distinct (map ev_id es)" "x \<in> set es"
  shows "(ev_id x, m) \<in> set (calls es) \<longleftrightarrow> due x \<and> \<not> ev_masked x \<and> m = ev_pending x"
proof
  assume "(ev_id x, m) \<in> set (calls es)"
  then obtain y where y: "y \<in> set es" "due y" "\<not> ev_masked y" "ev_id x = ev_id y" "m = ev_pending y"
    unfolding calls_def by auto
  have "x = y" by (rule distinct_id [OF assms y(1,4)])
  then show "due x \<and> \<not> ev_masked x \<and> m = ev_pending x" using y by simp
qed (use assms(2) in \<open>force simp: calls_def\<close>)



subsection \<open>A nested wait over an event that is gone\<close>

lemma check_timeout_list_None: "e \<in> set es \<Longrightarrow> ev_pending e \<noteq> 0 \<Longrightarrow> ev_masked e \<Longrightarrow> check_timeout_list now es = None"
  by (induction es) (auto simp: check_timeout_def)

lemma check_fd_list_dead:
  "check_fd_list es s n = Some (es', s', n') \<Longrightarrow> e \<in> set es \<Longrightarrow> ev_dead e \<Longrightarrow> e \<in> set es'"
proof (induction es arbitrary: s n es' s' n')
  case (Cons a es)
  then show ?case
    by (auto simp: Option.bind_eq_Some_conv check_fd_event_def split: if_splits)
qed simp

lemma prepare_list_selects: "prepare_list now es s = Some t \<Longrightarrow> selects t = selects s"
  by (induction es arbitrary: s) (fastforce simp: Option.bind_eq_Some_conv prepare_event_def split: if_splits)+

text \<open>C19: An event that was pending when it was masked and unregistered aborts the process in the next nested
  wait: the check for a masked pending event comes before the one for an unregistered event.\<close>

theorem sched_nested_abort:
  assumes "1 \<le> depth s" and "e \<in> set (events s)" and "ev_dead e" and "ev_masked e" and "ev_pending e \<noteq> 0"
    and "\<forall>x\<in>set (events s). ev_dead x \<or> ev_pending x = 0" and "select_works s"
  shows "scheduler_wait_for_events cbf s = None"
proof (rule ccontr)
  assume "scheduler_wait_for_events cbf s \<noteq> None"
  then obtain r t where run: "scheduler_wait_for_events cbf s = Some (r, t)" by auto
  have idle: "scheduler_run_events cbf (entered s) = Some (0, entered s)"
    unfolding scheduler_run_events_def by (rule run_nothing) (use assms(6) in auto)
  have sel: "selects b = selects (entered s)" if "scheduler_prepare_events (entered s) = Some b" for b
    using that prepare_list_selects
    by (auto simp: scheduler_prepare_events_def gettimeofday_def Option.bind_eq_Some_conv)
  from run show False
  proof (cases rule: wait_cases)
    case (progress n a)
    then show ?thesis using idle by simp
  next
    case (failed a b c)
    then show ?thesis
      using idle assms(1,7) sel select_no_error [OF _ failed(3)] by (auto simp: select_works_def)
  next
    case (ran a b c q u n v)
    then have "events c = events s" using idle assms(1) prepared_events [OF ran(2,3)] by auto
    then have "scheduler_check_events c q = None"
      using check_timeout_list_None [of e] check_fd_list_dead [of "events c" c q] assms(2-5)
      by (auto simp: scheduler_check_events_def scheduler_check_fd_events_def scheduler_check_timeouts_def
          gettimeofday_def Option.bind_eq_None_conv split: if_splits)
    then show ?thesis using ran(5) by simp
  qed
qed

theorem sched_nested_abort_witness:
  "scheduler_wait_for_events idle_cb (demo_state\<lparr>depth := 1,
     events := [(demo_event 1)\<lparr>ev_pending := 8, ev_masked := True, ev_dead := True\<rparr>]\<rparr>) = None"
  by (rule sched_nested_abort [where e = "(demo_event 1)\<lparr>ev_pending := 8, ev_masked := True, ev_dead := True\<rparr>"])
     (simp_all add: select_works_def)

end
