(* ===== verification/Io_Optimize.thy ===== *)
theory Io_Optimize
  imports Blktap_Prelude
begin

text \<open>Merging of asynchronous requests (\<^verbatim>\<open>drivers/io-optimize.c\<close>, \<^verbatim>\<open>drivers/io-optimize.h\<close>): neighbouring reads
  or writes of a queue become one vectored request, and the completion of that request is split into
  completions of the original ones.

  Requests (\<^verbatim>\<open>struct iocb\<close>) and the records that remember merged requests (\<^verbatim>\<open>struct opio\<close>) live in two stores,
  indexed by addresses.  The field \<^verbatim>\<open>data\<close> of a request points to the caller's object or to a record.  A
  vectored request points to the vector inside a record.  \<open>None\<close> is the result of a failed \<^verbatim>\<open>ASSERT\<close> and of the
  use of a pointer of the wrong kind.\<close>

datatype io_iocb_cmd = IO_CMD_PREAD | IO_CMD_PWRITE | IO_CMD_FSYNC | IO_CMD_FDSYNC | IO_CMD_POLL | IO_CMD_NOOP
  | IO_CMD_PREADV | IO_CMD_PWRITEV

datatype io_data = Tiocb nat | Opio nat

text \<open>The union of the arguments: a buffer with its size, or the record that holds the vector with the number
  of its elements; both with an offset.\<close>

datatype io_args = UC (c_buf: nat) (c_nbytes: "64 word") (c_offset: "64 word") | UV (v_vec: nat) (v_nr: nat) (v_offset: "64 word")

record iocb =
  aio_lio_opcode :: io_iocb_cmd
  aio_fildes :: int
  io_u :: io_args
  io_data :: io_data

type_synonym iovec = "nat \<times> 64 word"

record opio =
  op_iov :: "iovec list"
  orig_iocb :: iocb
  op_iocb :: nat
  op_head :: "nat option"
  op_next :: "nat option"
  op_list_head :: nat
  op_list_tail :: nat

record io_event =
  ev_obj :: nat
  ev_res :: "64 word"

record opioctx =
  iocbs :: "nat \<Rightarrow> iocb"
  opios :: "nat \<Rightarrow> opio"
  free_opios :: "nat list"

abbreviation (input) UIO_FASTIOV :: nat where "UIO_FASTIOV \<equiv> 8"

definition ASSERT :: "bool \<Rightarrow> unit option" where
  "ASSERT c = (if c then Some () else None)"

text \<open>A request and a record as \<^verbatim>\<open>memset\<close> leaves them.\<close>

definition zero_iocb :: iocb where
  "zero_iocb = \<lparr> aio_lio_opcode = IO_CMD_PREAD, aio_fildes = 0, io_u = UC 0 0 0, io_data = Tiocb 0 \<rparr>"

definition zero_opio :: opio where
  "zero_opio = \<lparr> op_iov = replicate UIO_FASTIOV (0, 0), orig_iocb = zero_iocb, op_iocb = 0, op_head = None,
     op_next = None, op_list_head = 0, op_list_tail = 0 \<rparr>"

subsection \<open>Fields of requests\<close>

definition iocb_vectorized :: "io_iocb_cmd \<Rightarrow> io_iocb_cmd" where
  "iocb_vectorized c = (case c of IO_CMD_PREAD \<Rightarrow> IO_CMD_PREADV | IO_CMD_PWRITE \<Rightarrow> IO_CMD_PWRITEV | c \<Rightarrow> c)"

definition iocb_nbytes :: "opioctx \<Rightarrow> iocb \<Rightarrow> 64 word option" where
  "iocb_nbytes ctx io = (case aio_lio_opcode io of
     IO_CMD_PREAD \<Rightarrow> Some (c_nbytes (io_u io))
   | IO_CMD_PWRITE \<Rightarrow> Some (c_nbytes (io_u io))
   | IO_CMD_FSYNC \<Rightarrow> Some 0
   | IO_CMD_FDSYNC \<Rightarrow> Some 0
   | IO_CMD_NOOP \<Rightarrow> Some 0
   | IO_CMD_POLL \<Rightarrow> None
   | _ \<Rightarrow> (let v = take (v_nr (io_u io)) (op_iov (opios ctx (v_vec (io_u io)))) in do {
       ASSERT (list_all (\<lambda>(b, l). l > 0) v);
       Some (sum_list (map snd v))
     }))"

definition iocb_offset :: "iocb \<Rightarrow> 64 word option" where
  "iocb_offset io = (case aio_lio_opcode io of
     IO_CMD_PREAD \<Rightarrow> Some (c_offset (io_u io))
   | IO_CMD_PWRITE \<Rightarrow> Some (c_offset (io_u io))
   | IO_CMD_PREADV \<Rightarrow> Some (v_offset (io_u io))
   | IO_CMD_PWRITEV \<Rightarrow> Some (v_offset (io_u io))
   | _ \<Rightarrow> None)"

definition iocb_buf :: "iocb \<Rightarrow> nat option" where
  "iocb_buf io = do {
     ASSERT (aio_lio_opcode io = IO_CMD_PREAD \<or> aio_lio_opcode io = IO_CMD_PWRITE);
     Some (c_buf (io_u io))
   }"

definition iocb_optimized :: "iocb \<Rightarrow> bool" where
  "iocb_optimized io \<longleftrightarrow> iocb_vectorized (aio_lio_opcode io) = aio_lio_opcode io"

subsection \<open>Records\<close>

text \<open>\<open>oks\<close> says which of the four allocations succeed.\<close>

definition opio_init :: "bool list \<Rightarrow> opioctx \<Rightarrow> nat \<Rightarrow> int \<times> opioctx" where
  "opio_init oks ctx num_iocbs =
     (if list_all id oks
      then (0, ctx\<lparr>opios := (\<lambda>_. zero_opio), free_opios := [0..<num_iocbs]\<rparr>)
      else (- ENOMEM, ctx\<lparr>opios := (\<lambda>_. zero_opio), free_opios := []\<rparr>))"

definition alloc_opio :: "opioctx \<Rightarrow> nat option \<times> opioctx" where
  "alloc_opio ctx =
     (if free_opios ctx = [] then (None, ctx)
      else (Some (last (free_opios ctx)), ctx\<lparr>free_opios := butlast (free_opios ctx)\<rparr>))"

definition free_opio :: "opioctx \<Rightarrow> nat \<Rightarrow> opioctx" where
  "free_opio ctx op = ctx\<lparr>opios := (opios ctx)(op := zero_opio), free_opios := free_opios ctx @ [op]\<rparr>"

definition restore_iocb :: "opioctx \<Rightarrow> nat \<Rightarrow> opioctx" where
  "restore_iocb ctx op = ctx\<lparr>iocbs := (iocbs ctx)(op_iocb (opios ctx op) := orig_iocb (opios ctx op))\<rparr>"

definition opio_iocb_init :: "opioctx \<Rightarrow> nat \<Rightarrow> nat option \<times> opioctx" where
  "opio_iocb_init ctx io = (case alloc_opio ctx of
     (None, ctx) \<Rightarrow> (None, ctx)
   | (Some op, ctx) \<Rightarrow> (Some op, ctx\<lparr>
       opios := (opios ctx)(op := (opios ctx op)\<lparr>orig_iocb := iocbs ctx io, op_iocb := io,
                                              op_list_head := op, op_list_tail := op\<rparr>),
       iocbs := (iocbs ctx)(io := (iocbs ctx io)\<lparr>io_data := Opio op\<rparr>)\<rparr>))"

definition opio_get :: "opioctx \<Rightarrow> nat \<Rightarrow> (nat option \<times> opioctx) option" where
  "opio_get ctx io =
     (if iocb_optimized (iocbs ctx io)
      then case io_data (iocbs ctx io) of Opio op \<Rightarrow> Some (Some op, ctx) | Tiocb _ \<Rightarrow> None
      else Some (opio_iocb_init ctx io))"

subsection \<open>Merging\<close>

definition contiguous_sectors :: "opioctx \<Rightarrow> iocb \<Rightarrow> iocb \<Rightarrow> bool option" where
  "contiguous_sectors ctx l r = do {
     a \<leftarrow> iocb_offset l;
     n \<leftarrow> iocb_nbytes ctx l;
     b \<leftarrow> iocb_offset r;
     Some (a + n = b)
   }"

definition contiguous_iocbs :: "opioctx \<Rightarrow> iocb \<Rightarrow> iocb \<Rightarrow> bool option" where
  "contiguous_iocbs ctx l r =
     (if aio_fildes l = aio_fildes r then contiguous_sectors ctx l r else Some False)"

text \<open>The first request of a group becomes a vectored one with one element; \<^verbatim>\<open>io_prep_preadv\<close> and
  \<^verbatim>\<open>io_prep_pwritev\<close> set every field but \<^verbatim>\<open>data\<close>, which the code restores.\<close>

definition vectorize_head :: "opioctx \<Rightarrow> nat \<Rightarrow> nat \<Rightarrow> io_iocb_cmd \<Rightarrow> opioctx option" where
  "vectorize_head ctx head ophead cmd = do {
     let h = iocbs ctx head;
     b \<leftarrow> iocb_buf h;
     n \<leftarrow> iocb_nbytes ctx h;
     ASSERT (n > 0);
     off \<leftarrow> iocb_offset h;
     vc \<leftarrow> (case cmd of IO_CMD_PREAD \<Rightarrow> Some IO_CMD_PREADV | IO_CMD_PWRITE \<Rightarrow> Some IO_CMD_PWRITEV | _ \<Rightarrow> None);
     ASSERT (io_data h = Opio ophead);
     Some (ctx\<lparr>
       opios := (opios ctx)(ophead := (opios ctx ophead)\<lparr>op_iov := (op_iov (opios ctx ophead))[0 := (b, n)]\<rparr>),
       iocbs := (iocbs ctx)(head := h\<lparr>aio_lio_opcode := vc, io_u := UV ophead 1 off\<rparr>)\<rparr>)
   }"

text \<open>Append the request to the vector and to the list of records of the head.\<close>

definition append_tail :: "opioctx \<Rightarrow> nat \<Rightarrow> nat \<Rightarrow> nat \<Rightarrow> nat \<Rightarrow> opioctx option" where
  "append_tail ctx head ophead io op = do {
     let h = iocbs ctx head;
     let nr = v_nr (io_u h);
     ASSERT (iocb_optimized h);
     ASSERT (nr < UIO_FASTIOV);
     b \<leftarrow> iocb_buf (iocbs ctx io);
     n \<leftarrow> iocb_nbytes ctx (iocbs ctx io);
     let os = opios ctx;
     let os = os(ophead := (os ophead)\<lparr>op_iov := (op_iov (os ophead))[nr := (b, n)]\<rparr>);
     let tl = op_list_tail (os ophead);
     let os = os(tl := (os tl)\<lparr>op_next := Some op\<rparr>);
     let os = os(ophead := (os ophead)\<lparr>op_list_tail := op\<rparr>);
     Some (ctx\<lparr>opios := os, iocbs := (iocbs ctx)(head := h\<lparr>io_u := UV (v_vec (io_u h)) (nr + 1) (v_offset (io_u h))\<rparr>)\<rparr>)
   }"

definition merge_tail :: "opioctx \<Rightarrow> nat \<Rightarrow> nat \<Rightarrow> (int \<times> opioctx) option" where
  "merge_tail ctx head io = do {
     (oh, ctx) \<leftarrow> opio_get ctx head;
     (case oh of None \<Rightarrow> Some (- ENOMEM, ctx)
      | Some ophead \<Rightarrow> do {
          (oi, ctx) \<leftarrow> opio_get ctx io;
          (case oi of None \<Rightarrow> Some (- ENOMEM, ctx)
           | Some op \<Rightarrow> do {
               let ctx = ctx\<lparr>opios := (opios ctx)(op := (opios ctx op)\<lparr>op_head := Some ophead\<rparr>)\<rparr>;
               ctx \<leftarrow> (if \<not> iocb_optimized (iocbs ctx head)
                      then vectorize_head ctx head ophead (aio_lio_opcode (iocbs ctx io)) else Some ctx);
               ctx \<leftarrow> append_tail ctx head ophead io op;
               Some (0, ctx)
             })
        })
   }"

definition merge :: "opioctx \<Rightarrow> nat \<Rightarrow> nat \<Rightarrow> (int \<times> opioctx) option" where
  "merge ctx head io =
     (if iocb_vectorized (aio_lio_opcode (iocbs ctx head)) \<noteq> iocb_vectorized (aio_lio_opcode (iocbs ctx io))
      then Some (- EINVAL, ctx)
      else do {
        c \<leftarrow> contiguous_iocbs ctx (iocbs ctx head) (iocbs ctx io);
        if \<not> c then Some (- EINVAL, ctx)
        else if iocb_optimized (iocbs ctx head) \<and> v_nr (io_u (iocbs ctx head)) = UIO_FASTIOV then Some (- EINVAL, ctx)
        else merge_tail ctx head io
      })"

text \<open>The loop over the queue; \<open>done\<close> holds the finished heads, \<open>h\<close> is the current one.\<close>

fun merge_loop :: "opioctx \<Rightarrow> nat list \<Rightarrow> nat \<Rightarrow> nat list \<Rightarrow> (nat list \<times> opioctx) option" where
  "merge_loop ctx done h [] = Some (done @ [h], ctx)"
| "merge_loop ctx done h (io # q) = do {
     (err, ctx) \<leftarrow> merge ctx h io;
     if err \<noteq> 0 then merge_loop ctx (done @ [h]) io q else merge_loop ctx done h q
   }"

definition io_merge :: "opioctx \<Rightarrow> nat list \<Rightarrow> (nat list \<times> opioctx) option" where
  "io_merge ctx queue = (case queue of [] \<Rightarrow> Some ([], ctx) | h # q \<Rightarrow> merge_loop ctx [] h q)"

subsection \<open>Splitting\<close>

partial_function (option) expand_ops :: "opioctx \<Rightarrow> nat option \<Rightarrow> (nat list \<times> opioctx) option" where
  [code]: "expand_ops ctx op =
     (case op of None \<Rightarrow> Some ([], ctx)
      | Some op \<Rightarrow> Option.bind (expand_ops (free_opio (restore_iocb ctx op) op) (op_next (opios ctx op)))
          (\<lambda>(q, ctx'). Some (op_iocb (opios ctx op) # q, ctx')))"

definition expand_iocb :: "opioctx \<Rightarrow> nat \<Rightarrow> (nat list \<times> opioctx) option" where
  "expand_iocb ctx io = (case io_data (iocbs ctx io) of Opio op \<Rightarrow> expand_ops ctx (Some op) | Tiocb _ \<Rightarrow> None)"

fun expand_queue :: "opioctx \<Rightarrow> nat list \<Rightarrow> (nat list \<times> opioctx) option" where
  "expand_queue ctx [] = Some ([], ctx)"
| "expand_queue ctx (io # q) = do {
     (xs, ctx) \<leftarrow> (if \<not> iocb_optimized (iocbs ctx io) then Some ([io], ctx) else expand_iocb ctx io);
     (ys, ctx) \<leftarrow> expand_queue ctx q;
     Some (xs @ ys, ctx)
   }"

definition io_expand_iocbs :: "opioctx \<Rightarrow> nat list \<Rightarrow> nat \<Rightarrow> (nat list \<times> opioctx) option" where
  "io_expand_iocbs ctx queue idx = (if queue = [] then Some ([], ctx) else expand_queue ctx (drop idx queue))"

text \<open>The result of a vectored request as an error number, \<^verbatim>\<open>(int)event->res\<close> being its low 32 bits.\<close>

definition event_err :: "opioctx \<Rightarrow> io_event \<Rightarrow> int option" where
  "event_err ctx ep = do {
     n \<leftarrow> iocb_nbytes ctx (iocbs ctx (ev_obj ep));
     let r = sint (ucast (ev_res ep) :: 32 word);
     Some (if ev_res ep = n then 0 else if r < 0 then r else - EIO)
   }"

partial_function (option) event_ops :: "opioctx \<Rightarrow> int \<Rightarrow> nat option \<Rightarrow> (io_event list \<times> opioctx) option" where
  [code]: "event_ops ctx err op =
     (case op of None \<Rightarrow> Some ([], ctx)
      | Some op \<Rightarrow>
          Option.bind (iocb_nbytes ctx (orig_iocb (opios ctx op))) (\<lambda>n.
          Option.bind (event_ops (free_opio (restore_iocb ctx op) op) err (op_next (opios ctx op))) (\<lambda>(q, ctx').
            Some (\<lparr> ev_obj = op_iocb (opios ctx op), ev_res = (if err \<noteq> 0 then word_of_int err else n) \<rparr> # q, ctx'))))"

definition expand_event :: "opioctx \<Rightarrow> io_event \<Rightarrow> (io_event list \<times> opioctx) option" where
  "expand_event ctx ep = do {
     err \<leftarrow> event_err ctx ep;
     (case io_data (iocbs ctx (ev_obj ep)) of Opio op \<Rightarrow> event_ops ctx err (Some op) | Tiocb _ \<Rightarrow> None)
   }"

fun io_split :: "opioctx \<Rightarrow> io_event list \<Rightarrow> (io_event list \<times> opioctx) option" where
  "io_split ctx [] = Some ([], ctx)"
| "io_split ctx (ep # eps) = do {
     (xs, ctx) \<leftarrow> (if \<not> iocb_optimized (iocbs ctx (ev_obj ep)) then Some ([ep], ctx) else expand_event ctx ep);
     (ys, ctx) \<leftarrow> io_split ctx eps;
     Some (xs @ ys, ctx)
   }"

end
