(* ===== verification/Io_Groups.thy ===== *)
theory Io_Groups
  imports Io_Optimize
begin

text \<open>What the merged requests stand for.  A group is the list of the original requests and the list of the
  records that remember them; \<open>good ctx H Gs\<close> says that the stores hold the groups \<open>Gs\<close> of requests whose
  original contents are \<open>H\<close>.  Merging extends a group, splitting removes one and restores its requests.\<close>

type_synonym group = "nat list \<times> nat list"

lemma ASSERT_Some [simp]: "ASSERT c = Some x \<longleftrightarrow> c"
  by (simp add: ASSERT_def)

lemma ASSERT_bind [simp]: "Option.bind (ASSERT c) f = (if c then f () else None)"
  by (simp add: ASSERT_def)

text \<open>A read or write of at least one byte, as the drivers prepare them.\<close>

definition plain_req :: "iocb \<Rightarrow> bool" where
  "plain_req h \<longleftrightarrow> (aio_lio_opcode h = IO_CMD_PREAD \<or> aio_lio_opcode h = IO_CMD_PWRITE)
     \<and> (\<exists>b n off. io_u h = UC b n off \<and> n \<noteq> 0) \<and> (\<exists>x. io_data h = Tiocb x)"

abbreviation seg :: "iocb \<Rightarrow> iovec" where
  "seg h \<equiv> (c_buf (io_u h), c_nbytes (io_u h))"

definition vec_head :: "(nat \<Rightarrow> iocb) \<Rightarrow> nat list \<Rightarrow> nat \<Rightarrow> iocb" where
  "vec_head H ios p = (H (hd ios))\<lparr>io_data := Opio p, aio_lio_opcode := iocb_vectorized (aio_lio_opcode (H (hd ios))),
     io_u := UV p (length ios) (c_offset (io_u (H (hd ios))))\<rparr>"

fun chain :: "(nat \<Rightarrow> opio) \<Rightarrow> (nat \<Rightarrow> iocb) \<Rightarrow> nat list \<Rightarrow> nat list \<Rightarrow> bool" where
  "chain os H [] ps \<longleftrightarrow> ps = []"
| "chain os H (a # as) ps \<longleftrightarrow> (case ps of [] \<Rightarrow> False | p # ps' \<Rightarrow>
     op_iocb (os p) = a \<and> orig_iocb (os p) = H a \<and> op_next (os p) = (case ps' of [] \<Rightarrow> None | q # _ \<Rightarrow> Some q)
     \<and> chain os H as ps')"

definition vrep :: "opioctx \<Rightarrow> (nat \<Rightarrow> iocb) \<Rightarrow> nat list \<Rightarrow> nat list \<Rightarrow> bool" where
  "vrep ctx H ios ops \<longleftrightarrow> ios \<noteq> [] \<and> length ios \<le> UIO_FASTIOV \<and> chain (opios ctx) H ios ops
     \<and> iocbs ctx (hd ios) = vec_head H ios (hd ops)
     \<and> list_all2 (\<lambda>a p. iocbs ctx a = (H a)\<lparr>io_data := Opio p\<rparr>) (tl ios) (tl ops)
     \<and> length (op_iov (opios ctx (hd ops))) = UIO_FASTIOV
     \<and> take (length ios) (op_iov (opios ctx (hd ops))) = map (\<lambda>a. seg (H a)) ios
     \<and> op_list_tail (opios ctx (hd ops)) = last ops"

definition rep :: "opioctx \<Rightarrow> (nat \<Rightarrow> iocb) \<Rightarrow> group \<Rightarrow> bool" where
  "rep ctx H g \<longleftrightarrow> (case g of (ios, ops) \<Rightarrow>
     if ops = [] then (\<exists>a. ios = [a] \<and> iocbs ctx a = H a) else vrep ctx H ios ops)"

definition good :: "opioctx \<Rightarrow> (nat \<Rightarrow> iocb) \<Rightarrow> group list \<Rightarrow> bool" where
  "good ctx H Gs \<longleftrightarrow> distinct (concat (map fst Gs)) \<and> distinct (concat (map snd Gs) @ free_opios ctx)
     \<and> (\<forall>g\<in>set Gs. rep ctx H g \<and> (\<forall>a\<in>set (fst g). plain_req (H a)))
     \<and> (\<forall>a. a \<notin> set (concat (map fst Gs)) \<longrightarrow> iocbs ctx a = H a)
     \<and> (\<forall>p\<in>set (free_opios ctx). opios ctx p = zero_opio)"

subsection \<open>Reading a group\<close>

lemma chain_length: "chain os H as ps \<Longrightarrow> length ps = length as"
  by (induction as arbitrary: ps) (auto split: list.splits)

lemma chain_cong:
  "(\<And>p. p \<in> set ps \<Longrightarrow> op_iocb (os' p) = op_iocb (os p) \<and> orig_iocb (os' p) = orig_iocb (os p) \<and> op_next (os' p) = op_next (os p))
    \<Longrightarrow> chain os' H as ps = chain os H as ps"
  by (induction as arbitrary: ps) (auto split: list.splits)

lemma chain_snoc:
  assumes "chain os H as ps" "ps \<noteq> []" "distinct ps"
    and "op_iocb (os' q) = a" "orig_iocb (os' q) = H a" "op_next (os' q) = None"
    and "\<And>p. p \<in> set ps \<Longrightarrow> op_iocb (os' p) = op_iocb (os p) \<and> orig_iocb (os' p) = orig_iocb (os p)
       \<and> op_next (os' p) = (if p = last ps then Some q else op_next (os p))"
  shows "chain os' H (as @ [a]) (ps @ [q])"
  using assms(1-3,7)
proof (induction as arbitrary: ps)
  case (Cons b as)
  then obtain p ps' where ps: "ps = p # ps'" by (cases ps) auto
  show ?case
  proof (cases ps')
    case Nil
    then have "as = []" using Cons(2) ps by (cases as) auto
    then show ?thesis using Cons ps Nil assms(4-6) by simp
  next
    case (Cons r rs)
    have "chain os' H (as @ [a]) (ps' @ [q])"
      using Cons.prems ps Cons by (intro Cons.IH) auto
    then show ?thesis using Cons.prems ps Cons by auto
  qed
qed simp

lemma plain_simps:
  assumes "plain_req h"
  shows "iocb_optimized h = False" "iocb_nbytes ctx h = Some (c_nbytes (io_u h))" "iocb_offset h = Some (c_offset (io_u h))"
    "iocb_buf h = Some (c_buf (io_u h))" "c_nbytes (io_u h) \<noteq> 0"
    "iocb_optimized (h\<lparr>io_data := d\<rparr>) = False" "iocb_nbytes ctx (h\<lparr>io_data := d\<rparr>) = Some (c_nbytes (io_u h))"
    "iocb_offset (h\<lparr>io_data := d\<rparr>) = Some (c_offset (io_u h))" "iocb_buf (h\<lparr>io_data := d\<rparr>) = Some (c_buf (io_u h))"
  using assms
  by (auto simp: plain_req_def iocb_optimized_def iocb_vectorized_def iocb_nbytes_def iocb_offset_def iocb_buf_def)

lemma vec_head_simps:
  assumes "plain_req (H (hd ios))"
  shows "iocb_optimized (vec_head H ios p)" "iocb_offset (vec_head H ios p) = Some (c_offset (io_u (H (hd ios))))"
    "io_data (vec_head H ios p) = Opio p" "v_nr (io_u (vec_head H ios p)) = length ios"
    "aio_fildes (vec_head H ios p) = aio_fildes (H (hd ios))"
    "iocb_vectorized (aio_lio_opcode (vec_head H ios p)) = iocb_vectorized (aio_lio_opcode (H (hd ios)))"
  using assms by (auto simp: plain_req_def vec_head_def iocb_optimized_def iocb_vectorized_def iocb_offset_def)

lemma vec_nbytes:
  assumes "vrep ctx H ios ops" "\<forall>a\<in>set ios. plain_req (H a)"
  shows "iocb_nbytes ctx (iocbs ctx (hd ios)) = Some (sum_list (map (\<lambda>a. c_nbytes (io_u (H a))) ios))"
proof -
  have "hd ios \<in> set ios" using assms(1) by (simp add: vrep_def)
  then have op: "aio_lio_opcode (vec_head H ios (hd ops)) = IO_CMD_PREADV \<or> aio_lio_opcode (vec_head H ios (hd ops)) = IO_CMD_PWRITEV"
    using assms(2) by (auto simp: plain_req_def vec_head_def iocb_vectorized_def)
  have u: "io_u (vec_head H ios (hd ops)) = UV (hd ops) (length ios) (c_offset (io_u (H (hd ios))))" by (simp add: vec_head_def)
  have v: "take (length ios) (op_iov (opios ctx (hd ops))) = map (\<lambda>a. seg (H a)) ios" using assms(1) by (simp add: vrep_def)
  have pos: "list_all (\<lambda>(b, l). 0 < l) (map (\<lambda>a. seg (H a)) ios)"
    using assms(2) by (auto simp: list_all_iff plain_simps(5) word_gt_0)
  have h: "iocbs ctx (hd ios) = vec_head H ios (hd ops)" using assms(1) by (simp add: vrep_def)
  show ?thesis
    using op pos unfolding h by (auto simp: iocb_nbytes_def u v comp_def)
qed

lemma rep_cong:
  assumes "\<And>a. a \<in> set (fst g) \<Longrightarrow> iocbs ctx' a = iocbs ctx a" "\<And>p. p \<in> set (snd g) \<Longrightarrow> opios ctx' p = opios ctx p"
    "rep ctx H g"
  shows "rep ctx' H g"
proof (cases g)
  case (Pair ios ops)
  show ?thesis
  proof (cases "ops = []")
    case True
    then show ?thesis using assms Pair by (auto simp: rep_def)
  next
    case False
    then have v: "vrep ctx H ios ops" using assms(3) Pair by (simp add: rep_def)
    have h: "iocbs ctx' (hd ios) = iocbs ctx (hd ios)" using assms(1) v Pair by (simp add: vrep_def)
    have o: "opios ctx' (hd ops) = opios ctx (hd ops)" using assms(2) False Pair by simp
    have c: "chain (opios ctx') H ios ops = chain (opios ctx) H ios ops"
      by (rule chain_cong) (use assms(2) Pair in auto)
    have t: "list_all2 (\<lambda>a p. iocbs ctx' a = (H a)\<lparr>io_data := Opio p\<rparr>) (tl ios) (tl ops)"
    proof (rule list.rel_mono_strong)
      show "list_all2 (\<lambda>a p. iocbs ctx a = (H a)\<lparr>io_data := Opio p\<rparr>) (tl ios) (tl ops)" using v by (simp add: vrep_def)
      fix a p assume "a \<in> set (tl ios)" and e: "iocbs ctx a = (H a)\<lparr>io_data := Opio p\<rparr>"
      then have "a \<in> set ios" by (cases ios) auto
      then show "iocbs ctx' a = (H a)\<lparr>io_data := Opio p\<rparr>" using assms(1) Pair e by simp
    qed
    show ?thesis using v False Pair t by (simp add: rep_def vrep_def h o c)
  qed
qed

subsection \<open>Extending a group\<close>

lemma append_tail_rep:
  assumes v: "vrep ctx H ios ops" and n: "length ios < UIO_FASTIOV" and pl: "\<forall>a\<in>set (ios @ [io]). plain_req (H a)"
    and io: "iocbs ctx io = (H io)\<lparr>io_data := Opio q\<rparr>" "distinct (ios @ [io])" and q: "distinct (ops @ [q])"
    "op_iocb (opios ctx q) = io" "orig_iocb (opios ctx q) = H io" "op_next (opios ctx q) = None"
  obtains ctx' where "append_tail ctx (hd ios) (hd ops) io q = Some ctx'" "vrep ctx' H (ios @ [io]) (ops @ [q])"
    "\<And>a. a \<noteq> hd ios \<Longrightarrow> iocbs ctx' a = iocbs ctx a" "\<And>p. p \<notin> set ops \<Longrightarrow> opios ctx' p = opios ctx p"
    "free_opios ctx' = free_opios ctx"
proof -
  have ne: "ios \<noteq> []" and c: "chain (opios ctx) H ios ops" and hd: "iocbs ctx (hd ios) = vec_head H ios (hd ops)"
    and l2: "list_all2 (\<lambda>a p. iocbs ctx a = (H a)\<lparr>io_data := Opio p\<rparr>) (tl ios) (tl ops)"
    and iov: "length (op_iov (opios ctx (hd ops))) = UIO_FASTIOV"
      "take (length ios) (op_iov (opios ctx (hd ops))) = map (\<lambda>a. seg (H a)) ios"
    and tail: "op_list_tail (opios ctx (hd ops)) = last ops"
    using v by (auto simp: vrep_def)
  have ops: "ops \<noteq> []" "length ops = length ios" using chain_length [OF c] ne by auto
  let ?n = "length ios"
  define os1 where "os1 = (opios ctx)(hd ops := (opios ctx (hd ops))\<lparr>op_iov := (op_iov (opios ctx (hd ops)))[?n := seg (H io)]\<rparr>)"
  define os2 where "os2 = os1(last ops := (os1 (last ops))\<lparr>op_next := Some q\<rparr>)"
  define os3 where "os3 = os2(hd ops := (os2 (hd ops))\<lparr>op_list_tail := q\<rparr>)"
  define ctx' where "ctx' = ctx\<lparr>opios := os3, iocbs := (iocbs ctx)(hd ios := vec_head H (ios @ [io]) (hd ops))\<rparr>"
  have ph: "plain_req (H (hd ios))" "plain_req (H io)" using pl ne by auto
  have vh: "(vec_head H ios (hd ops))\<lparr>io_u := UV (v_vec (io_u (vec_head H ios (hd ops)))) (?n + 1) (v_offset (io_u (vec_head H ios (hd ops))))\<rparr>
      = vec_head H (ios @ [io]) (hd ops)"
    using ne by (simp add: vec_head_def)
  have run: "append_tail ctx (hd ios) (hd ops) io q = Some ctx'"
    using n ph vec_head_simps [where H = H and ios = ios, OF ph(1)] plain_simps [OF ph(2)] vh
    by (cases "hd ops = last ops")
       (use tail in \<open>simp_all add: append_tail_def hd io(1) Let_def os3_def os2_def os1_def ctx'_def\<close>)
  have fields: "op_iocb (os3 p) = op_iocb (opios ctx p)" "orig_iocb (os3 p) = orig_iocb (opios ctx p)"
    "op_next (os3 p) = (if p = last ops then Some q else op_next (opios ctx p))" for p
    by (auto simp: os3_def os2_def os1_def)
  have qn: "q \<noteq> last ops" "q \<noteq> hd ops" using q(1) ops by auto
  have ch: "chain os3 H (ios @ [io]) (ops @ [q])"
    by (rule chain_snoc [OF c ops(1)]) (use q qn fields in auto)
  have hos: "op_iov (os3 (hd ops)) = (op_iov (opios ctx (hd ops)))[?n := seg (H io)]" "op_list_tail (os3 (hd ops)) = q"
    by (auto simp: os3_def os2_def os1_def)
  have tk: "take (Suc ?n) ((op_iov (opios ctx (hd ops)))[?n := seg (H io)]) = map (\<lambda>a. seg (H a)) ios @ [seg (H io)]"
    using iov n by (simp add: take_Suc_conv_app_nth)
  have l2': "list_all2 (\<lambda>a p. iocbs ctx' a = (H a)\<lparr>io_data := Opio p\<rparr>) (tl ios @ [io]) (tl ops @ [q])"
  proof (rule list_all2_appendI)
    show "list_all2 (\<lambda>a p. iocbs ctx' a = (H a)\<lparr>io_data := Opio p\<rparr>) (tl ios) (tl ops)"
    proof (rule list.rel_mono_strong [OF l2])
      fix a p assume "a \<in> set (tl ios)" "iocbs ctx a = (H a)\<lparr>io_data := Opio p\<rparr>"
      then show "iocbs ctx' a = (H a)\<lparr>io_data := Opio p\<rparr>"
        using io(2) by (cases ios) (auto simp: ctx'_def)
    qed
  qed (use io ne in \<open>auto simp: ctx'_def\<close>)
  have "vrep ctx' H (ios @ [io]) (ops @ [q])"
    using ne ops n ch l2' iov tk hos by (simp add: vrep_def ctx'_def)
  then show thesis
    by (rule that [OF run]) (use ops in \<open>auto simp: ctx'_def os3_def os2_def os1_def\<close>)
qed

lemma vectorize_rep:
  assumes pl: "plain_req (H a)" "iocbs ctx a = (H a)\<lparr>io_data := Opio p\<rparr>"
    and p: "op_iocb (opios ctx p) = a" "orig_iocb (opios ctx p) = H a" "op_next (opios ctx p) = None" "op_list_tail (opios ctx p) = p"
    "length (op_iov (opios ctx p)) = UIO_FASTIOV"
    and cmd: "iocb_vectorized (aio_lio_opcode (H a)) = iocb_vectorized cmd" "cmd = IO_CMD_PREAD \<or> cmd = IO_CMD_PWRITE"
  obtains ctx' where "vectorize_head ctx a p cmd = Some ctx'" "vrep ctx' H [a] [p]"
    "\<And>x. x \<noteq> a \<Longrightarrow> iocbs ctx' x = iocbs ctx x" "\<And>q. q \<noteq> p \<Longrightarrow> opios ctx' q = opios ctx q"
    "free_opios ctx' = free_opios ctx"
proof -
  define ctx' where "ctx' = ctx\<lparr>opios := (opios ctx)(p := (opios ctx p)\<lparr>op_iov := (op_iov (opios ctx p))[0 := seg (H a)]\<rparr>),
       iocbs := (iocbs ctx)(a := vec_head H [a] p)\<rparr>"
  have "vectorize_head ctx a p cmd = Some ctx'"
    using cmd pl(1) plain_simps [OF pl(1)]
    by (auto simp: vectorize_head_def pl(2) ctx'_def vec_head_def word_gt_0 iocb_vectorized_def
        split: io_iocb_cmd.splits)
  moreover have "vrep ctx' H [a] [p]"
    using p by (auto simp: vrep_def ctx'_def take_Suc_conv_app_nth)
  ultimately show thesis by (rule that) (auto simp: ctx'_def)
qed

definition group_end :: "(nat \<Rightarrow> iocb) \<Rightarrow> nat list \<Rightarrow> 64 word" where
  "group_end H ios = c_offset (io_u (H (hd ios))) + sum_list (map (\<lambda>a. c_nbytes (io_u (H a))) ios)"

text \<open>A request continues a group: same command and file, at the offset where the group ends, and the group
  is not full.\<close>

definition joins :: "(nat \<Rightarrow> iocb) \<Rightarrow> nat list \<Rightarrow> nat \<Rightarrow> bool" where
  "joins H ios io \<longleftrightarrow> aio_lio_opcode (H (hd ios)) = aio_lio_opcode (H io) \<and> aio_fildes (H (hd ios)) = aio_fildes (H io)
     \<and> group_end H ios = c_offset (io_u (H io)) \<and> length ios < UIO_FASTIOV"

lemma vectorized_eq: "plain_req a \<Longrightarrow> plain_req b \<Longrightarrow>
    (iocb_vectorized (aio_lio_opcode a) = iocb_vectorized (aio_lio_opcode b)) = (aio_lio_opcode a = aio_lio_opcode b)"
  by (auto simp: plain_req_def iocb_vectorized_def)

text \<open>A fresh record for a request.\<close>

definition fresh_op :: "(nat \<Rightarrow> iocb) \<Rightarrow> nat \<Rightarrow> nat \<Rightarrow> opio" where
  "fresh_op H io p = zero_opio\<lparr>orig_iocb := H io, op_iocb := io, op_list_head := p, op_list_tail := p\<rparr>"

lemma opio_get_plain:
  assumes "iocbs ctx io = H io" "plain_req (H io)" "free_opios ctx = fs @ [p]" "opios ctx p = zero_opio"
  shows "opio_get ctx io = Some (Some p, ctx\<lparr>free_opios := fs, opios := (opios ctx)(p := fresh_op H io p),
    iocbs := (iocbs ctx)(io := (H io)\<lparr>io_data := Opio p\<rparr>)\<rparr>)"
  using assms plain_simps [OF assms(2)]
  by (simp add: opio_get_def opio_iocb_init_def alloc_opio_def fresh_op_def zero_opio_def)

lemma good_frame:
  assumes g: "good ctx H ((ios, ops) # Gs)" and r: "rep ctx' H (ios', ops')" "\<forall>a\<in>set ios'. plain_req (H a)"
    and d: "distinct ios'" "set ios' \<inter> set (concat (map fst Gs)) = {}"
    and o: "distinct (ops' @ free_opios ctx')" "set ops' \<union> set (free_opios ctx') \<subseteq> set ops \<union> set (free_opios ctx)"
    and si: "\<And>a. a \<notin> set ios \<Longrightarrow> a \<notin> set ios' \<Longrightarrow> iocbs ctx' a = iocbs ctx a"
    and sub: "set ios \<subseteq> set ios'"
    and so: "\<And>p. p \<notin> set ops \<Longrightarrow> p \<notin> set ops' \<Longrightarrow> opios ctx' p = opios ctx p"
    and fr: "\<And>p. p \<in> set (free_opios ctx') \<Longrightarrow> opios ctx' p = zero_opio"
  shows "good ctx' H ((ios', ops') # Gs)"
proof -
  have dis: "set ops \<inter> set (concat (map snd Gs)) = {}" "set (free_opios ctx) \<inter> set (concat (map snd Gs)) = {}"
    "distinct (concat (map snd Gs))" "distinct (concat (map fst Gs))"
    using g by (auto simp: good_def)
  have "rep ctx' H x" if x: "x \<in> set Gs" for x
  proof (rule rep_cong)
    show "rep ctx H x" using g x by (simp add: good_def)
    show "iocbs ctx' a = iocbs ctx a" if "a \<in> set (fst x)" for a
      using that x d(2) sub by (intro si) auto
    show "opios ctx' p = opios ctx p" if "p \<in> set (snd x)" for p
    proof (rule so)
      have "p \<in> set (concat (map snd Gs))" using that x by auto
      then show "p \<notin> set ops" "p \<notin> set ops'" using dis o(2) by blast+
    qed
  qed
  moreover have "iocbs ctx' a = H a" if "a \<notin> set ios'" "a \<notin> set (concat (map fst Gs))" for a
    using that g sub si [of a] by (auto simp: good_def)
  moreover have "set ops' \<inter> set (concat (map snd Gs)) = {}" "set (free_opios ctx') \<inter> set (concat (map snd Gs)) = {}"
    using o(2) dis by blast+
  ultimately show ?thesis
    using g r d o(1) fr dis(3,4) unfolding good_def by auto
qed

lemma good_head:
  assumes "good ctx H ((ios, ops) # Gs)"
  shows "ios \<noteq> []" "\<forall>a\<in>set ios. plain_req (H a)" "distinct ios" "distinct ops"
    "ops = [] \<Longrightarrow> \<exists>a. ios = [a] \<and> iocbs ctx a = H a" "ops \<noteq> [] \<Longrightarrow> vrep ctx H ios ops"
  using assms by (auto simp: good_def rep_def vrep_def split: if_splits)

lemma head_fields:
  assumes "good ctx H ((ios, ops) # Gs)"
  shows "iocb_vectorized (aio_lio_opcode (iocbs ctx (hd ios))) = iocb_vectorized (aio_lio_opcode (H (hd ios)))"
    "aio_fildes (iocbs ctx (hd ios)) = aio_fildes (H (hd ios))"
    "iocb_offset (iocbs ctx (hd ios)) = Some (c_offset (io_u (H (hd ios))))"
    "iocb_nbytes ctx (iocbs ctx (hd ios)) = Some (sum_list (map (\<lambda>a. c_nbytes (io_u (H a))) ios))"
    "(iocb_optimized (iocbs ctx (hd ios)) \<and> v_nr (io_u (iocbs ctx (hd ios))) = UIO_FASTIOV) = (length ios = UIO_FASTIOV)"
    "iocb_optimized (iocbs ctx (hd ios)) = (ops \<noteq> [])" "length ios \<le> UIO_FASTIOV"
proof -
  note h = good_head [OF assms]
  have "hd ios \<in> set ios" using h(1) by simp
  then have p: "plain_req (H (hd ios))" using h(2) by blast
  have "iocbs ctx (hd ios) = (if ops = [] then H (hd ios) else vec_head H ios (hd ops)) \<and> (ops = [] \<longrightarrow> length ios = 1)
      \<and> (ops \<noteq> [] \<longrightarrow> length ios \<le> UIO_FASTIOV)"
    using h(5,6) by (cases "ops = []") (auto simp: vrep_def)
  moreover have "iocb_nbytes ctx (iocbs ctx (hd ios)) = Some (sum_list (map (\<lambda>a. c_nbytes (io_u (H a))) ios))"
  proof (cases "ops = []")
    case True
    then obtain a where "ios = [a]" "iocbs ctx a = H a" using h(5) by blast
    then show ?thesis using plain_simps(2) [OF p] by simp
  next
    case False
    then show ?thesis by (rule vec_nbytes [OF h(6) h(2)])
  qed
  ultimately show "iocb_vectorized (aio_lio_opcode (iocbs ctx (hd ios))) = iocb_vectorized (aio_lio_opcode (H (hd ios)))"
    "aio_fildes (iocbs ctx (hd ios)) = aio_fildes (H (hd ios))"
    "iocb_offset (iocbs ctx (hd ios)) = Some (c_offset (io_u (H (hd ios))))"
    "iocb_nbytes ctx (iocbs ctx (hd ios)) = Some (sum_list (map (\<lambda>a. c_nbytes (io_u (H a))) ios))"
    "(iocb_optimized (iocbs ctx (hd ios)) \<and> v_nr (io_u (iocbs ctx (hd ios))) = UIO_FASTIOV) = (length ios = UIO_FASTIOV)"
    "iocb_optimized (iocbs ctx (hd ios)) = (ops \<noteq> [])" "length ios \<le> UIO_FASTIOV"
    using vec_head_simps [where H = H and ios = ios, OF p] plain_simps [OF p] by (auto split: if_splits)
qed

lemma merge_cond:
  assumes g: "good ctx H ((ios, ops) # Gs)" and io: "io \<notin> set (concat (map fst ((ios, ops) # Gs)))" "plain_req (H io)"
  shows "merge ctx (hd ios) io = (if joins H ios io then merge_tail ctx (hd ios) io else Some (- EINVAL, ctx))"
proof -
  have i: "iocbs ctx io = H io" using g io by (auto simp: good_def)
  have p: "plain_req (H (hd ios))" using good_head(1,2) [OF g] by simp
  show ?thesis
    using head_fields(7) [OF g]
    by (auto simp: merge_def contiguous_iocbs_def contiguous_sectors_def head_fields(1-5) [OF g] i plain_simps [OF io(2)]
        vectorized_eq [OF p io(2)] joins_def group_end_def)
qed

lemma merge_tail_vec:
  assumes g: "good ctx H ((ios, ops) # Gs)" and io: "io \<notin> set (concat (map fst ((ios, ops) # Gs)))" "plain_req (H io)"
    and j: "length ios < UIO_FASTIOV" and f: "free_opios ctx = fs @ [q]" and ops: "ops \<noteq> []"
  shows "\<exists>ctx'. merge_tail ctx (hd ios) io = Some (0, ctx') \<and> good ctx' H ((ios @ [io], ops @ [q]) # Gs) \<and> free_opios ctx' = fs"
proof -
  note h = good_head [OF g]
  have v: "vrep ctx H ios ops" using h(6) ops by simp
  have hp: "plain_req (H (hd ios))" using h(1,2) by simp
  have i: "iocbs ctx io = H io" using g io by (auto simp: good_def)
  have q: "opios ctx q = zero_opio" "q \<notin> set ops" "q \<notin> set fs" "distinct fs" "set ops \<inter> set fs = {}"
    using g f by (auto simp: good_def)
  have ne: "io \<noteq> hd ios" "io \<notin> set ios" using io(1) h(1) by auto
  have vh: "iocbs ctx (hd ios) = vec_head H ios (hd ops)" using v by (simp add: vrep_def)
  have geth: "opio_get ctx (hd ios) = Some (Some (hd ops), ctx)"
    using vec_head_simps [where H = H and ios = ios, OF hp] by (simp add: opio_get_def vh)
  let ?c1 = "ctx\<lparr>free_opios := fs, iocbs := (iocbs ctx)(io := (H io)\<lparr>io_data := Opio q\<rparr>),
      opios := (opios ctx)(q := (fresh_op H io q)\<lparr>op_head := Some (hd ops)\<rparr>)\<rparr>"
  have "rep ?c1 H (ios, ops)"
    by (rule rep_cong [of _ _ ctx]) (use v ops q(2) ne(2) in \<open>auto simp: rep_def\<close>)
  then have v1: "vrep ?c1 H ios ops" using ops by (simp add: rep_def)
  have opt: "iocb_optimized (iocbs ?c1 (hd ios))" using ne vh vec_head_simps(1) [where H = H and ios = ios, OF hp] by simp
  obtain ctx' where a: "append_tail ?c1 (hd ios) (hd ops) io q = Some ctx'" "vrep ctx' H (ios @ [io]) (ops @ [q])"
    "\<And>a. a \<noteq> hd ios \<Longrightarrow> iocbs ctx' a = iocbs ?c1 a" "\<And>p. p \<notin> set ops \<Longrightarrow> opios ctx' p = opios ?c1 p"
    "free_opios ctx' = free_opios ?c1"
    by (rule append_tail_rep [OF v1 j, of io q]) (use h(2-4) io(2) ne q in \<open>auto simp: fresh_op_def zero_opio_def\<close>)
  have run: "merge_tail ctx (hd ios) io = Some (0, ctx')"
    using a(1) opt by (simp add: merge_tail_def geth opio_get_plain [of ctx io H, OF i io(2) f q(1)])
  have "good ctx' H ((ios @ [io], ops @ [q]) # Gs)"
  proof (rule good_frame [OF g])
    show "rep ctx' H (ios @ [io], ops @ [q])" using a(2) by (simp add: rep_def)
    show "opios ctx' p = zero_opio" if "p \<in> set (free_opios ctx')" for p
    proof -
      have "p \<in> set fs" using that a(5) by simp
      moreover have "p \<notin> set ops" "p \<noteq> q" using calculation q by auto
      moreover have "opios ctx p = zero_opio" using calculation(1) g f by (simp add: good_def)
      ultimately show ?thesis using a(4) [of p] by simp
    qed
    show "iocbs ctx' x = iocbs ctx x" if "x \<notin> set ios" "x \<notin> set (ios @ [io])" for x
      using that a(3) [of x] hd_in_set [OF h(1)] by (cases "x = hd ios") auto
    show "opios ctx' p = opios ctx p" if "p \<notin> set ops" "p \<notin> set (ops @ [q])" for p
      using that a(4) [of p] by auto
  qed (use g io h a(5) q f in \<open>auto simp: good_def\<close>)
  then show ?thesis using run a(5) by simp
qed

lemma merge_tail_single:
  assumes g: "good ctx H (([a], []) # Gs)" and io: "io \<notin> set (concat (map fst (([a], []) # Gs)))" "plain_req (H io)"
    and j: "joins H [a] io" and f: "free_opios ctx = fs @ [q, p]"
  shows "\<exists>ctx'. merge_tail ctx a io = Some (0, ctx') \<and> good ctx' H (([a, io], [p, q]) # Gs) \<and> free_opios ctx' = fs"
proof -
  have pa: "plain_req (H a)" "iocbs ctx a = H a" using good_head [OF g] by auto
  have i: "iocbs ctx io = H io" using g io by (auto simp: good_def)
  have z: "opios ctx p = zero_opio" "opios ctx q = zero_opio" "p \<noteq> q" "p \<notin> set fs" "q \<notin> set fs" "distinct fs" "io \<noteq> a"
    using g f io by (auto simp: good_def)
  have f1: "free_opios ctx = (fs @ [q]) @ [p]" using f by simp
  let ?c1 = "ctx\<lparr>free_opios := fs @ [q], opios := (opios ctx)(p := fresh_op H a p),
      iocbs := (iocbs ctx)(a := (H a)\<lparr>io_data := Opio p\<rparr>)\<rparr>"
  let ?c2 = "ctx\<lparr>free_opios := fs, iocbs := (iocbs ctx)(a := (H a)\<lparr>io_data := Opio p\<rparr>, io := (H io)\<lparr>io_data := Opio q\<rparr>),
      opios := (opios ctx)(p := fresh_op H a p, q := (fresh_op H io q)\<lparr>op_head := Some p\<rparr>)\<rparr>"
  have g1: "opio_get ctx a = Some (Some p, ?c1)" by (rule opio_get_plain [of ctx a H, OF pa(2,1) f1 z(1)])
  have g2: "opio_get ?c1 io = Some (Some q, ?c1\<lparr>free_opios := fs, opios := (opios ?c1)(q := fresh_op H io q),
      iocbs := (iocbs ?c1)(io := (H io)\<lparr>io_data := Opio q\<rparr>)\<rparr>)"
    by (rule opio_get_plain) (use i io(2) z in simp_all)
  have cmd: "aio_lio_opcode (H a) = aio_lio_opcode (H io)" using j by (simp add: joins_def)
  obtain c3 where v: "vectorize_head ?c2 a p (aio_lio_opcode (H io)) = Some c3" "vrep c3 H [a] [p]"
    "\<And>x. x \<noteq> a \<Longrightarrow> iocbs c3 x = iocbs ?c2 x" "\<And>r. r \<noteq> p \<Longrightarrow> opios c3 r = opios ?c2 r" "free_opios c3 = fs"
    by (rule vectorize_rep [of H a ?c2 p "aio_lio_opcode (H io)"])
       (use pa z cmd io(2) in \<open>auto simp: fresh_op_def zero_opio_def plain_req_def\<close>)
  obtain c4 where a4: "append_tail c3 (hd [a]) (hd [p]) io q = Some c4" "vrep c4 H ([a] @ [io]) ([p] @ [q])"
    "\<And>x. x \<noteq> hd [a] \<Longrightarrow> iocbs c4 x = iocbs c3 x" "\<And>r. r \<notin> set [p] \<Longrightarrow> opios c4 r = opios c3 r" "free_opios c4 = free_opios c3"
    by (rule append_tail_rep [OF v(2), of io q])
       (use pa io(2) z v(3) [of io] v(4) [of q] in \<open>auto simp: fresh_op_def zero_opio_def\<close>)
  have no: "\<not> iocb_optimized (iocbs ?c2 a)" "aio_lio_opcode (iocbs ?c2 io) = aio_lio_opcode (H io)"
    using z plain_simps [OF pa(1)] by simp_all
  have run: "merge_tail ctx a io = Some (0, c4)"
    using v(1) a4(1) no z by (simp add: merge_tail_def g1 g2)
  have "good c4 H (([a, io], [p, q]) # Gs)"
  proof (rule good_frame [OF g])
    show "rep c4 H ([a, io], [p, q])" using a4(2) by (simp add: rep_def)
    show "opios c4 r = zero_opio" if "r \<in> set (free_opios c4)" for r
    proof -
      have "r \<in> set fs" using that a4(5) v(5) by simp
      moreover have "r \<noteq> p" "r \<noteq> q" using calculation z by auto
      moreover have "opios ctx r = zero_opio" using calculation(1) g f by (simp add: good_def)
      ultimately show ?thesis using a4(4) [of r] v(4) [of r] by simp
    qed
    show "iocbs c4 x = iocbs ctx x" if "x \<notin> set [a]" "x \<notin> set [a, io]" for x
      using that a4(3) [of x] v(3) [of x] by auto
    show "opios c4 r = opios ctx r" if "r \<notin> set []" "r \<notin> set [p, q]" for r
      using that a4(4) [of r] v(4) [of r] by auto
  qed (use g io pa a4(5) v(5) z f in \<open>auto simp: good_def\<close>)
  then show ?thesis using run a4(5) v(5) by simp
qed

lemma merge_good:
  assumes g: "good ctx H ((ios, ops) # Gs)" and io: "io \<notin> set (concat (map fst ((ios, ops) # Gs)))" "plain_req (H io)"
    and j: "joins H ios io" and f: "(if ops = [] then 2 else 1) \<le> length (free_opios ctx)"
  shows "\<exists>ctx' ops'. merge ctx (hd ios) io = Some (0, ctx') \<and> good ctx' H ((ios @ [io], ops') # Gs) \<and> ops' \<noteq> []
    \<and> length (free_opios ctx) = length (free_opios ctx') + (if ops = [] then 2 else 1)
    \<and> length ops' + length (free_opios ctx') = length ops + length (free_opios ctx)"
proof (cases "ops = []")
  case True
  then obtain a where a: "ios = [a]" using good_head(5) [OF g] by blast
  obtain fs p q where fr: "free_opios ctx = fs @ [q, p]"
  proof (cases "free_opios ctx" rule: rev_cases)
    case (snoc xs p)
    then have "xs \<noteq> []" using f True by auto
    then obtain fs q where "xs = fs @ [q]" by (cases xs rule: rev_cases) auto
    then show thesis using snoc that [of fs q p] by simp
  qed (use f True in simp)
  obtain c where "merge_tail ctx a io = Some (0, c)" "good c H (([a, io], [p, q]) # Gs)" "free_opios c = fs"
    using merge_tail_single [of ctx H a Gs io fs q p] g io j fr True a by auto
  then show ?thesis
    using j fr True a merge_cond [OF g io] by (intro exI [of _ c] exI [of _ "[p, q]"]) simp
next
  case False
  then obtain fs q where fr: "free_opios ctx = fs @ [q]"
    using f by (cases "free_opios ctx" rule: rev_cases) auto
  obtain c where "merge_tail ctx (hd ios) io = Some (0, c)" "good c H ((ios @ [io], ops @ [q]) # Gs)" "free_opios c = fs"
    using merge_tail_vec [OF g io _ fr False] j by (auto simp: joins_def)
  then show ?thesis
    using j fr False merge_cond [OF g io] by (intro exI [of _ c] exI [of _ "ops @ [q]"]) simp
qed

subsection \<open>The loop\<close>

text \<open>The grouping that the loop computes: a request joins the last group or starts a new one.\<close>

fun groups :: "(nat \<Rightarrow> iocb) \<Rightarrow> nat list \<Rightarrow> nat list \<Rightarrow> nat list list" where
  "groups H g [] = [g]"
| "groups H g (io # q) = (if joins H g io then groups H (g @ [io]) q else g # groups H [io] q)"

lemma concat_groups: "concat (groups H g q) = g @ q"
  by (induction H g q rule: groups.induct) auto

lemma distinct_move: "distinct (concat (map f (xs @ g # ys)) @ r) = distinct (concat (map f (g # xs @ ys)) @ r)"
proof -
  have "distinct ((a @ b @ c) @ r) = distinct ((b @ a @ c) @ r)" for a b c by auto
  from this [of "concat (map f xs)" "f g" "concat (map f ys)"] show ?thesis by simp
qed

lemma good_move: "good ctx H (Gn @ g # Gs) \<longleftrightarrow> good ctx H (g # Gn @ Gs)"
proof -
  have s: "set (Gn @ g # Gs) = set (g # Gn @ Gs)" "set (concat (map fst (Gn @ g # Gs))) = set (concat (map fst (g # Gn @ Gs)))"
    by auto
  have d: "distinct (concat (map fst (Gn @ g # Gs))) = distinct (concat (map fst (g # Gn @ Gs)))"
    using distinct_move [of fst Gn g Gs "[]"] by simp
  show ?thesis unfolding good_def s d distinct_move ..
qed

lemma good_single: "good ctx H Gs \<Longrightarrow> io \<notin> set (concat (map fst Gs)) \<Longrightarrow> plain_req (H io) \<Longrightarrow> good ctx H (([io], []) # Gs)"
  by (auto simp: good_def rep_def)

lemma merge_loop_good:
  assumes "good ctx H ((ios, ops) # Gs)" "distinct q" "set q \<inter> set (concat (map fst ((ios, ops) # Gs))) = {}"
    "\<forall>a\<in>set q. plain_req (H a)" "length q + (if ops = [] then 1 else 0) \<le> length (free_opios ctx)"
  shows "\<exists>ctx' Gn. merge_loop ctx dn (hd ios) q = Some (dn @ map (\<lambda>g. hd (fst g)) Gn, ctx') \<and> map fst Gn = groups H ios q
    \<and> good ctx' H (Gn @ Gs) \<and> length (concat (map snd Gn)) + length (free_opios ctx') = length ops + length (free_opios ctx)"
  using assms
proof (induction q arbitrary: ctx ios ops Gs dn)
  case Nil
  then show ?case by (intro exI [of _ ctx] exI [of _ "[(ios, ops)]"]) simp
next
  case (Cons io q)
  have io: "io \<notin> set (concat (map fst ((ios, ops) # Gs)))" "plain_req (H io)" using Cons.prems(3,4) by auto
  show ?case
  proof (cases "joins H ios io")
    case True
    obtain ctx1 ops' where m: "merge ctx (hd ios) io = Some (0, ctx1)" "good ctx1 H ((ios @ [io], ops') # Gs)" "ops' \<noteq> []"
      "length (free_opios ctx) = length (free_opios ctx1) + (if ops = [] then 2 else 1)"
      "length ops' + length (free_opios ctx1) = length ops + length (free_opios ctx)"
      using merge_good [OF Cons.prems(1) io True] Cons.prems(5) by (auto split: if_splits)
    have "\<exists>ctx' Gn. merge_loop ctx1 dn (hd (ios @ [io])) q = Some (dn @ map (\<lambda>g. hd (fst g)) Gn, ctx')
        \<and> map fst Gn = groups H (ios @ [io]) q \<and> good ctx' H (Gn @ Gs)
        \<and> length (concat (map snd Gn)) + length (free_opios ctx') = length ops' + length (free_opios ctx1)"
      by (rule Cons.IH [OF m(2)]) (use Cons.prems m in \<open>auto split: if_splits\<close>)
    then show ?thesis using True m(1,5) good_head(1) [OF Cons.prems(1)] by simp
  next
    case False
    have g: "good ctx H (([io], []) # (ios, ops) # Gs)" by (rule good_single [OF Cons.prems(1) io])
    obtain ctx' Gn where r: "merge_loop ctx (dn @ [hd ios]) (hd [io]) q = Some ((dn @ [hd ios]) @ map (\<lambda>g. hd (fst g)) Gn, ctx')"
      "map fst Gn = groups H [io] q" "good ctx' H (Gn @ (ios, ops) # Gs)"
      "length (concat (map snd Gn)) + length (free_opios ctx') = length ([] :: nat list) + length (free_opios ctx)"
      using Cons.IH [OF g, of "dn @ [hd ios]"] Cons.prems(2-5) by (auto split: if_splits)
    have "good ctx' H (((ios, ops) # Gn) @ Gs)" using r(3) good_move by simp
    then show ?thesis
      using False r merge_cond [OF Cons.prems(1) io] by (intro exI [of _ ctx'] exI [of _ "(ios, ops) # Gn"]) simp
  qed
qed

subsection \<open>Taking a group apart\<close>

lemma override_chain:
  "chain os H (a # as) (p # ps) \<Longrightarrow> p \<notin> set ps \<Longrightarrow> chain (os(p := z)) H as ps"
  by (subst chain_cong [where os = os]) auto

lemma expand_ops_chain:
  assumes "chain (opios ctx) H as ps" "distinct ps"
  shows "expand_ops ctx (case ps of [] \<Rightarrow> None | p # _ \<Rightarrow> Some p) = Some (as, ctx\<lparr>
    iocbs := (\<lambda>a. if a \<in> set as then H a else iocbs ctx a),
    opios := (\<lambda>p. if p \<in> set ps then zero_opio else opios ctx p), free_opios := free_opios ctx @ ps\<rparr>)"
  using assms
proof (induction as arbitrary: ctx ps)
  case Nil
  then show ?case by (subst expand_ops.simps) simp
next
  case (Cons a as)
  then obtain p ps' where ps: "ps = p # ps'" by (cases ps) auto
  let ?c = "free_opio (restore_iocb ctx p) p"
  have f: "op_iocb (opios ctx p) = a" "orig_iocb (opios ctx p) = H a"
    "op_next (opios ctx p) = (case ps' of [] \<Rightarrow> None | q # _ \<Rightarrow> Some q)" using Cons.prems ps by auto
  have c: "?c = ctx\<lparr>iocbs := (iocbs ctx)(a := H a), opios := (opios ctx)(p := zero_opio), free_opios := free_opios ctx @ [p]\<rparr>"
    by (simp add: free_opio_def restore_iocb_def f)
  have "chain (opios ?c) H as ps'" using Cons.prems ps override_chain by (auto simp: c)
  from Cons.IH [OF this] show ?case
    using Cons.prems(2) ps by (subst expand_ops.simps) (auto simp: f c fun_eq_iff)
qed

lemma event_ops_chain:
  assumes "chain (opios ctx) H as ps" "distinct ps" "\<forall>a\<in>set as. plain_req (H a)"
  shows "event_ops ctx err (case ps of [] \<Rightarrow> None | p # _ \<Rightarrow> Some p) =
    Some (map (\<lambda>a. \<lparr> ev_obj = a, ev_res = (if err \<noteq> 0 then word_of_int err else c_nbytes (io_u (H a))) \<rparr>) as, ctx\<lparr>
    iocbs := (\<lambda>a. if a \<in> set as then H a else iocbs ctx a),
    opios := (\<lambda>p. if p \<in> set ps then zero_opio else opios ctx p), free_opios := free_opios ctx @ ps\<rparr>)"
  using assms
proof (induction as arbitrary: ctx ps)
  case Nil
  then show ?case by (subst event_ops.simps) simp
next
  case (Cons a as)
  then obtain p ps' where ps: "ps = p # ps'" by (cases ps) auto
  let ?c = "free_opio (restore_iocb ctx p) p"
  have f: "op_iocb (opios ctx p) = a" "orig_iocb (opios ctx p) = H a"
    "op_next (opios ctx p) = (case ps' of [] \<Rightarrow> None | q # _ \<Rightarrow> Some q)" using Cons.prems ps by auto
  have c: "?c = ctx\<lparr>iocbs := (iocbs ctx)(a := H a), opios := (opios ctx)(p := zero_opio), free_opios := free_opios ctx @ [p]\<rparr>"
    by (simp add: free_opio_def restore_iocb_def f)
  have "chain (opios ?c) H as ps'" using Cons.prems ps override_chain by (auto simp: c)
  from Cons.IH [OF this] show ?case
    using Cons.prems(2,3) ps plain_simps(2) [of "H a"] by (subst event_ops.simps) (auto simp: f c fun_eq_iff)
qed

end
