(* ===== verification/Io_Props.thy ===== *)
theory Io_Props
  imports Io_Groups "HOL-Library.Multiset"
begin

text \<open>Properties of the merging and splitting of asynchronous requests.\<close>

subsection \<open>Groups that complete\<close>

lemma good_drop:
  assumes g: "good ctx H ((ios, ops) # Gs)"
    and c: "ctx' = (if ops = [] then ctx else ctx\<lparr>iocbs := (\<lambda>a. if a \<in> set ios then H a else iocbs ctx a),
      opios := (\<lambda>p. if p \<in> set ops then zero_opio else opios ctx p), free_opios := free_opios ctx @ ops\<rparr>)"
  shows "good ctx' H Gs"
proof (cases "ops = []")
  case True
  then obtain a where "ios = [a]" "iocbs ctx a = H a" using good_head(5) [OF g] by blast
  then show ?thesis using g True c by (auto simp: good_def)
next
  case False
  have dis: "set ios \<inter> set (concat (map fst Gs)) = {}" "set ops \<inter> set (concat (map snd Gs)) = {}"
    using g by (auto simp: good_def)
  have "rep ctx' H x" if x: "x \<in> set Gs" for x
  proof (rule rep_cong)
    show "rep ctx H x" using g x by (simp add: good_def)
    show "iocbs ctx' a = iocbs ctx a" if "a \<in> set (fst x)" for a
      using that x dis(1) False by (auto simp: c)
    show "opios ctx' p = opios ctx p" if "p \<in> set (snd x)" for p
      using that x dis(2) False by (auto simp: c)
  qed
  moreover have "distinct (concat (map snd Gs) @ free_opios ctx @ ops)" using g by (auto simp: good_def)
  ultimately show ?thesis using g False by (auto simp: good_def c)
qed

text \<open>What the completion of a group with result \<open>r\<close> becomes.\<close>

definition group_bytes :: "(nat \<Rightarrow> iocb) \<Rightarrow> nat list \<Rightarrow> 64 word" where
  "group_bytes H ios = sum_list (map (\<lambda>a. c_nbytes (io_u (H a))) ios)"

definition err_of :: "64 word \<Rightarrow> 64 word \<Rightarrow> int" where
  "err_of n r = (if r = n then 0 else if sint (ucast r :: 32 word) < 0 then sint (ucast r :: 32 word) else - EIO)"

definition completions :: "(nat \<Rightarrow> iocb) \<Rightarrow> group \<Rightarrow> 64 word \<Rightarrow> io_event list" where
  "completions H g r = (if snd g = [] then [\<lparr> ev_obj = hd (fst g), ev_res = r \<rparr>]
     else map (\<lambda>a. \<lparr> ev_obj = a, ev_res = (if err_of (group_bytes H (fst g)) r \<noteq> 0 then word_of_int (err_of (group_bytes H (fst g)) r)
        else c_nbytes (io_u (H a))) \<rparr>) (fst g))"

lemma ops_pointer:
  assumes "good ctx H ((ios, ops) # Gs)" "ops \<noteq> []"
  shows "io_data (iocbs ctx (hd ios)) = Opio (hd ops)" "Some (hd ops) = (case ops of [] \<Rightarrow> None | p # _ \<Rightarrow> Some p)"
    "chain (opios ctx) H ios ops"
  using good_head(6) [OF assms] assms(2) by (auto simp: vrep_def vec_head_def split: list.splits)

lemma expand_group:
  assumes g: "good ctx H ((ios, ops) # Gs)"
  shows "\<exists>ctx'. (if \<not> iocb_optimized (iocbs ctx (hd ios)) then Some ([hd ios], ctx) else expand_iocb ctx (hd ios)) = Some (ios, ctx')
    \<and> good ctx' H Gs \<and> length (free_opios ctx') = length (free_opios ctx) + length ops"
proof (cases "ops = []")
  case True
  then obtain a where "ios = [a]" using good_head(5) [OF g] by blast
  then show ?thesis using True head_fields(6) [OF g] good_drop [OF g] by auto
next
  case False
  note p = ops_pointer [OF g False]
  show ?thesis
    using expand_ops_chain [OF p(3) good_head(4) [OF g]] good_drop [OF g] False head_fields(6) [OF g]
    unfolding p(2) [symmetric] by (simp add: expand_iocb_def p(1))
qed

lemma event_group:
  assumes g: "good ctx H ((ios, ops) # Gs)"
  shows "\<exists>ctx'. (if \<not> iocb_optimized (iocbs ctx (hd ios)) then Some ([\<lparr> ev_obj = hd ios, ev_res = r \<rparr>], ctx)
      else expand_event ctx \<lparr> ev_obj = hd ios, ev_res = r \<rparr>) = Some (completions H (ios, ops) r, ctx')
    \<and> good ctx' H Gs \<and> length (free_opios ctx') = length (free_opios ctx) + length ops"
proof (cases "ops = []")
  case True
  then show ?thesis using head_fields(6) [OF g] good_drop [OF g] by (auto simp: completions_def)
next
  case False
  note p = ops_pointer [OF g False]
  have e: "event_err ctx \<lparr> ev_obj = hd ios, ev_res = r \<rparr> = Some (err_of (group_bytes H ios) r)"
    using head_fields(4) [OF g] by (simp add: event_err_def err_of_def group_bytes_def Let_def)
  show ?thesis
    using event_ops_chain [OF p(3) good_head(4,2) [OF g]] good_drop [OF g] False head_fields(6) [OF g]
    unfolding p(2) [symmetric] by (simp add: expand_event_def p(1) e completions_def)
qed

lemma expand_queue_good:
  "good ctx H (Gn @ Gs) \<Longrightarrow> \<exists>ctx'. expand_queue ctx (map (\<lambda>g. hd (fst g)) Gn) = Some (concat (map fst Gn), ctx') \<and> good ctx' H Gs
    \<and> length (free_opios ctx') = length (free_opios ctx) + length (concat (map snd Gn))"
proof (induction Gn arbitrary: ctx)
  case (Cons g Gn)
  obtain ios ops where g: "g = (ios, ops)" by (cases g)
  obtain ctx1 where "(if \<not> iocb_optimized (iocbs ctx (hd ios)) then Some ([hd ios], ctx) else expand_iocb ctx (hd ios)) = Some (ios, ctx1)"
    "good ctx1 H (Gn @ Gs)" "length (free_opios ctx1) = length (free_opios ctx) + length ops"
    using expand_group [of ctx H ios ops "Gn @ Gs"] Cons.prems g by auto
  then show ?case using Cons.IH [of ctx1] g by auto
qed simp

lemma io_split_good:
  "good ctx H (map fst grs @ Gs) \<Longrightarrow>
    \<exists>ctx'. io_split ctx (map (\<lambda>(g, r). \<lparr> ev_obj = hd (fst g), ev_res = r \<rparr>) grs)
        = Some (concat (map (\<lambda>(g, r). completions H g r) grs), ctx') \<and> good ctx' H Gs
      \<and> length (free_opios ctx') = length (free_opios ctx) + length (concat (map (snd \<circ> fst) grs))"
proof (induction grs arbitrary: ctx)
  case (Cons gr grs)
  obtain ios ops r where g: "gr = ((ios, ops), r)" by (metis surj_pair)
  obtain ctx1 where "(if \<not> iocb_optimized (iocbs ctx (hd ios)) then Some ([\<lparr> ev_obj = hd ios, ev_res = r \<rparr>], ctx)
      else expand_event ctx \<lparr> ev_obj = hd ios, ev_res = r \<rparr>) = Some (completions H (ios, ops) r, ctx1)"
    "good ctx1 H (map fst grs @ Gs)" "length (free_opios ctx1) = length (free_opios ctx) + length ops"
    using event_group [of ctx H ios ops "map fst grs @ Gs" r] Cons.prems g by auto
  then show ?case using Cons.IH [of ctx1] g by auto
qed simp

subsection \<open>Requests in flight\<close>

lemma good_perm: "good ctx H (P @ Gs) \<Longrightarrow> mset Gs = mset Gs' \<Longrightarrow> good ctx H (P @ Gs')"
proof (induction Gs' arbitrary: P Gs)
  case (Cons g Gs')
  then have "g \<in> set Gs" by (metis list.set_intros(1) mset_eq_setD)
  then obtain A B where Gs: "Gs = A @ g # B" by (metis split_list)
  have "good ctx H (g # P @ A @ B)" using Cons.prems(1) good_move [of ctx H "P @ A" g B] Gs by simp
  then have "good ctx H ((P @ [g]) @ (A @ B))" using good_move [of ctx H P g "A @ B"] by simp
  moreover have "mset (A @ B) = mset Gs'" using Cons.prems(2) Gs by simp
  ultimately have "good ctx H ((P @ [g]) @ Gs')" by (rule Cons.IH)
  then show ?case by simp
qed simp

lemma pick_rest:
  assumes "distinct gs" "set gs \<subseteq> set Gs"
  shows "\<exists>Rs. mset Gs = mset (gs @ Rs)"
proof -
  have "count (mset gs) x \<le> count (mset Gs) x" for x
  proof (cases "x \<in> set gs")
    case True
    then have "count (mset gs) x = 1" using spec [OF iffD1 [OF distinct_count_atmost_1 assms(1)], of x] by simp
    moreover have "0 < count (mset Gs) x" using True assms(2) by (auto simp: count_greater_zero_iff)
    ultimately show ?thesis by linarith
  next
    case False
    then have "count (mset gs) x = 0" by simp
    then show ?thesis by linarith
  qed
  then have "mset gs \<subseteq># mset Gs" by (simp add: subseteq_mset_def)
  then obtain M where "mset Gs = mset gs + M" by (metis subset_mset.add_diff_inverse)
  moreover obtain Rs where "mset Rs = M" using ex_mset by blast
  ultimately show ?thesis by auto
qed

lemma good_pick:
  assumes "good ctx H Gs" "distinct gs" "set gs \<subseteq> set Gs"
  shows "\<exists>Rs. good ctx H (gs @ Rs)"
proof -
  obtain Rs where "mset Gs = mset (gs @ Rs)" using pick_rest [OF assms(2,3)] by blast
  then show ?thesis using good_perm [of ctx H "[]" Gs "gs @ Rs"] assms(1) by auto
qed

text \<open>The groups determine the requests.\<close>

lemma rep_iocbs: "rep ctx H g \<Longrightarrow> rep ctx' H g \<Longrightarrow> a \<in> set (fst g) \<Longrightarrow> iocbs ctx a = iocbs ctx' a"
proof -
  assume r: "rep ctx H g" "rep ctx' H g" and a: "a \<in> set (fst g)"
  obtain ios ops where g: "g = (ios, ops)" by (cases g)
  show "iocbs ctx a = iocbs ctx' a"
  proof (cases "ops = []")
    case True
    then show ?thesis using r a g by (auto simp: rep_def)
  next
    case False
    then have v: "vrep ctx H ios ops" "vrep ctx' H ios ops" using r g by (auto simp: rep_def)
    then have eq: "list_all2 (\<lambda>a p. iocbs ctx a = iocbs ctx' a) (tl ios) (tl ops)"
      by (auto simp: vrep_def list_all2_conv_all_nth)
    have "a = hd ios \<or> a \<in> set (tl ios)" using a g by (cases ios) auto
    then show ?thesis
      using v eq by (auto simp: vrep_def list_all2_conv_all_nth in_set_conv_nth)
  qed
qed

lemma good_iocbs: "good ctx H Gs \<Longrightarrow> good ctx' H Gs \<Longrightarrow> iocbs ctx = iocbs ctx'"
proof
  fix a assume g: "good ctx H Gs" "good ctx' H Gs"
  show "iocbs ctx a = iocbs ctx' a"
  proof (cases "a \<in> set (concat (map fst Gs))")
    case True
    then obtain x where "x \<in> set Gs" "a \<in> set (fst x)" by auto
    then show ?thesis using g rep_iocbs [of ctx H x ctx' a] by (simp add: good_def)
  next
    case False
    then show ?thesis using g by (simp add: good_def)
  qed
qed

subsection \<open>What a merged request transfers\<close>

definition vector :: "opioctx \<Rightarrow> iocb \<Rightarrow> iovec list" where
  "vector ctx io = (if iocb_optimized io then take (v_nr (io_u io)) (op_iov (opios ctx (v_vec (io_u io)))) else [seg io])"

definition contig :: "(nat \<Rightarrow> iocb) \<Rightarrow> nat list \<Rightarrow> bool" where
  "contig H g \<longleftrightarrow> g \<noteq> [] \<and> length g \<le> UIO_FASTIOV
     \<and> (\<forall>i<length g. c_offset (io_u (H (g ! i))) = c_offset (io_u (H (hd g))) + group_bytes H (take i g)
          \<and> aio_lio_opcode (H (g ! i)) = aio_lio_opcode (H (hd g)) \<and> aio_fildes (H (g ! i)) = aio_fildes (H (hd g)))"

lemma contig_snoc: "contig H g \<Longrightarrow> joins H g io \<Longrightarrow> contig H (g @ [io])"
  by (auto simp: contig_def joins_def group_end_def group_bytes_def nth_append less_Suc_eq)

lemma groups_contig: "contig H g \<Longrightarrow> \<forall>x\<in>set (groups H g q). contig H x"
proof (induction H g q rule: groups.induct)
  case (2 H g io q)
  have "contig H [io]" by (simp add: contig_def group_bytes_def)
  then show ?case using 2 contig_snoc by auto
qed simp

lemma good_vector:
  assumes "good ctx H Gs" "g \<in> set Gs"
  shows "vector ctx (iocbs ctx (hd (fst g))) = map (\<lambda>a. seg (H a)) (fst g)"
proof -
  obtain A B where "Gs = A @ g # B" using assms(2) by (metis split_list)
  then have g: "good ctx H (g # A @ B)" using assms(1) good_move by blast
  obtain ios ops where p: "g = (ios, ops)" by (cases g)
  have h: "good ctx H ((ios, ops) # A @ B)" using g p by simp
  show ?thesis
  proof (cases "ops = []")
    case True
    then show ?thesis using good_head(5) [OF h] head_fields(6) [OF h] p by (auto simp: vector_def)
  next
    case False
    then show ?thesis
      using good_head(6) [OF h False] head_fields(6) [OF h] p by (auto simp: vector_def vrep_def vec_head_def)
  qed
qed

subsection \<open>Sample queue\<close>

definition demo_req :: "nat \<Rightarrow> iocb" where
  "demo_req a = \<lparr> aio_lio_opcode = IO_CMD_PREAD, aio_fildes = 3, io_u = UC (1000 * a) 512 (of_nat (512 * a)), io_data = Tiocb a \<rparr>"

definition demo_ctx :: opioctx where
  "demo_ctx = \<lparr> iocbs = demo_req, opios = (\<lambda>_. zero_opio), free_opios = [0..<4] \<rparr>"

lemma demo_plain: "plain_req (demo_req a)"
  by (simp add: plain_req_def demo_req_def)

lemma demo_good: "good demo_ctx demo_req []"
  by (simp add: good_def demo_ctx_def)

lemma demo_seg: "c_buf (io_u (demo_req a)) = 1000 * a" "c_nbytes (io_u (demo_req a)) = 512"
  by (simp_all add: demo_req_def)

lemma demo_free: "length (free_opios demo_ctx) = 4"
  by (simp add: demo_ctx_def)

lemma demo_groups: "groups demo_req [1] [2, 5] = [[1, 2], [5]]"
  by (simp add: joins_def group_end_def demo_req_def)

text \<open>After two neighbouring requests have been merged.\<close>

definition demo_two :: opioctx where
  "demo_two = snd (the (io_merge demo_ctx [1, 2]))"

lemma demo_two_good: "good demo_two demo_req [([1, 2], [3, 2])]"
proof -
  have g: "good demo_ctx demo_req [([1], [])]" using good_single [OF demo_good] demo_plain by simp
  have "free_opios demo_ctx = [0, 1] @ [2, 3]" by (simp add: demo_ctx_def upt_rec)
  moreover have j: "joins demo_req [1] 2" by (simp add: joins_def group_end_def demo_req_def)
  ultimately obtain c where "merge_tail demo_ctx 1 2 = Some (0, c)" "good c demo_req [([1, 2], [3, 2])]"
    using merge_tail_single [OF g, of 2 "[0, 1]" 2 3] demo_plain by auto
  moreover have "merge demo_ctx 1 2 = merge_tail demo_ctx 1 2"
    using merge_cond [OF g, of 2] demo_plain j by simp
  ultimately show ?thesis by (simp add: demo_two_def io_merge_def)
qed

subsection \<open>Properties\<close>

text \<open>C27: Merging a queue of reads and writes forwards the same transfers: the merged requests are the first
  requests of consecutive groups that make up the queue, each with at most eight buffers, the buffers of
  its group in order, the sum of their sizes and the offset of the first, and the offset of every member is
  where the buffers before it end.  Requests in flight are not affected.\<close>

theorem io_merge_transfers:
  assumes "good ctx H Gs" and "distinct q" and "set q \<inter> set (concat (map fst Gs)) = {}"
    and "list_all (\<lambda>a. plain_req (H a)) q" and "length q \<le> length (free_opios ctx)" and "q \<noteq> []"
  shows "\<exists>ctx' Gn. io_merge ctx q = Some (map (\<lambda>g. hd (fst g)) Gn, ctx') \<and> good ctx' H (Gn @ Gs)
    \<and> concat (map fst Gn) = q \<and> map fst Gn = groups H [hd q] (tl q)
    \<and> list_all (\<lambda>g. contig H (fst g)
         \<and> vector ctx' (iocbs ctx' (hd (fst g))) = map (\<lambda>a. (c_buf (io_u (H a)), c_nbytes (io_u (H a)))) (fst g)
         \<and> iocb_offset (iocbs ctx' (hd (fst g))) = iocb_offset (H (hd (fst g)))
         \<and> iocb_nbytes ctx' (iocbs ctx' (hd (fst g))) = Some (group_bytes H (fst g))) Gn"
proof -
  obtain h t where q: "q = h # t" using assms(6) by (cases q) auto
  have g: "good ctx H (([h], []) # Gs)" using good_single [OF assms(1)] assms(3,4) q by auto
  obtain ctx' Gn where r: "merge_loop ctx [] (hd [h]) t = Some ([] @ map (\<lambda>g. hd (fst g)) Gn, ctx')"
    "map fst Gn = groups H [h] t" "good ctx' H (Gn @ Gs)"
    using merge_loop_good [OF g, of t "[]"] assms(2-5) q by (auto simp: list_all_iff)
  have c: "\<forall>x\<in>set (map fst Gn). contig H x" unfolding r(2) by (rule groups_contig) (simp add: contig_def group_bytes_def)
  have each: "contig H (fst g) \<and> vector ctx' (iocbs ctx' (hd (fst g))) = map (\<lambda>a. seg (H a)) (fst g)
      \<and> iocb_offset (iocbs ctx' (hd (fst g))) = iocb_offset (H (hd (fst g)))
      \<and> iocb_nbytes ctx' (iocbs ctx' (hd (fst g))) = Some (group_bytes H (fst g))" if "g \<in> set Gn" for g
  proof -
    obtain A B where "Gn @ Gs = A @ g # B" using split_list [of g "Gn @ Gs"] \<open>g \<in> set Gn\<close> by auto
    then have h: "good ctx' H (g # A @ B)" using r(3) iffD1 [OF good_move] by simp
    obtain ios ops where p: "g = (ios, ops)" by (cases g)
    have h': "good ctx' H ((ios, ops) # A @ B)" using h p by simp
    have "plain_req (H (hd ios))" using good_head(1,2) [OF h'] by simp
    then show ?thesis
      using bspec [OF c, of ios] \<open>g \<in> set Gn\<close> good_vector [OF r(3), of g] head_fields(3,4) [OF h'] p plain_simps(3) [of "H (hd ios)"]
      by (force simp: group_bytes_def)
  qed
  have "concat (map fst Gn) = q" using r(2) concat_groups [of H "[h]" t] q by simp
  moreover have "io_merge ctx q = Some (map (\<lambda>g. hd (fst g)) Gn, ctx')" using r(1) q by (simp add: io_merge_def)
  ultimately show ?thesis using r(2,3) each q unfolding list_all_iff by (intro exI [of _ ctx'] exI [of _ Gn]) simp
qed

theorem io_merge_transfers_witness:
  "\<exists>ctx'. io_merge demo_ctx [1, 2, 5] = Some ([1, 5], ctx') \<and> vector ctx' (iocbs ctx' 1) = [(1000, 512), (2000, 512)]"
  using io_merge_transfers [OF demo_good, of "[1, 2, 5]"] demo_groups demo_free
  by (auto simp: demo_plain demo_seg list_all_iff simp del: groups.simps)



text \<open>C29: Completions are split faithfully: whatever completed groups the events name and in whatever order, the
  result lists every original request of each group exactly once, in order, with its own size when the whole
  group was transferred and with the group's error otherwise, and each of them is restored.\<close>

theorem io_split_complete:
  assumes "good ctx H Gs" and "distinct (map fst grs)" and "set (map fst grs) \<subseteq> set Gs"
  shows "\<exists>ctx'. io_split ctx (map (\<lambda>(g, r). \<lparr> ev_obj = hd (fst g), ev_res = r \<rparr>) grs)
      = Some (concat (map (\<lambda>(g, r). completions H g r) grs), ctx')
    \<and> map ev_obj (concat (map (\<lambda>(g, r). completions H g r) grs)) = concat (map (fst \<circ> fst) grs)
    \<and> list_all (\<lambda>g. list_all (\<lambda>a. iocbs ctx' a = H a) (fst g)) (map fst grs)"
proof -
  obtain Rs where g: "good ctx H (map fst grs @ Rs)" using good_pick [OF assms] by blast
  obtain ctx' where r: "io_split ctx (map (\<lambda>(g, r). \<lparr> ev_obj = hd (fst g), ev_res = r \<rparr>) grs)
      = Some (concat (map (\<lambda>(g, r). completions H g r) grs), ctx')" "good ctx' H Rs"
    using io_split_good [OF g] by blast
  have single: "map ev_obj (completions H x r) = fst x" if "x \<in> set (map fst grs)" for x r
  proof -
    have "rep ctx H x" using g that by (simp add: good_def)
    then show ?thesis by (cases x) (auto simp: completions_def rep_def comp_def split: if_splits)
  qed
  have "map ev_obj (concat (map (\<lambda>(g, r). completions H g r) xs)) = concat (map (fst \<circ> fst) xs)"
    if "set xs \<subseteq> set grs" for xs
    using that single by (induction xs) force+
  moreover have "\<forall>x\<in>set (map fst grs). \<forall>a\<in>set (fst x). iocbs ctx' a = H a"
  proof (intro ballI)
    fix x a assume that: "x \<in> set (map fst grs)" "a \<in> set (fst x)"
    have "a \<in> set (concat (map fst (map fst grs)))" using that by auto
    then have "a \<notin> set (concat (map fst Rs))" using g unfolding good_def by (auto simp del: set_concat)
    then show "iocbs ctx' a = H a" using r(2) by (simp add: good_def)
  qed
  ultimately show ?thesis using r(1) unfolding list_all_iff by blast
qed

theorem io_split_complete_witness:
  "\<exists>ctx'. io_split demo_two [\<lparr> ev_obj = 1, ev_res = 1024 \<rparr>]
     = Some ([\<lparr> ev_obj = 1, ev_res = 512 \<rparr>, \<lparr> ev_obj = 2, ev_res = 512 \<rparr>], ctx') \<and> iocbs ctx' 1 = demo_req 1"
  using io_split_complete [OF demo_two_good, of "[(([1, 2], [3, 2]), 1024)]"]
  by (auto simp: completions_def err_of_def group_bytes_def demo_seg simp del: io_split.simps(2))

end
