(* ===== verification/Aio_Queue.thy ===== *)
theory Aio_Queue
  imports Io_Props
begin

text \<open>The request queue of tapdisk's asynchronous I/O (\<^verbatim>\<open>drivers/libaio-backend.c\<close>).  Requests are queued, merged and
  submitted to the kernel; requests beyond the size of the queue wait on a linked list of deferred ones.

  A request of a driver is a \<^verbatim>\<open>struct tiocb\<close> with an embedded \<^verbatim>\<open>struct iocb\<close>; both have the same address here.
  \<open>tio_next\<close> is the field \<^verbatim>\<open>next\<close> of all of them.  The callback of a request is a parameter.  \<open>accepted\<close> records the
  requests that drivers queue and \<open>completed\<close> the calls of their callbacks.  The outcome of \<^verbatim>\<open>io_submit\<close> and the events of \<^verbatim>\<open>io_getevents\<close> are arguments.  The descriptor that the
  kernel signals is not modelled.\<close>

record libaio_queue =
  q_size :: nat
  opioctx_of :: opioctx
  q_iocbs :: "nat list"
  iocbs_pending :: int
  tiocbs_pending :: int
  deferred_head :: "nat option"
  deferred_tail :: "nat option"
  tiocbs_deferred :: int
  deferrals :: nat
  tio_next :: "nat \<Rightarrow> nat option"
  accepted :: "nat list"
  completed :: "(nat \<times> int) list"

type_synonym aio_callback = "nat \<Rightarrow> int \<Rightarrow> libaio_queue \<Rightarrow> libaio_queue option"

abbreviation queue_iocb :: "libaio_queue \<Rightarrow> nat \<Rightarrow> iocb" where
  "queue_iocb q a \<equiv> iocbs (opioctx_of q) a"

definition tiocb_at :: "libaio_queue \<Rightarrow> nat \<Rightarrow> nat option" where
  "tiocb_at q a = (case io_data (queue_iocb q a) of Tiocb t \<Rightarrow> Some t | Opio _ \<Rightarrow> None)"

definition libaio_backend_queue_full :: "libaio_queue \<Rightarrow> bool" where
  "libaio_backend_queue_full q \<longleftrightarrow> tiocbs_pending q + int (length (q_iocbs q)) \<ge> int (q_size q)"

definition libaio_backend_prep_tiocb :: "libaio_queue \<Rightarrow> nat \<Rightarrow> int \<Rightarrow> bool \<Rightarrow> nat \<Rightarrow> 64 word \<Rightarrow> 64 word \<Rightarrow> libaio_queue" where
  "libaio_backend_prep_tiocb q t fd rw buf nbytes offset =
     q\<lparr>opioctx_of := (opioctx_of q)\<lparr>iocbs := (iocbs (opioctx_of q))(t :=
         \<lparr> aio_lio_opcode = (if rw then IO_CMD_PWRITE else IO_CMD_PREAD), aio_fildes = fd,
           io_u = UC buf nbytes offset, io_data = Tiocb t \<rparr>)\<rparr>,
       tio_next := (tio_next q)(t := None)\<rparr>"

definition queue_tiocb :: "libaio_queue \<Rightarrow> nat \<Rightarrow> libaio_queue option" where
  "queue_tiocb q t =
     (if q_iocbs q \<noteq> []
      then do {
        prev \<leftarrow> tiocb_at q (last (q_iocbs q));
        Some (q\<lparr>tio_next := (tio_next q)(prev := Some t), q_iocbs := q_iocbs q @ [t]\<rparr>)
      }
      else Some (q\<lparr>q_iocbs := q_iocbs q @ [t]\<rparr>))"

definition defer_tiocb :: "libaio_queue \<Rightarrow> nat \<Rightarrow> libaio_queue" where
  "defer_tiocb q t =
     (let q = (case deferred_head q of
                 None \<Rightarrow> q\<lparr>deferred_head := Some t, deferred_tail := Some t\<rparr>
               | Some _ \<Rightarrow> q\<lparr>tio_next := (tio_next q)(the (deferred_tail q) := Some t), deferred_tail := Some t\<rparr>)
      in q\<lparr>tiocbs_deferred := tiocbs_deferred q + 1, deferrals := u64 (deferrals q + 1)\<rparr>)"

definition queue_deferred_tiocb :: "libaio_queue \<Rightarrow> libaio_queue option" where
  "queue_deferred_tiocb q = (case deferred_head q of
     None \<Rightarrow> Some q
   | Some t \<Rightarrow> do {
       let q = q\<lparr>deferred_head := tio_next q t\<rparr>;
       let q = (if deferred_head q = None then q\<lparr>deferred_tail := None\<rparr> else q);
       q \<leftarrow> queue_tiocb q t;
       Some (q\<lparr>tiocbs_deferred := tiocbs_deferred q - 1\<rparr>)
     })"

partial_function (option) queue_deferred_tiocbs :: "libaio_queue \<Rightarrow> libaio_queue option" where
  [code]: "queue_deferred_tiocbs q =
     (if \<not> libaio_backend_queue_full q \<and> deferred_head q \<noteq> None
      then Option.bind (queue_deferred_tiocb q) queue_deferred_tiocbs
      else Some q)"

definition complete_tiocb :: "aio_callback \<Rightarrow> libaio_queue \<Rightarrow> nat \<Rightarrow> 64 word \<Rightarrow> libaio_queue option" where
  "complete_tiocb cb q t res = do {
     n \<leftarrow> iocb_nbytes (opioctx_of q) (queue_iocb q t);
     let r = sint (ucast res :: 32 word);
     let err = (if res = n then 0 else if r < 0 then r else - EIO);
     cb t err (q\<lparr>completed := completed q @ [(t, err)]\<rparr>)
   }"

partial_function (option) cancel_from :: "aio_callback \<Rightarrow> int \<Rightarrow> nat option \<Rightarrow> libaio_queue \<Rightarrow> libaio_queue option" where
  [code]: "cancel_from cb err t q =
     (case t of None \<Rightarrow> Some q
      | Some t \<Rightarrow> Option.bind (complete_tiocb cb q t (word_of_int err)) (\<lambda>q. cancel_from cb err (tio_next q t) q))"

definition cancel_tiocbs :: "aio_callback \<Rightarrow> libaio_queue \<Rightarrow> int \<Rightarrow> (int \<times> libaio_queue) option" where
  "cancel_tiocbs cb q err =
     (if q_iocbs q = [] then Some (0, q)
      else do {
        t \<leftarrow> tiocb_at q (hd (q_iocbs q));
        let n = int (length (q_iocbs q));
        q \<leftarrow> cancel_from cb err (Some t) (q\<lparr>q_iocbs := []\<rparr>);
        Some (n, q)
      })"

definition fail_tiocbs :: "aio_callback \<Rightarrow> libaio_queue \<Rightarrow> nat list \<Rightarrow> nat \<Rightarrow> int \<Rightarrow> (int \<times> libaio_queue) option" where
  "fail_tiocbs cb q merged succeeded err = do {
     (xs, ctx) \<leftarrow> io_expand_iocbs (opioctx_of q) merged succeeded;
     cancel_tiocbs cb (q\<lparr>q_iocbs := xs, opioctx_of := ctx\<rparr>) err
   }"

text \<open>\<open>sub\<close> is what \<^verbatim>\<open>io_submit\<close> returns: the number of requests it took, or an error.\<close>

definition libaio_backend_lio_submit :: "aio_callback \<Rightarrow> libaio_queue \<Rightarrow> int \<Rightarrow> (int \<times> libaio_queue) option" where
  "libaio_backend_lio_submit cb q sub =
     (if q_iocbs q = [] then Some (0, q)
      else do {
        (merged, ctx) \<leftarrow> io_merge (opioctx_of q) (q_iocbs q);
        let submitted = (if sub < 0 then 0 else sub);
        let err = (if sub < 0 then sub else if sub < int (length merged) then - EIO else 0);
        let q = q\<lparr>opioctx_of := ctx, iocbs_pending := iocbs_pending q + submitted,
                  tiocbs_pending := tiocbs_pending q + int (length (q_iocbs q)), q_iocbs := []\<rparr>;
        if err \<noteq> 0
        then do {
          (n, q) \<leftarrow> fail_tiocbs cb q merged (nat submitted) err;
          Some (submitted, q\<lparr>tiocbs_pending := tiocbs_pending q - n\<rparr>)
        }
        else Some (submitted, q)
      })"

fun complete_events :: "aio_callback \<Rightarrow> io_event list \<Rightarrow> libaio_queue \<Rightarrow> libaio_queue option" where
  "complete_events cb [] q = Some q"
| "complete_events cb (ep # eps) q = do {
     t \<leftarrow> tiocb_at q (ev_obj ep);
     q \<leftarrow> complete_tiocb cb q t (ev_res ep);
     complete_events cb eps q
   }"

definition libaio_backend_lio_event :: "aio_callback \<Rightarrow> libaio_queue \<Rightarrow> io_event list \<Rightarrow> libaio_queue option" where
  "libaio_backend_lio_event cb q events = do {
     (split, ctx) \<leftarrow> io_split (opioctx_of q) events;
     let q = q\<lparr>opioctx_of := ctx, iocbs_pending := iocbs_pending q - int (length events),
               tiocbs_pending := tiocbs_pending q - int (length split)\<rparr>;
     q \<leftarrow> complete_events cb split q;
     queue_deferred_tiocbs q
   }"

definition libaio_backend_queue_tiocb :: "libaio_queue \<Rightarrow> nat \<Rightarrow> libaio_queue option" where
  "libaio_backend_queue_tiocb q t =
     (let q = q\<lparr>accepted := accepted q @ [t]\<rparr>
      in if \<not> libaio_backend_queue_full q then queue_tiocb q t else Some (defer_tiocb q t))"

definition libaio_backend_cancel_tiocbs :: "aio_callback \<Rightarrow> libaio_queue \<Rightarrow> (int \<times> libaio_queue) option" where
  "libaio_backend_cancel_tiocbs cb q = cancel_tiocbs cb q (- EIO)"

text \<open>The loops repeat the call while callbacks have queued more requests; \<open>sub k\<close> is what \<^verbatim>\<open>io_submit\<close> returns in
  round \<open>k\<close>.\<close>

partial_function (option) libaio_backend_submit_all_tiocbs ::
    "aio_callback \<Rightarrow> (nat \<Rightarrow> int) \<Rightarrow> nat \<Rightarrow> int \<Rightarrow> libaio_queue \<Rightarrow> (int \<times> libaio_queue) option" where
  [code]: "libaio_backend_submit_all_tiocbs cb sub k submitted q =
     Option.bind (libaio_backend_lio_submit cb q (sub k)) (\<lambda>(n, q).
       if q_iocbs q \<noteq> [] then libaio_backend_submit_all_tiocbs cb sub (Suc k) (submitted + n) q
       else Some (submitted + n, q))"

partial_function (option) libaio_backend_cancel_all_tiocbs :: "aio_callback \<Rightarrow> int \<Rightarrow> libaio_queue \<Rightarrow> (int \<times> libaio_queue) option" where
  [code]: "libaio_backend_cancel_all_tiocbs cb cancelled q =
     Option.bind (libaio_backend_cancel_tiocbs cb q) (\<lambda>(n, q).
       if q_iocbs q \<noteq> [] then libaio_backend_cancel_all_tiocbs cb (cancelled + n) q
       else Some (cancelled + n, q))"

text \<open>\<open>io_err\<close> is the result of setting up the kernel's context, the other arguments say which allocations succeed;
  \<open>ctx\<close> holds the memory of the requests.\<close>

definition libaio_backend_init_queue ::
    "bool \<Rightarrow> nat \<Rightarrow> int \<Rightarrow> bool \<Rightarrow> bool list \<Rightarrow> opioctx \<Rightarrow> int \<times> libaio_queue option" where
  "libaio_backend_init_queue queue_ok n io_err iocbs_ok oks ctx =
     (let q = \<lparr> q_size = n, opioctx_of = ctx, q_iocbs = [], iocbs_pending = 0, tiocbs_pending = 0, deferred_head = None,
                deferred_tail = None, tiocbs_deferred = 0, deferrals = 0, tio_next = (\<lambda>_. None), accepted = [], completed = [] \<rparr>
      in if \<not> queue_ok then (ENOMEM, None)
         else if n = 0 then (0, Some q)
         else if io_err \<noteq> 0 then (io_err, None)
         else if \<not> iocbs_ok then (- ENOMEM, None)
         else case opio_init oks ctx n of (err, ctx) \<Rightarrow>
           if err \<noteq> 0 then (err, None) else (0, Some (q\<lparr>opioctx_of := ctx\<rparr>)))"

end
