(* ===== verification/Aio_Props.thy ===== *)
theory Aio_Props
  imports Aio_Queue
begin

text \<open>The request queue keeps its bounds and completes every request exactly once as long as submission
  succeeds; when it fails, a request that follows a deferred one on the list is completed although it stays
  on the list of deferred requests.\<close>

subsection \<open>Lists through the field next\<close>

fun linked :: "(nat \<Rightarrow> nat option) \<Rightarrow> nat list \<Rightarrow> nat option \<Rightarrow> bool" where
  "linked nx [] l \<longleftrightarrow> True"
| "linked nx (a # as) l \<longleftrightarrow> nx a = (case as of [] \<Rightarrow> l | b # _ \<Rightarrow> Some b) \<and> linked nx as l"

definition first :: "nat list \<Rightarrow> nat option" where
  "first as = (case as of [] \<Rightarrow> None | a # _ \<Rightarrow> Some a)"

lemma first_simps [simp]: "first [] = None" "first (a # as) = Some a"
  by (simp_all add: first_def)

lemma first_None [simp]: "first as = None \<longleftrightarrow> as = []"
  by (cases as) auto

lemma linked_cong: "(\<And>a. a \<in> set as \<Longrightarrow> nx' a = nx a) \<Longrightarrow> linked nx' as l = linked nx as l"
  by (induction as) auto

lemma linked_upd: "t \<notin> set as \<Longrightarrow> linked (nx(t := v)) as l = linked nx as l"
  by (rule linked_cong) auto

lemma linked_snoc: "linked nx as None \<Longrightarrow> as \<noteq> [] \<Longrightarrow> distinct as \<Longrightarrow> t \<notin> set as \<Longrightarrow>
    linked (nx(last as := Some t, t := None)) (as @ [t]) None"
proof (induction as)
  case (Cons a as)
  show ?case
  proof (cases as)
    case Nil
    then show ?thesis using Cons.prems by auto
  next
    case ne: (Cons b bs)
    define nx' where "nx' = nx(last as := Some t, t := None)"
    have l: "linked nx' (as @ [t]) None" unfolding nx'_def by (rule Cons.IH) (use ne Cons.prems in auto)
    have "a \<noteq> last as" "a \<noteq> t" using ne Cons.prems by auto
    then have "nx' a = Some b" using Cons.prems ne by (simp add: nx'_def)
    then have "linked nx' ((a # as) @ [t]) None" using l ne by simp
    moreover have "last (a # as) = last as" using ne by simp
    ultimately show ?thesis unfolding nx'_def by (simp only:)
  qed
qed simp

subsection \<open>The invariant\<close>

text \<open>A request as drivers prepare them, at its own address and of a size that the result can hold.\<close>

definition driver_req :: "(nat \<Rightarrow> iocb) \<Rightarrow> nat \<Rightarrow> bool" where
  "driver_req H a \<longleftrightarrow> plain_req (H a) \<and> io_data (H a) = Tiocb a \<and> unat (c_nbytes (io_u (H a))) < 2 ^ 31"

definition outstanding :: "group list \<Rightarrow> nat list \<Rightarrow> libaio_queue \<Rightarrow> nat list" where
  "outstanding Fl dl q = q_iocbs q @ dl @ concat (map fst Fl)"

text \<open>\<open>Fl\<close> are the groups that the kernel works on, \<open>dl\<close> is the list of deferred requests, and \<open>R\<close> are requests
  that the kernel has finished and whose callbacks are still to come.  Every accepted request is accounted
  for.\<close>

definition aio_core :: "(nat \<Rightarrow> iocb) \<Rightarrow> group list \<Rightarrow> nat list \<Rightarrow> nat list \<Rightarrow> libaio_queue \<Rightarrow> bool" where
  "aio_core H Fl dl R q \<longleftrightarrow> good (opioctx_of q) H Fl \<and> distinct (outstanding Fl dl q @ R)
     \<and> (\<forall>a\<in>set (outstanding Fl dl q @ R). driver_req H a)
     \<and> tiocbs_pending q = int (length (concat (map fst Fl))) \<and> iocbs_pending q = int (length Fl)
     \<and> tiocbs_pending q + int (length (q_iocbs q)) \<le> int (q_size q)
     \<and> length (free_opios (opioctx_of q)) + length (concat (map snd Fl)) = q_size q
     \<and> linked (tio_next q) dl None \<and> deferred_head q = first dl \<and> (dl \<noteq> [] \<longrightarrow> deferred_tail q = Some (last dl))"

definition aio_inv :: "(nat \<Rightarrow> iocb) \<Rightarrow> group list \<Rightarrow> nat list \<Rightarrow> nat list \<Rightarrow> libaio_queue \<Rightarrow> bool" where
  "aio_inv H Fl dl R q \<longleftrightarrow> aio_core H Fl dl R q
     \<and> mset (accepted q) = mset (map fst (completed q)) + mset (outstanding Fl dl q @ R)"

text \<open>A driver may use a request again when every earlier use of it has been completed.\<close>

definition usable :: "libaio_queue \<Rightarrow> nat \<Rightarrow> bool" where
  "usable q t \<longleftrightarrow> count (mset (accepted q)) t = count (mset (map fst (completed q))) t"

lemma driver_plain: "driver_req H a \<Longrightarrow> plain_req (H a)"
  by (simp add: driver_req_def)

lemma inv_store:
  assumes "aio_core H Fl dl R q" "a \<in> set (q_iocbs q) \<union> set dl \<union> set R"
  shows "queue_iocb q a = H a" "tiocb_at q a = Some a"
proof -
  have "a \<notin> set (concat (map fst Fl))" using assms by (auto simp: aio_core_def outstanding_def)
  then show "queue_iocb q a = H a" using assms(1) by (simp add: aio_core_def good_def)
  then show "tiocb_at q a = Some a" using assms by (auto simp: tiocb_at_def aio_core_def outstanding_def driver_req_def)
qed

lemma rep_ops_length: "rep ctx H g \<Longrightarrow> length (snd g) \<le> length (fst g)"
  by (cases g) (auto simp: rep_def vrep_def dest: chain_length split: if_splits)

lemma groups_ops_length:
  "\<forall>g\<in>set Gs. rep ctx H g \<Longrightarrow> length (concat (map snd Gs)) \<le> length (concat (map fst Gs))"
proof (induction Gs)
  case (Cons g Gs)
  then show ?case using rep_ops_length [of ctx H g] by simp
qed simp

lemma enough_opios:
  assumes "aio_core H Fl dl R q"
  shows "length (q_iocbs q) \<le> length (free_opios (opioctx_of q))"
proof -
  have "length (concat (map snd Fl)) \<le> length (concat (map fst Fl))"
    using assms by (intro groups_ops_length [of Fl "opioctx_of q" H]) (auto simp: aio_core_def good_def)
  then show ?thesis using assms by (simp add: aio_core_def)
qed

subsection \<open>Queueing\<close>

lemma chain_H: "t \<notin> set as \<Longrightarrow> chain os (H(t := h)) as ps = chain os H as ps"
  by (induction as arbitrary: ps) (auto split: list.splits)

lemma rep_H: "t \<notin> set (fst g) \<Longrightarrow> rep ctx H g \<Longrightarrow> rep ctx (H(t := h)) g"
proof -
  assume t: "t \<notin> set (fst g)" and r: "rep ctx H g"
  obtain ios ops where g: "g = (ios, ops)" by (cases g)
  show "rep ctx (H(t := h)) g"
  proof (cases "ops = []")
    case True
    then show ?thesis using r t g by (auto simp: rep_def)
  next
    case False
    have v: "vrep ctx H ios ops" using r False g by (simp add: rep_def)
    have m: "map (\<lambda>a. seg ((H(t := h)) a)) ios = map (\<lambda>a. seg (H a)) ios" using t g by auto
    have hd: "hd ios \<noteq> t" using v t g by (auto simp: vrep_def)
    have l2: "list_all2 (\<lambda>a p. iocbs ctx a = ((H(t := h)) a)\<lparr>io_data := Opio p\<rparr>) (tl ios) (tl ops)"
    proof (rule list.rel_mono_strong)
      show "list_all2 (\<lambda>a p. iocbs ctx a = (H a)\<lparr>io_data := Opio p\<rparr>) (tl ios) (tl ops)" using v by (simp add: vrep_def)
      fix a p assume "a \<in> set (tl ios)" "iocbs ctx a = (H a)\<lparr>io_data := Opio p\<rparr>"
      then show "iocbs ctx a = ((H(t := h)) a)\<lparr>io_data := Opio p\<rparr>" using t g by (cases ios) auto
    qed
    have c: "chain (opios ctx) (H(t := h)) ios ops" using v t g chain_H by (auto simp: vrep_def)
    show ?thesis using v False g l2 m hd c by (simp add: rep_def vrep_def vec_head_def del: fun_upd_apply) simp
  qed
qed

lemma good_prep:
  assumes "good ctx H Gs" "t \<notin> set (concat (map fst Gs))"
  shows "good (ctx\<lparr>iocbs := (iocbs ctx)(t := h)\<rparr>) (H(t := h)) Gs"
proof -
  have "rep (ctx\<lparr>iocbs := (iocbs ctx)(t := h)\<rparr>) (H(t := h)) g" if g: "g \<in> set Gs" for g
  proof (rule rep_cong [of _ _ ctx])
    have t: "t \<notin> set (fst g)" using assms(2) g by auto
    show "rep ctx (H(t := h)) g" using rep_H [OF t] assms(1) g by (simp add: good_def)
    show "iocbs (ctx\<lparr>iocbs := (iocbs ctx)(t := h)\<rparr>) a = iocbs ctx a" if "a \<in> set (fst g)" for a using that t by auto
  qed simp
  moreover have "plain_req ((H(t := h)) a)" if "g \<in> set Gs" "a \<in> set (fst g)" for g a
    using that assms by (auto simp: good_def)
  ultimately show ?thesis using assms by (auto simp: good_def)
qed

lemma usable_fresh: "aio_inv H Fl dl R q \<Longrightarrow> usable q t \<Longrightarrow> t \<notin> set (outstanding Fl dl q @ R)"
  by (auto simp: aio_inv_def usable_def count_eq_zero_iff)

lemma prep_driver:
  assumes "aio_core H Fl dl R q" "t \<notin> set (outstanding Fl dl q @ R)" "nb \<noteq> 0" "unat nb < 2 ^ 31"
  shows "\<exists>H'. aio_core H' Fl dl R (libaio_backend_prep_tiocb q t fd rw buf nb off) \<and> driver_req H' t"
proof -
  let ?h = "\<lparr> aio_lio_opcode = (if rw then IO_CMD_PWRITE else IO_CMD_PREAD), aio_fildes = fd, io_u = UC buf nb off, io_data = Tiocb t \<rparr>"
  have h: "driver_req (H(t := ?h)) t" using assms(3,4) by (simp add: driver_req_def plain_req_def)
  have g: "good ((opioctx_of q)\<lparr>iocbs := (iocbs (opioctx_of q))(t := ?h)\<rparr>) (H(t := ?h)) Fl"
    using assms(1,2) by (intro good_prep) (auto simp: aio_core_def outstanding_def)
  have "\<forall>a\<in>set (outstanding Fl dl q @ R). driver_req (H(t := ?h)) a"
    using assms(1,2) by (auto simp: aio_core_def driver_req_def)
  moreover have "linked ((tio_next q)(t := None)) dl None"
    using assms(1,2) linked_upd [of t dl] by (simp add: aio_core_def outstanding_def)
  ultimately show ?thesis
    using assms(1) g h by (intro exI [of _ "H(t := ?h)"]) (simp add: aio_core_def libaio_backend_prep_tiocb_def outstanding_def)
qed

lemma queue_step:
  assumes inv: "aio_core H Fl dl R q" and t: "t \<notin> set (outstanding Fl dl q @ R)" "driver_req H t" "tio_next q t = None"
  shows "\<exists>q' dl'. (if \<not> libaio_backend_queue_full q then queue_tiocb q t else Some (defer_tiocb q t)) = Some q' \<and> aio_core H Fl dl' R q'
    \<and> mset (outstanding Fl dl' q') = add_mset t (mset (outstanding Fl dl q)) \<and> completed q' = completed q \<and> accepted q' = accepted q"
proof (cases "libaio_backend_queue_full q")
  case False
  have c: "tiocbs_pending q + int (length (q_iocbs q @ [t])) \<le> int (q_size q)"
    using False by (simp add: libaio_backend_queue_full_def)
  show ?thesis
  proof (cases "q_iocbs q = []")
    case True
    then show ?thesis
      using inv t False c by (intro exI [of _ "q\<lparr>q_iocbs := q_iocbs q @ [t]\<rparr>"] exI [of _ dl])
        (auto simp: queue_tiocb_def aio_core_def outstanding_def)
  next
    case ne: False
    let ?p = "last (q_iocbs q)"
    have p: "tiocb_at q ?p = Some ?p" using inv_store(2) [OF inv] ne by simp
    have "linked ((tio_next q)(?p := Some t)) dl None"
    proof -
      have "set (q_iocbs q) \<inter> set dl = {}" using inv by (auto simp: aio_core_def outstanding_def)
      then have "?p \<notin> set dl" using last_in_set [OF ne] by blast
      then show ?thesis using inv linked_upd [of ?p dl] by (simp add: aio_core_def)
    qed
    then show ?thesis
      using inv t False c ne p by (intro exI [of _ "q\<lparr>tio_next := (tio_next q)(?p := Some t), q_iocbs := q_iocbs q @ [t]\<rparr>"] exI [of _ dl])
        (auto simp: queue_tiocb_def aio_core_def outstanding_def)
  qed
next
  case True
  have f: "q_iocbs (defer_tiocb q t) = q_iocbs q" "opioctx_of (defer_tiocb q t) = opioctx_of q"
    "tiocbs_pending (defer_tiocb q t) = tiocbs_pending q" "iocbs_pending (defer_tiocb q t) = iocbs_pending q"
    "q_size (defer_tiocb q t) = q_size q" "completed (defer_tiocb q t) = completed q" "accepted (defer_tiocb q t) = accepted q"
    by (auto simp: defer_tiocb_def Let_def split: option.splits)
  have d: "linked (tio_next (defer_tiocb q t)) (dl @ [t]) None \<and> deferred_head (defer_tiocb q t) = first (dl @ [t])
      \<and> deferred_tail (defer_tiocb q t) = Some t"
  proof (cases dl)
    case Nil
    then show ?thesis using inv t(3) by (simp add: defer_tiocb_def aio_core_def)
  next
    case (Cons a as)
    then have hd: "deferred_head q = Some a" "deferred_tail q = Some (last dl)" using inv by (auto simp: aio_core_def)
    have "linked ((tio_next q)(last dl := Some t, t := None)) (dl @ [t]) None"
      by (rule linked_snoc) (use inv t Cons in \<open>auto simp: aio_core_def outstanding_def\<close>)
    moreover have "(tio_next q)(last dl := Some t, t := None) = (tio_next q)(last dl := Some t)"
    proof -
      have "t \<noteq> last dl" using t(1) Cons last_in_set [of dl] by (auto simp: outstanding_def)
      then show ?thesis using t(3) by (auto simp: fun_eq_iff)
    qed
    moreover have "tio_next (defer_tiocb q t) = (tio_next q)(last dl := Some t)" "deferred_tail (defer_tiocb q t) = Some t"
      "deferred_head (defer_tiocb q t) = first (dl @ [t])"
      using hd Cons by (simp_all add: defer_tiocb_def Let_def del: last.simps)
    ultimately show ?thesis by (simp only: simp_thms)
  qed
  have "aio_core H Fl (dl @ [t]) R (defer_tiocb q t)"
    using inv t d by (auto simp: aio_core_def outstanding_def f)
  then show ?thesis using True f by (intro exI [of _ "defer_tiocb q t"] exI [of _ "dl @ [t]"]) (simp add: outstanding_def)
qed

subsection \<open>Submission\<close>

lemma merge_step:
  assumes inv: "aio_core H Fl dl R q" and ne: "q_iocbs q \<noteq> []"
  obtains ctx Gn where "io_merge (opioctx_of q) (q_iocbs q) = Some (map (\<lambda>g. hd (fst g)) Gn, ctx)"
    "concat (map fst Gn) = q_iocbs q" "good ctx H (Gn @ Fl)" "Gn \<noteq> []"
    "length (concat (map snd Gn)) + length (free_opios ctx) = length (free_opios (opioctx_of q))"
proof -
  obtain h t where q: "q_iocbs q = h # t" using ne by (cases "q_iocbs q") auto
  have g: "good (opioctx_of q) H (([h], []) # Fl)"
    by (rule good_single) (use inv q in \<open>auto simp: aio_core_def outstanding_def driver_req_def\<close>)
  have "\<exists>ctx' Gn. merge_loop (opioctx_of q) [] (hd [h]) t = Some ([] @ map (\<lambda>g. hd (fst g)) Gn, ctx') \<and> map fst Gn = groups H [h] t
    \<and> good ctx' H (Gn @ Fl) \<and> length (concat (map snd Gn)) + length (free_opios ctx') = length ([] :: nat list) + length (free_opios (opioctx_of q))"
    by (rule merge_loop_good [OF g]) (use inv q enough_opios [OF inv] in \<open>auto simp: aio_core_def outstanding_def driver_req_def\<close>)
  then obtain ctx Gn where r: "merge_loop (opioctx_of q) [] h t = Some (map (\<lambda>g. hd (fst g)) Gn, ctx)" "map fst Gn = groups H [h] t"
    "good ctx H (Gn @ Fl)" "length (concat (map snd Gn)) + length (free_opios ctx) = length (free_opios (opioctx_of q))" by auto
  have "concat (map fst Gn) = q_iocbs q" "Gn \<noteq> []" using r(2) concat_groups [of H "[h]" t] q by auto
  then show thesis using that [of Gn ctx] r by (simp add: io_merge_def q)
qed

lemma submit_step:
  assumes inv: "aio_core H Fl dl R q" and ne: "q_iocbs q \<noteq> []"
    and m: "io_merge (opioctx_of q) (q_iocbs q) = Some (m, ctx)" and sub: "sub = int (length m)"
  shows "\<exists>q' Gn. libaio_backend_lio_submit cb q sub = Some (sub, q') \<and> aio_core H (Gn @ Fl) dl R q' \<and> q_iocbs q' = []
    \<and> m = map (\<lambda>g. hd (fst g)) Gn \<and> mset (outstanding (Gn @ Fl) dl q') = mset (outstanding Fl dl q) \<and> completed q' = completed q \<and> accepted q' = accepted q"
proof -
  obtain ctx Gn where r: "io_merge (opioctx_of q) (q_iocbs q) = Some (map (\<lambda>g. hd (fst g)) Gn, ctx)"
    "concat (map fst Gn) = q_iocbs q" "good ctx H (Gn @ Fl)" "Gn \<noteq> []"
    "length (concat (map snd Gn)) + length (free_opios ctx) = length (free_opios (opioctx_of q))"
    by (rule merge_step [OF inv ne])
  let ?q = "q\<lparr>opioctx_of := ctx, iocbs_pending := iocbs_pending q + sub, tiocbs_pending := tiocbs_pending q + int (length (q_iocbs q)), q_iocbs := []\<rparr>"
  have "libaio_backend_lio_submit cb q sub = Some (sub, ?q)"
    using r(1) m sub ne by (simp add: libaio_backend_lio_submit_def Let_def)
  moreover have "aio_core H (Gn @ Fl) dl R ?q"
    using inv r m sub unfolding aio_core_def outstanding_def by auto
  ultimately show ?thesis
    using r m by (intro exI [of _ ?q] exI [of _ Gn]) (simp add: outstanding_def)
qed

subsection \<open>Callbacks\<close>

text \<open>What a callback may do: prepare and queue requests that are free to use.\<close>

inductive aio_calls :: "libaio_queue \<Rightarrow> libaio_queue \<Rightarrow> bool" where
  none: "aio_calls q q"
| queue: "usable q t \<Longrightarrow> nb \<noteq> 0 \<Longrightarrow> unat nb < 2 ^ 31
    \<Longrightarrow> libaio_backend_queue_tiocb (libaio_backend_prep_tiocb q t fd rw buf nb off) t = Some q' \<Longrightarrow> aio_calls q' q'' \<Longrightarrow> aio_calls q q''"

definition driver_cb :: "aio_callback \<Rightarrow> bool" where
  "driver_cb cb \<longleftrightarrow> (\<forall>t e q. \<exists>q'. cb t e q = Some q' \<and> aio_calls q q')"

lemma queue_inv:
  assumes inv: "aio_inv H Fl dl R q" and u: "usable q t" and nb: "nb \<noteq> 0" "unat nb < 2 ^ 31"
  shows "\<exists>q' H' dl'. libaio_backend_queue_tiocb (libaio_backend_prep_tiocb q t fd rw buf nb off) t = Some q' \<and> aio_inv H' Fl dl' R q'
    \<and> (\<forall>a\<in>set R. H' a = H a) \<and> completed q' = completed q"
proof -
  let ?p = "libaio_backend_prep_tiocb q t fd rw buf nb off" and ?a = "\<lambda>q. q\<lparr>accepted := accepted q @ [t]\<rparr>"
  have t: "t \<notin> set (outstanding Fl dl q @ R)" by (rule usable_fresh [OF inv u])
  obtain H' where H': "aio_core H' Fl dl R ?p" "driver_req H' t" using prep_driver [OF _ t nb] inv unfolding aio_inv_def by blast
  have sameH: "\<forall>a\<in>set R. H' a = H a"
  proof
    fix a assume a: "a \<in> set R"
    then have "a \<noteq> t" using t by auto
    then have "queue_iocb ?p a = queue_iocb q a" by (simp add: libaio_backend_prep_tiocb_def)
    then show "H' a = H a" using inv_store(1) [OF H'(1), of a] inv_store(1) [of H Fl dl R q a] inv a by (simp add: aio_inv_def)
  qed
  have c: "aio_core H' Fl dl R (?a ?p)" using H'(1) by (simp add: aio_core_def outstanding_def)
  have t': "t \<notin> set (outstanding Fl dl (?a ?p) @ R)" using t by (simp add: outstanding_def libaio_backend_prep_tiocb_def)
  have n: "tio_next (?a ?p) t = None" by (simp add: libaio_backend_prep_tiocb_def)
  obtain q' dl' where q': "(if \<not> libaio_backend_queue_full (?a ?p) then queue_tiocb (?a ?p) t else Some (defer_tiocb (?a ?p) t)) = Some q'"
    "aio_core H' Fl dl' R q'" "mset (outstanding Fl dl' q') = add_mset t (mset (outstanding Fl dl (?a ?p)))"
    "completed q' = completed (?a ?p)" "accepted q' = accepted (?a ?p)"
    using queue_step [OF c t' H'(2) n] by blast
  have "mset (accepted q') = mset (map fst (completed q')) + mset (outstanding Fl dl' q' @ R)"
    using q'(3-5) inv by (simp add: aio_inv_def libaio_backend_prep_tiocb_def outstanding_def)
  then have "aio_inv H' Fl dl' R q'" using q'(2) by (simp add: aio_inv_def)
  moreover have "libaio_backend_queue_tiocb ?p t = Some q'" using q'(1) by (simp add: libaio_backend_queue_tiocb_def Let_def)
  moreover have "completed q' = completed q" using q'(4) by (simp add: libaio_backend_prep_tiocb_def)
  ultimately show ?thesis using sameH by blast
qed

lemma calls_inv:
  "aio_calls q q' \<Longrightarrow> aio_inv H Fl dl R q \<Longrightarrow> \<exists>H' dl'. aio_inv H' Fl dl' R q' \<and> (\<forall>a\<in>set R. H' a = H a) \<and> completed q' = completed q"
proof (induction arbitrary: H dl rule: aio_calls.induct)
  case (queue q t nb fd rw buf off q' q'')
  obtain H1 dl1 where 1: "aio_inv H1 Fl dl1 R q'" "\<forall>a\<in>set R. H1 a = H a" "completed q' = completed q"
    using queue_inv [OF queue.prems queue.hyps(1-3), of fd rw buf off] queue.hyps(4) by auto
  then show ?case using queue.IH [OF 1(1)] by auto
qed auto

lemma complete_inv:
  assumes inv: "aio_inv H Fl dl (t # R) q" and cb: "driver_cb cb"
  shows "\<exists>q' H' dl'. complete_tiocb cb q t res = Some q' \<and> aio_inv H' Fl dl' R q' \<and> (\<forall>a\<in>set R. H' a = H a)
    \<and> completed q' = completed q @ [(t, err_of (c_nbytes (io_u (H t))) res)]"
proof -
  let ?e = "err_of (c_nbytes (io_u (H t))) res"
  have h: "queue_iocb q t = H t" "plain_req (H t)"
    using inv_store(1) [of H Fl dl "t # R" q t] inv by (auto simp: aio_inv_def aio_core_def driver_req_def)
  let ?q = "q\<lparr>completed := completed q @ [(t, ?e)]\<rparr>"
  obtain q' where q': "cb t ?e ?q = Some q'" "aio_calls ?q q'" using cb unfolding driver_cb_def by blast
  have i: "aio_inv H Fl dl R ?q" using inv by (auto simp: aio_inv_def aio_core_def outstanding_def)
  obtain H' dl' where "aio_inv H' Fl dl' R q'" "\<forall>a\<in>set R. H' a = H a" "completed q' = completed ?q"
    using calls_inv [OF q'(2) i] by blast
  moreover have "complete_tiocb cb q t res = Some q'"
    using q'(1) plain_simps(2) [OF h(2)] by (simp add: complete_tiocb_def h(1) err_of_def Let_def)
  ultimately show ?thesis by auto
qed

lemma complete_events_inv:
  assumes "driver_cb cb"
  shows "aio_inv H Fl dl (map ev_obj evs) q \<Longrightarrow> \<exists>q' H' dl'. complete_events cb evs q = Some q' \<and> aio_inv H' Fl dl' [] q'
    \<and> completed q' = completed q @ map (\<lambda>e. (ev_obj e, err_of (c_nbytes (io_u (H (ev_obj e)))) (ev_res e))) evs"
proof (induction evs arbitrary: H dl q)
  case Nil
  then show ?case by auto
next
  case (Cons e evs)
  let ?t = "ev_obj e"
  have inv: "aio_inv H Fl dl (?t # map ev_obj evs) q" using Cons.prems by simp
  have at: "tiocb_at q ?t = Some ?t" using inv_store(2) [of H Fl dl "?t # map ev_obj evs" q ?t] inv by (auto simp: aio_inv_def)
  obtain q1 H1 dl1 where 1: "complete_tiocb cb q ?t (ev_res e) = Some q1" "aio_inv H1 Fl dl1 (map ev_obj evs) q1"
    "\<forall>a\<in>set (map ev_obj evs). H1 a = H a" "completed q1 = completed q @ [(?t, err_of (c_nbytes (io_u (H ?t))) (ev_res e))]"
    using complete_inv [OF inv assms, of "ev_res e"] by blast
  obtain q' H' dl' where "complete_events cb evs q1 = Some q'" "aio_inv H' Fl dl' [] q'"
    "completed q' = completed q1 @ map (\<lambda>e. (ev_obj e, err_of (c_nbytes (io_u (H1 (ev_obj e)))) (ev_res e))) evs"
    using Cons.IH [OF 1(2)] by blast
  moreover have "map (\<lambda>e. (ev_obj e, err_of (c_nbytes (io_u (H1 (ev_obj e)))) (ev_res e))) evs
      = map (\<lambda>e. (ev_obj e, err_of (c_nbytes (io_u (H (ev_obj e)))) (ev_res e))) evs" using 1(3) by auto
  ultimately show ?case using at 1 by (intro exI [of _ q'] exI [of _ H'] exI [of _ dl']) simp
qed

subsection \<open>Deferred requests\<close>

lemma deferred_step:
  assumes inv: "aio_core H Fl (t # dl) R q" and full: "\<not> libaio_backend_queue_full q"
  shows "\<exists>q'. queue_deferred_tiocb q = Some q' \<and> aio_core H Fl dl R q' \<and> q_iocbs q' = q_iocbs q @ [t]
    \<and> completed q' = completed q \<and> accepted q' = accepted q"
proof -
  have hd: "deferred_head q = Some t" "tio_next q t = first dl"
    using inv by (auto simp: aio_core_def first_def split: list.splits)
  let ?d = "(if dl = [] then q\<lparr>deferred_head := None, deferred_tail := None\<rparr> else q\<lparr>deferred_head := first dl\<rparr>)"
  have c: "tiocbs_pending q + int (length (q_iocbs q @ [t])) \<le> int (q_size q)"
    using full by (simp add: libaio_backend_queue_full_def)
  have at: "tiocb_at (q\<lparr>deferred_head := x, deferred_tail := y\<rparr>) a = tiocb_at q a" "tiocb_at (q\<lparr>deferred_head := x\<rparr>) a = tiocb_at q a"
    for x y a by (simp_all add: tiocb_at_def)
  have tl: "dl \<noteq> [] \<longrightarrow> deferred_tail q = Some (last dl)" using inv by (auto simp: aio_core_def)
  have lk: "linked (tio_next q) dl None" using inv by (simp add: aio_core_def)
  show ?thesis
  proof (cases "q_iocbs q = []")
    case True
    let ?q = "?d\<lparr>q_iocbs := [t], tiocbs_deferred := tiocbs_deferred q - 1\<rparr>"
    have run: "queue_deferred_tiocb q = Some ?q"
      using hd True by (simp add: queue_deferred_tiocb_def queue_tiocb_def)
    have "aio_core H Fl dl R ?q" using inv c tl lk True by (auto simp: aio_core_def outstanding_def)
    then show ?thesis using run True by (intro exI [of _ ?q]) simp
  next
    case False
    let ?p = "last (q_iocbs q)"
    let ?q = "?d\<lparr>tio_next := (tio_next q)(?p := Some t), q_iocbs := q_iocbs q @ [t], tiocbs_deferred := tiocbs_deferred q - 1\<rparr>"
    have p: "tiocb_at q ?p = Some ?p" using inv_store(2) [OF inv] False by simp
    have run: "queue_deferred_tiocb q = Some ?q"
      using hd False p by (simp add: queue_deferred_tiocb_def queue_tiocb_def Let_def at)
    have "set (q_iocbs q) \<inter> set dl = {}" using inv by (auto simp: aio_core_def outstanding_def)
    then have "linked ((tio_next q)(?p := Some t)) dl None" using lk linked_upd [of ?p dl] last_in_set [OF False] by blast
    then have "aio_core H Fl dl R ?q" using inv c tl by (auto simp: aio_core_def outstanding_def)
    then show ?thesis using run by (intro exI [of _ ?q]) simp
  qed
qed

lemma deferred_loop:
  "aio_core H Fl dl R q \<Longrightarrow> \<exists>q' dl'. queue_deferred_tiocbs q = Some q' \<and> aio_core H Fl dl' R q'
    \<and> mset (outstanding Fl dl' q') = mset (outstanding Fl dl q) \<and> completed q' = completed q \<and> accepted q' = accepted q
    \<and> (dl' = [] \<or> libaio_backend_queue_full q')"
proof (induction dl arbitrary: q)
  case Nil
  then have "deferred_head q = None" by (simp add: aio_core_def)
  then show ?case using Nil by (subst queue_deferred_tiocbs.simps) auto
next
  case (Cons t dl)
  have hd: "deferred_head q = Some t" using Cons.prems by (simp add: aio_core_def)
  show ?case
  proof (cases "libaio_backend_queue_full q")
    case True
    then show ?thesis using Cons.prems by (subst queue_deferred_tiocbs.simps) auto
  next
    case False
    obtain q1 where 1: "queue_deferred_tiocb q = Some q1" "aio_core H Fl dl R q1" "q_iocbs q1 = q_iocbs q @ [t]"
      "completed q1 = completed q" "accepted q1 = accepted q" using deferred_step [OF Cons.prems False] by blast
    obtain q' dl' where "queue_deferred_tiocbs q1 = Some q'" "aio_core H Fl dl' R q'"
      "mset (outstanding Fl dl' q') = mset (outstanding Fl dl q1)" "completed q' = completed q1" "accepted q' = accepted q1"
      "dl' = [] \<or> libaio_backend_queue_full q'" using Cons.IH [OF 1(2)] by blast
    then show ?thesis
      using 1 hd False by (subst queue_deferred_tiocbs.simps) (auto simp: outstanding_def)
  qed
qed

subsection \<open>Completion\<close>

lemma err_of_small:
  assumes "unat n < 2 ^ 31" "- (2 ^ 31) \<le> e" "e < 0"
  shows "err_of n (word_of_int e) = e"
proof -
  have "(e + 2 ^ 64) mod 2 ^ 64 = e + 2 ^ 64" using assms(2,3) by (intro mod_pos_pos_trivial) auto
  then have u: "uint (word_of_int e :: 64 word) = e + 2 ^ 64" by (simp add: uint_word_of_int)
  have "uint n = int (unat n)" by simp
  then have "uint n < int (2 ^ 31)" using assms(1) by (simp only: of_nat_less_iff)
  then have ne: "word_of_int e \<noteq> n" using u assms(2) by auto
  have "(ucast (word_of_int e :: 64 word) :: 32 word) = word_of_int e"
    by (simp add: ucast_eq uint_word_of_int word_of_int_eq_iff take_bit_eq_mod mod_mod_cancel)
  then have "sint (ucast (word_of_int e :: 64 word) :: 32 word) = e"
    using assms(2,3) by (simp add: sint_sbintrunc' signed_take_bit_int_eq_self)
  then show ?thesis using ne assms(3) by (simp add: err_of_def)
qed

lemma err_of_range: "err_of n r = 0 \<or> (- (2 ^ 31) \<le> err_of n r \<and> err_of n r < 0)"
  using sint_ge [of "ucast r :: 32 word"] by (simp add: err_of_def)

lemma completions_errs:
  assumes "rep ctx H g" "\<forall>a\<in>set (fst g). driver_req H a"
  shows "map (\<lambda>e. (ev_obj e, err_of (c_nbytes (io_u (H (ev_obj e)))) (ev_res e))) (completions H g r)
    = map (\<lambda>a. (a, err_of (group_bytes H (fst g)) r)) (fst g)"
proof (cases "snd g = []")
  case True
  then obtain a where "fst g = [a]" using assms(1) by (cases g) (auto simp: rep_def)
  then show ?thesis using True by (simp add: completions_def group_bytes_def)
next
  case False
  let ?e = "err_of (group_bytes H (fst g)) r"
  have "err_of (c_nbytes (io_u (H a))) (if ?e \<noteq> 0 then word_of_int ?e else c_nbytes (io_u (H a))) = ?e" if "a \<in> set (fst g)" for a
  proof (cases "?e = 0")
    case True
    then show ?thesis by (simp add: err_of_def)
  next
    case False
    then show ?thesis
      using err_of_small [of "c_nbytes (io_u (H a))" ?e] err_of_range [of "group_bytes H (fst g)" r] assms(2) that
      by (simp add: driver_req_def)
  qed
  then show ?thesis using False by (simp add: completions_def)
qed

lemma mset_concat_fst: "mset Fl = mset Fl' \<Longrightarrow> mset (concat (map f Fl)) = mset (concat (map f Fl'))"
proof -
  have "mset (concat (map f xs)) = (\<Sum>g\<in>#mset xs. mset (f g))" for xs by (induction xs) auto
  then show "mset Fl = mset Fl' \<Longrightarrow> mset (concat (map f Fl)) = mset (concat (map f Fl'))" by simp
qed

text \<open>The calls of callbacks that the completion of groups leads to.\<close>

definition results :: "(nat \<Rightarrow> iocb) \<Rightarrow> (group \<times> 64 word) list \<Rightarrow> (nat \<times> int) list" where
  "results H grs = concat (map (\<lambda>(g, r). map (\<lambda>a. (a, err_of (group_bytes H (fst g)) r)) (fst g)) grs)"

lemma event_step:
  assumes inv: "aio_inv H Fl dl [] q" and cb: "driver_cb cb" and d: "distinct (map fst grs)" "set (map fst grs) \<subseteq> set Fl"
  shows "\<exists>q' H' Rs dl'. libaio_backend_lio_event cb q (map (\<lambda>(g, r). \<lparr> ev_obj = hd (fst g), ev_res = r \<rparr>) grs) = Some q'
    \<and> aio_inv H' Rs dl' [] q' \<and> mset Fl = mset (map fst grs @ Rs) \<and> completed q' = completed q @ results H grs"
proof -
  let ?evs = "map (\<lambda>(g, r). \<lparr> ev_obj = hd (fst g), ev_res = r \<rparr>) grs"
  obtain Rs where Rs: "mset Fl = mset (map fst grs @ Rs)" using pick_rest [OF d] by blast
  have core: "aio_core H Fl dl [] q" using inv by (simp add: aio_inv_def)
  have g: "good (opioctx_of q) H (map fst grs @ Rs)"
    using good_perm [of _ _ "[]" Fl "map fst grs @ Rs"] core Rs by (simp add: aio_core_def)
  let ?C = "concat (map (\<lambda>(g, r). completions H g r) grs)"
  obtain ctx where c: "io_split (opioctx_of q) ?evs = Some (?C, ctx)" "good ctx H Rs"
    "length (free_opios ctx) = length (free_opios (opioctx_of q)) + length (concat (map (snd \<circ> fst) grs))"
    using io_split_good [OF g] by blast
  have each: "rep (opioctx_of q) H x \<and> (\<forall>a\<in>set (fst x). driver_req H a)" if "x \<in> set (map fst grs)" for x
  proof -
    have "x \<in> set Fl" using that d(2) by blast
    then show ?thesis using core by (auto simp: aio_core_def good_def outstanding_def)
  qed
  have err: "map (\<lambda>e. (ev_obj e, err_of (c_nbytes (io_u (H (ev_obj e)))) (ev_res e)))
      (concat (map (\<lambda>(g, r). completions H g r) xs)) = results H xs" if "set xs \<subseteq> set grs" for xs
    using that
  proof (induction xs)
    case (Cons x xs)
    obtain g r where x: "x = (g, r)" by (cases x)
    have "g \<in> set (map fst grs)" using Cons.prems x by force
    then have "map (\<lambda>e. (ev_obj e, err_of (c_nbytes (io_u (H (ev_obj e)))) (ev_res e))) (completions H g r)
        = map (\<lambda>a. (a, err_of (group_bytes H (fst g)) r)) (fst g)" using completions_errs each by blast
    then show ?case using Cons x by (simp add: results_def)
  qed (simp add: results_def)
  have obj: "map ev_obj ?C = concat (map fst (map fst grs))"
  proof -
    have "map fst (results H grs) = concat (map fst (map fst grs))"
      unfolding results_def by (induction grs) (auto simp: comp_def)
    moreover have "map ev_obj ?C = map fst (results H grs)" using err [of grs, symmetric] by (simp add: comp_def)
    ultimately show ?thesis by simp
  qed
  have m: "mset (concat (map fst Fl)) = mset (concat (map fst Rs)) + mset (map ev_obj ?C)"
    using mset_concat_fst [OF Rs, of fst] by (simp add: obj)
  have l: "length (concat (map fst Fl)) = length (concat (map fst Rs)) + length ?C"
    using arg_cong [OF m, of size] by simp
  have l2: "length (concat (map snd Fl)) = length (concat (map snd Rs)) + length (concat (map (snd \<circ> fst) grs))"
    using arg_cong [OF mset_concat_fst [OF Rs, of snd], of size] by simp
  have l3: "length Fl = length Rs + length grs" using arg_cong [OF Rs, of size] by simp
  let ?q = "q\<lparr>opioctx_of := ctx, iocbs_pending := iocbs_pending q - int (length ?evs), tiocbs_pending := tiocbs_pending q - int (length ?C)\<rparr>"
  have mo: "mset (outstanding Rs dl ?q @ map ev_obj ?C) = mset (outstanding Fl dl q)" using m by (simp add: outstanding_def)
  have "distinct (outstanding Rs dl ?q @ map ev_obj ?C)"
    using mset_eq_imp_distinct_iff [OF mo] core by (simp add: aio_core_def)
  moreover have "\<forall>a\<in>set (outstanding Rs dl ?q @ map ev_obj ?C). driver_req H a"
    using mset_eq_setD [OF mo] core by (simp add: aio_core_def)
  ultimately have "aio_core H Rs dl (map ev_obj ?C) ?q"
    using core c(2,3) l l2 l3 by (auto simp: aio_core_def)
  then have i: "aio_inv H Rs dl (map ev_obj ?C) ?q" using inv mo by (simp add: aio_inv_def)
  obtain q1 H1 dl1 where 1: "complete_events cb ?C ?q = Some q1" "aio_inv H1 Rs dl1 [] q1" "completed q1 = completed q @ results H grs"
    using complete_events_inv [OF cb i] err [of grs] by auto
  obtain q' dl' where 2: "queue_deferred_tiocbs q1 = Some q'" "aio_core H1 Rs dl' [] q'"
    "mset (outstanding Rs dl' q') = mset (outstanding Rs dl1 q1)" "completed q' = completed q1" "accepted q' = accepted q1"
    using deferred_loop [of H1 Rs dl1 "[]" q1] 1(2) unfolding aio_inv_def by blast
  have "aio_inv H1 Rs dl' [] q'" using 1(2) 2 by (simp add: aio_inv_def)
  moreover have "libaio_backend_lio_event cb q ?evs = Some q'"
    using c(1) 1(1) 2(1) by (simp add: libaio_backend_lio_event_def)
  ultimately show ?thesis using Rs 1(3) 2(4) by auto
qed

subsection \<open>Runs\<close>

text \<open>A driver queues requests and submits the queue; the kernel takes all of it and later reports some of
  the requests it works on, \<open>fl\<close>, in any order.\<close>

inductive aio_run :: "aio_callback \<Rightarrow> nat list \<Rightarrow> libaio_queue \<Rightarrow> bool" for cb where
  start: "libaio_backend_init_queue True n 0 True [True, True, True, True] ctx = (0, Some q) \<Longrightarrow> 0 < n \<Longrightarrow> aio_run cb [] q"
| queue: "aio_run cb fl q \<Longrightarrow> usable q t \<Longrightarrow> nb \<noteq> 0 \<Longrightarrow> unat nb < 2 ^ 31
    \<Longrightarrow> libaio_backend_queue_tiocb (libaio_backend_prep_tiocb q t fd rw buf nb off) t = Some q' \<Longrightarrow> aio_run cb fl q'"
| submit: "aio_run cb fl q \<Longrightarrow> q_iocbs q \<noteq> [] \<Longrightarrow> io_merge (opioctx_of q) (q_iocbs q) = Some (m, ctx)
    \<Longrightarrow> libaio_backend_lio_submit cb q (int (length m)) = Some (r, q') \<Longrightarrow> aio_run cb (m @ fl) q'"
| event: "aio_run cb fl q \<Longrightarrow> distinct (map ev_obj evs) \<Longrightarrow> set (map ev_obj evs) \<subseteq> set fl
    \<Longrightarrow> libaio_backend_lio_event cb q evs = Some q' \<Longrightarrow> aio_run cb (filter (\<lambda>a. a \<notin> set (map ev_obj evs)) fl) q'"

abbreviation heads :: "group list \<Rightarrow> nat list" where
  "heads Fl \<equiv> map (\<lambda>g. hd (fst g)) Fl"

lemma good_heads:
  assumes "good ctx H Fl"
  shows "distinct (heads Fl)" "distinct Fl"
proof -
  have "hd (fst g) \<in> set (fst g)" if "g \<in> set Fl" for g
    using assms that by (cases g) (auto simp: good_def rep_def vrep_def split: if_splits)
  then have "distinct (heads Fl) \<and> distinct Fl" if "distinct (concat (map fst Fl))"
    using that
  proof (induction Fl)
    case (Cons g Fl)
    then have hd: "hd (fst g) \<in> set (fst g)" by simp
    have ne: "hd (fst g) \<noteq> hd (fst x)" if "x \<in> set Fl" for x
    proof -
      have "hd (fst x) \<in> set (fst x)" using Cons.prems(1) that by simp
      then show ?thesis using Cons.prems(2) hd that by auto
    qed
    have "hd (fst g) \<notin> set (heads Fl)" "g \<notin> set Fl" using ne by (auto, use ne [of g] in blast)
    then show ?case using Cons by simp
  qed simp
  then show "distinct (heads Fl)" "distinct Fl" using assms by (simp_all add: good_def)
qed

lemma event_groups:
  assumes "good ctx H Fl" "distinct (map ev_obj evs)" "set (map ev_obj evs) \<subseteq> set (heads Fl)"
  obtains grs where "evs = map (\<lambda>(g, r). \<lparr> ev_obj = hd (fst g), ev_res = r \<rparr>) grs" "distinct (map fst grs)"
    "set (map fst grs) \<subseteq> set Fl"
proof -
  have "\<exists>g. g \<in> set Fl \<and> hd (fst g) = ev_obj e" if "e \<in> set evs" for e
  proof -
    have "ev_obj e \<in> set (heads Fl)" using assms(3) that by auto
    then show ?thesis by (metis (mono_tags, lifting) imageE list.set_map)
  qed
  then obtain f where f: "\<And>e. e \<in> set evs \<Longrightarrow> f e \<in> set Fl \<and> hd (fst (f e)) = ev_obj e" by metis
  let ?grs = "map (\<lambda>e. (f e, ev_res e)) evs"
  have eq: "evs = map (\<lambda>(g, r). \<lparr> ev_obj = hd (fst g), ev_res = r \<rparr>) ?grs"
    using f by (auto simp: map_idI)
  have "distinct (map (\<lambda>g. hd (fst g)) (map f evs))"
  proof -
    have "map (\<lambda>g. hd (fst g)) (map f evs) = map ev_obj evs" using f by simp
    then show ?thesis using assms(2) by metis
  qed
  then have "distinct (map fst ?grs)" by (simp add: comp_def distinct_map) (simp add: inj_on_def)
  then show thesis by (rule that [OF eq]) (use f in auto)
qed

lemma run_inv:
  assumes cb: "driver_cb cb"
  shows "aio_run cb fl q \<Longrightarrow> \<exists>H Fl dl. aio_inv H Fl dl [] q \<and> set fl = set (heads Fl)"
proof (induction rule: aio_run.induct)
  case (start n ctx q)
  then have q: "q = \<lparr> q_size = n, opioctx_of = ctx\<lparr>opios := (\<lambda>_. zero_opio), free_opios := [0..<n]\<rparr>, q_iocbs = [], iocbs_pending = 0,
      tiocbs_pending = 0, deferred_head = None, deferred_tail = None, tiocbs_deferred = 0, deferrals = 0, tio_next = (\<lambda>_. None),
      accepted = [], completed = [] \<rparr>"
    by (simp add: libaio_backend_init_queue_def opio_init_def Let_def)
  have "aio_inv (iocbs ctx) [] [] [] q" by (simp add: q aio_inv_def aio_core_def good_def outstanding_def)
  then show ?case by (intro exI [of _ "iocbs ctx"] exI [of _ "[]"]) auto
next
  case (queue fl q t nb fd rw buf off q')
  then obtain H Fl dl where "aio_inv H Fl dl [] q" "set fl = set (heads Fl)" by blast
  then show ?case using queue_inv [OF _ queue(2-4), of H Fl dl "[]" fd rw buf off] queue(5) by auto
next
  case (submit fl q m ctx r q')
  then obtain H Fl dl where i: "aio_inv H Fl dl [] q" "set fl = set (heads Fl)" by blast
  then obtain Gn where "aio_core H (Gn @ Fl) dl [] q'" "m = heads Gn" "mset (outstanding (Gn @ Fl) dl q') = mset (outstanding Fl dl q)"
    "completed q' = completed q" "accepted q' = accepted q"
    using submit_step [OF _ submit(2,3) refl, of H Fl dl "[]" cb] submit(4) by (auto simp: aio_inv_def)
  then show ?case using i by (intro exI [of _ H] exI [of _ "Gn @ Fl"] exI [of _ dl]) (auto simp: aio_inv_def)
next
  case (event fl q evs q')
  then obtain H Fl dl where i: "aio_inv H Fl dl [] q" "set fl = set (heads Fl)" by blast
  have g: "good (opioctx_of q) H Fl" using i by (simp add: aio_inv_def aio_core_def)
  obtain grs where e: "evs = map (\<lambda>(g, r). \<lparr> ev_obj = hd (fst g), ev_res = r \<rparr>) grs" "distinct (map fst grs)" "set (map fst grs) \<subseteq> set Fl"
    using event_groups [OF g event(2)] event(3) i(2) by auto
  obtain H' Rs dl' where r: "aio_inv H' Rs dl' [] q'" "mset Fl = mset (map fst grs @ Rs)"
    using event_step [OF i(1) cb e(2,3)] event(4) e(1) by auto
  have "distinct (heads (map fst grs @ Rs))"
  proof -
    have "mset (heads Fl) = mset (heads (map fst grs @ Rs))" using r(2) by (metis mset_map)
    then show ?thesis using mset_eq_imp_distinct_iff good_heads(1) [OF g] by blast
  qed
  moreover have "set (heads Fl) = set (heads (map fst grs @ Rs))" unfolding set_map mset_eq_setD [OF r(2)] ..
  moreover have "map ev_obj evs = heads (map fst grs)" unfolding e(1) by (simp add: comp_def split_beta)
  ultimately have "set (filter (\<lambda>a. a \<notin> set (map ev_obj evs)) fl) = set (heads Rs)" using i(2) by auto
  then show ?case using r(1) by blast
qed

subsection \<open>Submission fails\<close>

definition idle_aio :: aio_callback where
  "idle_aio t e q = Some q"

lemma idle_driver: "driver_cb idle_aio"
  by (auto simp: driver_cb_def idle_aio_def intro: aio_calls.none)

lemma cancel_linked:
  assumes "linked (tio_next q) as None" "\<forall>a\<in>set as. queue_iocb q a = H a \<and> driver_req H a" "- (2 ^ 31) \<le> e" "e < 0"
  shows "cancel_from idle_aio e (first as) q = Some (q\<lparr>completed := completed q @ map (\<lambda>a. (a, e)) as\<rparr>)"
  using assms(1,2)
proof (induction as arbitrary: q)
  case Nil
  then show ?case by (subst cancel_from.simps) simp
next
  case (Cons a as)
  let ?q = "q\<lparr>completed := completed q @ [(a, e)]\<rparr>"
  have h: "queue_iocb q a = H a" "driver_req H a" using Cons.prems by auto
  have "err_of (c_nbytes (io_u (H a))) (word_of_int e) = e"
    using err_of_small [OF _ assms(3,4)] h(2) by (simp add: driver_req_def)
  then have "complete_tiocb idle_aio q a (word_of_int e) = Some ?q"
    using plain_simps(2) [OF driver_plain [OF h(2)]]
    by (simp add: complete_tiocb_def h(1) idle_aio_def err_of_def Let_def)
  moreover have "tio_next ?q a = first as" using Cons.prems(1) by (simp add: first_def split: list.splits)
  moreover have "cancel_from idle_aio e (first as) ?q = Some (?q\<lparr>completed := completed ?q @ map (\<lambda>a. (a, e)) as\<rparr>)"
    by (rule Cons.IH) (use Cons.prems in auto)
  ultimately show ?case by (subst cancel_from.simps) simp
qed

lemma submit_fail:
  assumes core: "aio_core H Fl dl R q" and ne: "q_iocbs q \<noteq> []" and e: "- (2 ^ 31) \<le> e" "e < 0"
    and l: "linked (tio_next q) (q_iocbs q @ ds) None" "set ds \<subseteq> set dl"
  shows "\<exists>q' ctx. libaio_backend_lio_submit idle_aio q e = Some (0, q') \<and> good ctx H Fl
    \<and> length (free_opios ctx) = length (free_opios (opioctx_of q))
    \<and> q' = q\<lparr>opioctx_of := ctx, q_iocbs := [], completed := completed q @ map (\<lambda>a. (a, e)) (q_iocbs q @ ds)\<rparr>"
proof -
  obtain ctx Gn where r: "io_merge (opioctx_of q) (q_iocbs q) = Some (heads Gn, ctx)" "concat (map fst Gn) = q_iocbs q"
    "good ctx H (Gn @ Fl)" "Gn \<noteq> []" "length (concat (map snd Gn)) + length (free_opios ctx) = length (free_opios (opioctx_of q))"
    by (rule merge_step [OF core ne])
  obtain ctx' where x: "expand_queue ctx (heads Gn) = Some (concat (map fst Gn), ctx')" "good ctx' H Fl"
    "length (free_opios ctx') = length (free_opios ctx) + length (concat (map snd Gn))"
    using expand_queue_good [OF r(3)] by blast
  let ?p = "tiocbs_pending q + int (length (q_iocbs q))"
  let ?q = "q\<lparr>tiocbs_pending := ?p, opioctx_of := ctx', q_iocbs := []\<rparr>"
  have dis: "a \<notin> set (concat (map fst Fl)) \<and> driver_req H a" if "a \<in> set (q_iocbs q @ ds)" for a
    using core that l(2) by (auto simp: aio_core_def outstanding_def)
  have st: "\<forall>a\<in>set (q_iocbs q @ ds). queue_iocb ?q a = H a \<and> driver_req H a"
    using dis x(2) by (auto simp: good_def)
  have f: "first (q_iocbs q @ ds) = Some (hd (q_iocbs q))" using ne by (cases "q_iocbs q") auto
  have "cancel_from idle_aio e (first (q_iocbs q @ ds)) ?q = Some (?q\<lparr>completed := completed ?q @ map (\<lambda>a. (a, e)) (q_iocbs q @ ds)\<rparr>)"
    by (rule cancel_linked [OF _ st e]) (use l(1) in simp)
  then have c: "cancel_from idle_aio e (Some (hd (q_iocbs q))) ?q = Some (?q\<lparr>completed := completed q @ map (\<lambda>a. (a, e)) (q_iocbs q @ ds)\<rparr>)"
    by (simp add: f)
  have at: "tiocb_at (q\<lparr>tiocbs_pending := ?p, opioctx_of := ctx'\<rparr>) (hd (q_iocbs q)) = Some (hd (q_iocbs q))"
    using st ne by (auto simp: tiocb_at_def driver_req_def)
  have "libaio_backend_lio_submit idle_aio q e = Some (0, ?q\<lparr>completed := completed ?q @ map (\<lambda>a. (a, e)) (q_iocbs q @ ds),
      tiocbs_pending := tiocbs_pending q\<rparr>)"
    using r(1,2,4) x(1) c ne e(2)
    by (simp add: libaio_backend_lio_submit_def fail_tiocbs_def io_expand_iocbs_def cancel_tiocbs_def at Let_def)
  then show ?thesis
    using x(2,3) r(5) by (intro exI [of _ "?q\<lparr>completed := completed ?q @ map (\<lambda>a. (a, e)) (q_iocbs q @ ds),
      tiocbs_pending := tiocbs_pending q\<rparr>"] exI [of _ ctx']) simp
qed

text \<open>When the kernel takes everything, one round of \<^const>\<open>libaio_backend_submit_all_tiocbs\<close> empties the queue.\<close>

lemma submit_all_accepted:
  assumes inv: "aio_core H Fl dl R q" and ne: "q_iocbs q \<noteq> []"
    and m: "io_merge (opioctx_of q) (q_iocbs q) = Some (m, ctx)" and sub: "sub 0 = int (length m)"
  shows "\<exists>q' Gn. libaio_backend_submit_all_tiocbs cb sub 0 0 q = Some (int (length m), q') \<and> q_iocbs q' = []
    \<and> aio_core H (Gn @ Fl) dl R q'"
  using submit_step [OF inv ne m sub, of cb] sub by (auto simp: libaio_backend_submit_all_tiocbs.simps [of cb sub 0 0 q])

lemma cancel_all_idle:
  assumes "libaio_backend_cancel_tiocbs idle_aio q = Some (n, q')" and "q_iocbs q' = []"
  shows "libaio_backend_cancel_all_tiocbs idle_aio 0 q = Some (n, q')"
  using assms by (simp add: libaio_backend_cancel_all_tiocbs.simps [of idle_aio 0 q])

subsection \<open>Sample queues\<close>

text \<open>Two queued requests, and two deferred ones.\<close>

definition demo_queue :: "nat list \<Rightarrow> nat list \<Rightarrow> libaio_queue" where
  "demo_queue qs ds = \<lparr> q_size = 4, opioctx_of = demo_ctx, q_iocbs = qs, iocbs_pending = 0, tiocbs_pending = 0,
     deferred_head = first ds, deferred_tail = (if ds = [] then None else Some (last ds)), tiocbs_deferred = int (length ds), deferrals = 0,
     tio_next = (\<lambda>a. if a = 1 then Some 2 else None), accepted = qs @ ds, completed = [] \<rparr>"

lemma demo_driver: "driver_req demo_req a"
  using demo_plain [of a] by (simp add: driver_req_def demo_seg) (simp add: demo_req_def)

lemma demo_queued: "aio_inv demo_req [] [] [] (demo_queue [1, 2] [])"
  by (auto simp: aio_inv_def aio_core_def demo_queue_def outstanding_def demo_good demo_driver demo_free)

lemma demo_deferred: "aio_inv demo_req [] [1, 2] [] (demo_queue [] [1, 2])"
  by (auto simp: aio_inv_def aio_core_def demo_queue_def outstanding_def demo_good demo_driver demo_free)

subsection \<open>Properties\<close>



text \<open>C26: Completion reports each request its own result: for any set of requests that the kernel has finished, in any
  order, the callbacks of all original requests are invoked, in order and once each, with zero if the whole
  merged transfer succeeded and with its error otherwise; the rest stays in flight.\<close>

theorem aio_event_results:
  assumes "aio_inv H Fl dl [] q" and "driver_cb cb" and "distinct (map fst grs)" and "set (map fst grs) \<subseteq> set Fl"
  shows "\<exists>q' H' Rs dl'. libaio_backend_lio_event cb q (map (\<lambda>(g, r). \<lparr> ev_obj = hd (fst g), ev_res = r \<rparr>) grs) = Some q'
    \<and> aio_inv H' Rs dl' [] q' \<and> mset Fl = mset (map fst grs @ Rs)
    \<and> completed q' = completed q @ concat (map (\<lambda>(g, r). map (\<lambda>a. (a, err_of (group_bytes H (fst g)) r)) (fst g)) grs)"
  using event_step [OF assms] unfolding results_def .

theorem aio_event_results_witness:
  "\<exists>Fl q q' g. g \<in> set Fl \<and> libaio_backend_lio_event idle_aio q [\<lparr> ev_obj = hd (fst g), ev_res = 5 \<rparr>] = Some q'
    \<and> aio_inv demo_req Fl [] [] q"
proof -
  let ?q = "demo_queue [1, 2] []"
  have core: "aio_core demo_req [] [] [] ?q" using demo_queued by (simp add: aio_inv_def)
  have ne: "q_iocbs ?q \<noteq> []" by (simp add: demo_queue_def)
  obtain ctx Gn where m: "io_merge (opioctx_of ?q) (q_iocbs ?q) = Some (heads Gn, ctx)" "Gn \<noteq> []"
    by (rule merge_step [OF core ne])
  obtain q1 Gn' where s: "aio_core demo_req (Gn' @ []) [] [] q1" "heads Gn = heads Gn'"
    "mset (outstanding (Gn' @ []) [] q1) = mset (outstanding [] [] ?q)" "completed q1 = completed ?q" "accepted q1 = accepted ?q"
    using submit_step [OF core ne m(1) refl, of idle_aio] by blast
  have i: "aio_inv demo_req Gn' [] [] q1" using s demo_queued by (simp add: aio_inv_def)
  obtain g where g: "g \<in> set Gn'" using s(2) m(2) by (cases Gn') auto
  have "\<exists>q'. libaio_backend_lio_event idle_aio q1 [\<lparr> ev_obj = hd (fst g), ev_res = 5 \<rparr>] = Some q'"
    using aio_event_results [OF i idle_driver, of "[(g, 5)]"] g by auto
  then show ?thesis using g i by blast
qed



text \<open>C31: A request that was taken from the list of deferred ones keeps its field \<^verbatim>\<open>next\<close>: when its submission is
  refused, every request behind it on the list is completed as well, and stays on the list, to be submitted
  and completed again.\<close>

theorem aio_deferred_twice:
  assumes "aio_inv H Fl (t # d # dl) [] q" and "q_iocbs q = []" and "\<not> libaio_backend_queue_full q"
    and "- (2 ^ 31) \<le> e" and "e < 0"
  shows "\<exists>q1 q2. queue_deferred_tiocb q = Some q1 \<and> q_iocbs q1 = [t]
    \<and> libaio_backend_lio_submit idle_aio q1 e = Some (0, q2)
    \<and> completed q2 = completed q @ map (\<lambda>a. (a, e)) (t # d # dl) \<and> deferred_head q2 = Some d"
proof -
  have core: "aio_core H Fl (t # d # dl) [] q" using assms(1) by (simp add: aio_inv_def)
  obtain q1 where 1: "queue_deferred_tiocb q = Some q1" "aio_core H Fl (d # dl) [] q1" "q_iocbs q1 = [t]" "completed q1 = completed q"
    using deferred_step [OF core assms(3)] assms(2) by auto
  have nx: "tio_next q1 = tio_next q" "deferred_head q1 = Some d"
    using 1(1) core assms(2) by (auto simp: queue_deferred_tiocb_def queue_tiocb_def aio_core_def Let_def)
  have "linked (tio_next q1) (q_iocbs q1 @ d # dl) None" using core by (simp add: 1(3) nx(1) aio_core_def)
  then obtain ctx q2 where "libaio_backend_lio_submit idle_aio q1 e = Some (0, q2)"
    "q2 = q1\<lparr>opioctx_of := ctx, q_iocbs := [], completed := completed q1 @ map (\<lambda>a. (a, e)) (q_iocbs q1 @ d # dl)\<rparr>"
    using submit_fail [OF 1(2) _ assms(4,5), of "d # dl"] 1(3) by auto
  then show ?thesis using 1 nx(2) by auto
qed

theorem aio_deferred_twice_witness:
  "\<exists>q1 q2. queue_deferred_tiocb (demo_queue [] [1, 2]) = Some q1 \<and> libaio_backend_lio_submit idle_aio q1 (- EINVAL) = Some (0, q2)
    \<and> completed q2 = [(1, - EINVAL), (2, - EINVAL)] \<and> deferred_head q2 = Some 2"
  using aio_deferred_twice [OF demo_deferred, of "- EINVAL"]
  by (auto simp: demo_queue_def libaio_backend_queue_full_def)

end
