(* ===== verification/Spec2Isabelle.thy ===== *)
theory Spec2Isabelle
  imports Vhd_Image Vhd_Create_Props Sched_Props Aio_Props
begin

text \<open>
  A verification development of blktap: the VHD image library \<^verbatim>\<open>vhd/lib/libvhd.c\<close> and, of the user space
  block device \<^verbatim>\<open>drivers/tapdisk2\<close>, the event scheduler, the merging of asynchronous requests and the queue
  to the kernel.

  \<^bold>\<open>Parts of the program.\<close>  The library keeps a virtual disk in a file: a footer at the end with a copy at the
  start, a header, a table of blocks (BAT), a map of full blocks (batmap), locators that name the parent of a
  differencing image, and blocks, each with a bitmap of its sectors.  The command line tools \<^verbatim>\<open>vhd-util\<close> and the
  drivers of tapdisk use it.  Tapdisk is a single thread around an event loop; drivers queue requests, the queue
  merges neighbouring ones, hands them to the kernel, and the event loop reports their completion.

  \<^bold>\<open>Conventions.\<close>  A C function that returns an error code is a definition of the same name that returns the
  same code; names with leading underscores lose them (\<^verbatim>\<open>__vhd_create\<close> is \<open>vhd_create_impl\<close>).  The library is a state
  monad over a record with the context and the operating system's files.  What the operating system does with a
  call is given by the list \<open>faults\<close>: success, a short transfer, or an error; theorems quantify over all lists
  unless they say that no fault occurs.  Failed assertions and accesses outside an array set \<open>panicked\<close>.  Tapdisk's
  parts use the option monad, \<open>None\<close> being code that aborts or does not return.  Unsigned C integers are machine
  words in structures and natural numbers with explicit truncation in computations.  Logging is left out.

  \<^bold>\<open>Theories.\<close>
  \<^item> \<open>Blktap_Prelude\<close>: error numbers, truncation, bytes of words, buffers, weakest preconditions.
  \<^item> \<open>Vhd_Bits\<close>, \<open>Vhd_Format\<close>: bitmaps, sector arithmetic; the structures of \<^verbatim>\<open>include/vhd.h\<close>, their memory images, byte
    order, checksums, validation, geometry.  The locales \<open>bit_array\<close>, \<open>wire_struct\<close> and \<open>sealed_struct\<close> state what
    clients use of them and are interpreted on these definitions.
  \<^item> \<open>Vhd_Os\<close>: files, faults, the retry loop \<^verbatim>\<open>vhd_atomic_pio\<close> and the transfers; contracts under any faults.
  \<^item> \<open>Vhd_Paths\<close>, \<open>Vhd_Locator\<close>: \<^verbatim>\<open>canonpath.c\<close>, \<^verbatim>\<open>relative-path.c\<close>, parent locators.
  \<^item> \<open>Vhd_Meta\<close>, \<open>Vhd_Block\<close>, \<open>Vhd_Io\<close>: metadata, opening, blocks, sector I/O through chains of images.
  \<^item> \<open>Vhd_Create\<close>: creation, sizes, change of the parent, marker and key hash.
  \<^item> \<open>Vhd_Layout\<close>, \<open>Vhd_Io_Inv\<close>, \<open>Vhd_Io_Write\<close>, \<open>Vhd_Io_Read\<close>, \<open>Vhd_Io_Live\<close>, \<open>Vhd_Image\<close>: the invariant \<open>img\<close> of an open
    dynamic image and the proofs that reads and writes keep it and implement a disk.
  \<^item> \<open>Vhd_Create_Props\<close>: what a new image is.
  \<^item> \<open>Sched_Time\<close>, \<open>Scheduler\<close>: \<^verbatim>\<open>timeout-math.h\<close>, \<^verbatim>\<open>scheduler.c\<close>.  \<open>Sched_Loop\<close>: the locale \<open>loop_relation\<close>, relations that
    hold across every run at any depth of nested waits; \<open>Sched_Inv\<close> interprets it for identifiers, growth and silence;
    \<open>Sched_Run\<close>, \<open>Sched_Quiet\<close>, \<open>Sched_Props\<close>: the wait, its termination, the properties.
  \<^item> \<open>Io_Optimize\<close>: \<^verbatim>\<open>io-optimize.c\<close>; \<open>Io_Groups\<close>, \<open>Io_Props\<close>: groups of merged requests and the properties.
  \<^item> \<open>Aio_Queue\<close>: \<^verbatim>\<open>libaio-backend.c\<close>; \<open>Aio_Props\<close>: every request is completed exactly once.

  \<^bold>\<open>What is shown.\<close>  Writes and reads of an image refine a disk that is a function from sectors to contents, for
  all faults; a new image is a well-formed one that holds zeros; written data is read back; out of range requests are refused; a corrupted footer is detected; a
  locator names the parent; the geometry is right.  The scheduler keeps its identifiers distinct, its waits end
  when callbacks do, timers fire exactly when due, and unregistered events stay silent.  Merging transfers the
  same bytes, splitting reports each request its result, and the queue completes each request once, except in the
  case of a refused submission after deferral, which is proved to complete requests twice.  Three more defects are
  proved: the batmap of some sizes is too small, setting the marker wipes part of the batmap, and a failed creation
  unlinks a block device.

  \<^bold>\<open>Bounds and fuel.\<close>  \<open>pio_loop\<close> has fuel for every fault and byte, and is proved total with it.  \<open>vhd_io_read\<close> has fuel for
  the number of images of a chain it may visit; a chain that contains itself makes the C loop run forever.  Loops
  over linked lists and the event loop are partial functions whose termination is proved.  Sector numbers in
  theorems are below \<^verbatim>\<open>2^55\<close>, where the byte offset fits 64 bits.  New images are considered up to 2040 gigabytes,
  the limit of the format, so that every block can still be allocated at a 32-bit sector.

  \<^bold>\<open>Not modelled.\<close>  The byte-granular I/O and the read cache of the library; the journal, the index and the
  \<^verbatim>\<open>vhd-util\<close> commands, which are clients of the modelled functions; the asynchronous VHD driver \<^verbatim>\<open>block-vhd.c\<close> and the
  other drivers; virtual block devices, rings and images of tapdisk; the NBD server, control sockets, rate
  limiting, tapback, logging, statistics and LVM scanning, which are mostly system calls, shared memory with Xen or
  text output.
\<close>

end
